(* ===== verification/Prelude.thy ===== *)
theory Prelude
  imports Complex_Main "HOL-Library.Word" "HOL-Library.Signed_Division"
begin

text \<open>
  Shared vocabulary of the development: names for the machine types of the C++ code,
  the exceptions it throws as values of a sum type with a bind operation, the byte-level
  facts about words the encoders need, and the arithmetic of decimal scaling that the
  amount arithmetic rests on.
\<close>

unbundle bit_operations_syntax

subsection \<open>Machine types\<close>

type_synonym u8 = "8 word"
type_synonym u16 = "16 word"
type_synonym u32 = "32 word"
type_synonym u64 = "64 word"
type_synonym u128 = "128 word"
type_synonym u160 = "160 word"
type_synonym u256 = "256 word"
type_synonym blob = "u8 list"

text \<open>
  A C++ \<open>int64_t\<close> is an \<open>int\<close>; \<open>s64\<close> is the two's complement wrap-around of a 64-bit
  result (in C++ an overflow of a signed type is undefined; the compilers the program is
  built with wrap). \<open>s32\<close> is the same for \<open>int\<close>.
\<close>

definition s64 :: "int \<Rightarrow> int" where
  "s64 x = (x + 2 ^ 63) mod 2 ^ 64 - 2 ^ 63"

definition s32 :: "int \<Rightarrow> int" where
  "s32 x = (x + 2 ^ 31) mod 2 ^ 32 - 2 ^ 31"

lemma s64_id: "- (2 ^ 63) \<le> x \<Longrightarrow> x < 2 ^ 63 \<Longrightarrow> s64 x = x"
  by (simp add: s64_def)

lemma s32_id: "- (2 ^ 31) \<le> x \<Longrightarrow> x < 2 ^ 31 \<Longrightarrow> s32 x = x"
  by (simp add: s32_def)

subsection \<open>Exceptions\<close>

text \<open>
  The exception classes of the sources, with their message where the code gives one. A
  computation that can throw has type \<open>'a result\<close>; \<open>Inl\<close> is the exception. An access through a
  null pointer, an access to an entry that is gone, an integer division by zero and a computation
  that never ends are further failures.
\<close>

datatype cxx_error =
    RuntimeError string
  | OverflowError string
  | LogicError string
  | BadCast
  | NullPointer
  | Dangling
  | DivideByZero
  | Diverges

type_synonym 'a result = "cxx_error + 'a"

definition bindE :: "'a result \<Rightarrow> ('a \<Rightarrow> 'b result) \<Rightarrow> 'b result" where
  "bindE m f = (case m of Inl e \<Rightarrow> Inl e | Inr x \<Rightarrow> f x)"

definition returns :: "'a result \<Rightarrow> bool" where
  "returns m = (case m of Inl _ \<Rightarrow> False | Inr _ \<Rightarrow> True)"

lemma bindE_simps [simp]:
  "bindE (Inl e) f = Inl e"
  "bindE (Inr x) f = f x"
  by (simp_all add: bindE_def)

lemma bindE_eq_Inr: "bindE m f = Inr y \<longleftrightarrow> (\<exists>x. m = Inr x \<and> f x = Inr y)"
  by (cases m) auto

lemma bindE_eq_Inl: "bindE m f = Inl e \<longleftrightarrow> m = Inl e \<or> (\<exists>x. m = Inr x \<and> f x = Inl e)"
  by (cases m) auto

lemma returns_simps [simp]: "returns (Inl e) = False" "returns (Inr x) = True"
  by (simp_all add: returns_def)

lemma returns_iff: "returns m \<longleftrightarrow> (\<exists>x. m = Inr x)"
  by (cases m) auto

lemma bindE_cong [fundef_cong]:
  "m = m' \<Longrightarrow> (\<And>x. m' = Inr x \<Longrightarrow> f x = f' x) \<Longrightarrow> bindE m f = bindE m' f'"
  by (cases m') auto

subsection \<open>Words as big-endian byte strings\<close>

definition be_val :: "blob \<Rightarrow> nat" where
  "be_val bs = foldl (\<lambda>a b. a * 256 + unat b) 0 bs"

fun be_bytes :: "nat \<Rightarrow> nat \<Rightarrow> blob" where
  "be_bytes 0 v = []"
| "be_bytes (Suc n) v = be_bytes n (v div 256) @ [word_of_nat (v mod 256)]"

lemma be_val_Nil [simp]: "be_val [] = 0"
  by (simp add: be_val_def)

lemma be_val_snoc [simp]: "be_val (bs @ [b]) = be_val bs * 256 + unat b"
  by (simp add: be_val_def)

lemma length_be_bytes [simp]: "length (be_bytes n v) = n"
  by (induction n arbitrary: v) auto

lemma be_val_be_bytes: "be_val (be_bytes n v) = v mod 256 ^ n"
proof (induction n arbitrary: v)
  case (Suc n)
  have "v mod (256 * 256 ^ n) = 256 * (v div 256 mod 256 ^ n) + v mod 256"
    by (simp add: mod_mult2_eq)
  with Suc show ?case by (simp add: unat_of_nat take_bit_eq_mod)
qed simp

lemma be_val_Cons: "be_val (b # bs) = unat b * 256 ^ length bs + be_val bs"
proof (induction bs rule: rev_induct)
  case (snoc x xs)
  have "be_val (b # xs @ [x]) = be_val ((b # xs) @ [x])" by simp
  also have "\<dots> = be_val (b # xs) * 256 + unat x" by (rule be_val_snoc)
  finally show ?case using snoc by (simp add: be_val_snoc algebra_simps)
qed (simp add: be_val_def)

lemma be_val_less: "be_val bs < 256 ^ length bs"
proof (induction bs rule: rev_induct)
  case (snoc b bs)
  have "unat b < 256" using unsigned_less [of b, where ?'a = nat] by simp
  with snoc show ?case by simp
qed simp

lemma be_bytes_be_val: "be_bytes (length bs) (be_val bs) = bs"
proof (induction bs rule: rev_induct)
  case (snoc b bs)
  have b: "unat b < 256" using unsigned_less [of b, where ?'a = nat] by simp
  then have "(be_val bs * 256 + unat b) div 256 = be_val bs"
    and "(be_val bs * 256 + unat b) mod 256 = unat b" by auto
  with snoc show ?case by simp
qed simp

end
