(* ===== verification/Serialization.thy ===== *)
theory Serialization
  imports Prelude
begin

text \<open>
  The canonical binary format: \<open>Serializer\<close> (a growing byte vector with positioned reads)
  and \<open>SerialIter\<close> (a reading cursor) of \<open>protocol/Serializer.h\<close> and
  \<open>protocol/impl/Serializer.cpp\<close>. Every \<open>add\<close> operation returns the old size and the new
  serializer. Every positioned \<open>get\<close> is \<open>None\<close> where the code returns \<open>false\<close>. A cursor
  operation throws when the bytes run out. Offsets and sizes are natural numbers: the code
  never passes a negative one, and the model is of buffers below 2^31 bytes, where the
  code's \<open>int\<close> positions do not wrap. Assertions are not part of the model. The locale
  \<open>wire_codec\<close> states what a matching pair of writer and reader promises.
\<close>

subsection \<open>Serializer\<close>

record serializer =
  mData :: blob

definition push_bytes :: "blob \<Rightarrow> serializer \<Rightarrow> nat \<times> serializer" where
  "push_bytes bs s = (length (mData s), s\<lparr>mData := mData s @ bs\<rparr>)"

definition addZeros :: "nat \<Rightarrow> serializer \<Rightarrow> nat \<times> serializer" where
  "addZeros uBytes s = push_bytes (replicate uBytes 0) s"

definition add8 :: "u8 \<Rightarrow> serializer \<Rightarrow> nat \<times> serializer" where
  "add8 byte s = push_bytes [byte] s"

definition add16 :: "u16 \<Rightarrow> serializer \<Rightarrow> nat \<times> serializer" where
  "add16 i s = push_bytes [ucast (drop_bit 8 i), ucast (i AND 0xff)] s"

definition add32 :: "u32 \<Rightarrow> serializer \<Rightarrow> nat \<times> serializer" where
  "add32 i s = push_bytes
     [ucast (drop_bit 24 i), ucast (drop_bit 16 i AND 0xff),
      ucast (drop_bit 8 i AND 0xff), ucast (i AND 0xff)] s"

definition add64 :: "u64 \<Rightarrow> serializer \<Rightarrow> nat \<times> serializer" where
  "add64 i s = push_bytes
     [ucast (drop_bit 56 i), ucast (drop_bit 48 i AND 0xff),
      ucast (drop_bit 40 i AND 0xff), ucast (drop_bit 32 i AND 0xff),
      ucast (drop_bit 24 i AND 0xff), ucast (drop_bit 16 i AND 0xff),
      ucast (drop_bit 8 i AND 0xff), ucast (i AND 0xff)] s"

text \<open>The bytes \<open>begin() .. end()\<close> of a \<open>base_uint\<close>, which stores its value big-endian.\<close>

definition uint_bytes :: "'a::len word \<Rightarrow> blob" where
  "uint_bytes v = be_bytes (LENGTH('a) div 8) (unat v)"

definition addBitString :: "'a::len word \<Rightarrow> serializer \<Rightarrow> nat \<times> serializer" where
  "addBitString v s = push_bytes (uint_bytes v) s"

definition add128 :: "u128 \<Rightarrow> serializer \<Rightarrow> nat \<times> serializer" where
  "add128 i s = push_bytes (uint_bytes i) s"

definition add160 :: "u160 \<Rightarrow> serializer \<Rightarrow> nat \<times> serializer" where
  "add160 i s = addBitString i s"

definition add256 :: "u256 \<Rightarrow> serializer \<Rightarrow> nat \<times> serializer" where
  "add256 i s = push_bytes (uint_bytes i) s"

definition addRaw :: "blob \<Rightarrow> serializer \<Rightarrow> nat \<times> serializer" where
  "addRaw vector s = push_bytes vector s"

definition addRaw_serializer :: "serializer \<Rightarrow> serializer \<Rightarrow> nat \<times> serializer" where
  "addRaw_serializer t s = push_bytes (mData t) s"

text \<open>\<open>memcpy\<close> of the next bytes of a buffer into a \<open>base_uint\<close>.\<close>

definition uint_of_bytes :: "blob \<Rightarrow> 'a::len word" where
  "uint_of_bytes bs = word_of_nat (be_val bs)"

definition get8 :: "serializer \<Rightarrow> nat \<Rightarrow> int option" where
  "get8 s offset = (if offset \<ge> length (mData s) then None else Some (uint (mData s ! offset)))"

definition get16 :: "serializer \<Rightarrow> nat \<Rightarrow> u16 option" where
  "get16 s offset =
     (if offset + 2 > length (mData s) then None
      else let r = ucast (mData s ! offset);
               r = push_bit 8 r OR ucast (mData s ! (offset + 1))
           in Some r)"

definition get32 :: "serializer \<Rightarrow> nat \<Rightarrow> u32 option" where
  "get32 s offset =
     (if offset + 4 > length (mData s) then None
      else let r = ucast (mData s ! offset);
               r = push_bit 8 r OR ucast (mData s ! (offset + 1));
               r = push_bit 8 r OR ucast (mData s ! (offset + 2));
               r = push_bit 8 r OR ucast (mData s ! (offset + 3))
           in Some r)"

definition get64 :: "serializer \<Rightarrow> nat \<Rightarrow> u64 option" where
  "get64 s offset =
     (if offset + 8 > length (mData s) then None
      else let r = ucast (mData s ! offset);
               r = push_bit 8 r OR ucast (mData s ! (offset + 1));
               r = push_bit 8 r OR ucast (mData s ! (offset + 2));
               r = push_bit 8 r OR ucast (mData s ! (offset + 3));
               r = push_bit 8 r OR ucast (mData s ! (offset + 4));
               r = push_bit 8 r OR ucast (mData s ! (offset + 5));
               r = push_bit 8 r OR ucast (mData s ! (offset + 6));
               r = push_bit 8 r OR ucast (mData s ! (offset + 7))
           in Some r)"

fun getInteger_loop :: "blob \<Rightarrow> nat \<Rightarrow> nat \<Rightarrow> nat \<Rightarrow> 'a::len word \<Rightarrow> 'a word" where
  "getInteger_loop data ptr i 0 number = number"
| "getInteger_loop data ptr i (Suc left) number =
     (let number = (if i \<noteq> 0 then push_bit 8 number else number);
          number = number OR ucast (data ! ptr)
      in getInteger_loop data (ptr + 1) (i + 1) left number)"

definition getInteger :: "serializer \<Rightarrow> nat \<Rightarrow> 'a::len word option" where
  "getInteger s offset =
     (let bytes = LENGTH('a) div 8
      in if offset + bytes > length (mData s) then None
         else Some (getInteger_loop (mData s) offset 0 bytes 0))"

definition getBitString :: "serializer \<Rightarrow> nat \<Rightarrow> 'a::len word option" where
  "getBitString s offset =
     (if offset + LENGTH('a) div 8 \<le> length (mData s)
      then Some (uint_of_bytes (take (LENGTH('a) div 8) (drop offset (mData s)))) else None)"

definition get128 :: "serializer \<Rightarrow> nat \<Rightarrow> u128 option" where
  "get128 s offset =
     (if offset + 128 div 8 > length (mData s) then None
      else Some (uint_of_bytes (take (128 div 8) (drop offset (mData s)))))"

definition get160 :: "serializer \<Rightarrow> nat \<Rightarrow> u160 option" where
  "get160 s offset = getBitString s offset"

definition get256 :: "serializer \<Rightarrow> nat \<Rightarrow> u256 option" where
  "get256 s offset =
     (if offset + 256 div 8 > length (mData s) then None
      else Some (uint_of_bytes (take (256 div 8) (drop offset (mData s)))))"

text \<open>The by-value overload answers zero where the other one answers \<open>false\<close>.\<close>

definition get256_or_zero :: "serializer \<Rightarrow> nat \<Rightarrow> u256" where
  "get256_or_zero s offset =
     (if offset + 256 div 8 > length (mData s) then 0
      else uint_of_bytes (take (256 div 8) (drop offset (mData s))))"

definition addFieldID :: "int \<Rightarrow> int \<Rightarrow> serializer \<Rightarrow> nat \<times> serializer" where
  "addFieldID type name s =
     (if type < 16 then
        (if name < 16 then push_bytes [word_of_int (push_bit 4 type OR name)] s
         else push_bytes [word_of_int (push_bit 4 type), word_of_int name] s)
      else if name < 16 then push_bytes [word_of_int name, word_of_int type] s
      else push_bytes [0, word_of_int type, word_of_int name] s)"

definition getFieldID :: "serializer \<Rightarrow> nat \<Rightarrow> (int \<times> int) option" where
  "getFieldID s offset =
     (case get8 s offset of
        None \<Rightarrow> None
      | Some b \<Rightarrow>
          (let name = b AND 15; type = drop_bit 4 b;
               r = (if type = 0 then
                      (case get8 s (offset + 1) of
                         None \<Rightarrow> None
                       | Some t \<Rightarrow> if t = 0 \<or> t < 16 then None else Some (t, offset + 1))
                    else Some (type, offset))
           in case r of
                None \<Rightarrow> None
              | Some (type, offset) \<Rightarrow>
                  if name = 0 then
                    (case get8 s (offset + 1) of
                       None \<Rightarrow> None
                     | Some m \<Rightarrow> if m = 0 \<or> m < 16 then None else Some (type, m))
                  else Some (type, name)))"

definition chop :: "nat \<Rightarrow> serializer \<Rightarrow> bool \<times> serializer" where
  "chop bytes s =
     (if bytes > length (mData s) then (False, s)
      else (True, s\<lparr>mData := take (length (mData s) - bytes) (mData s)\<rparr>))"

definition getRaw :: "serializer \<Rightarrow> nat \<Rightarrow> nat \<Rightarrow> blob option" where
  "getRaw s offset len =
     (if offset + len > length (mData s) then None else Some (take len (drop offset (mData s))))"

definition getRaw_or_empty :: "serializer \<Rightarrow> nat \<Rightarrow> nat \<Rightarrow> blob" where
  "getRaw_or_empty s offset len =
     (if offset + len > length (mData s) then [] else take len (drop offset (mData s)))"

definition erase :: "serializer \<Rightarrow> serializer" where
  "erase s = s\<lparr>mData := []\<rparr>"

definition secureErase :: "serializer \<Rightarrow> serializer" where
  "secureErase s = erase (s\<lparr>mData := replicate (length (mData s)) 0\<rparr>)"

definition resize :: "nat \<Rightarrow> serializer \<Rightarrow> serializer" where
  "resize n s = s\<lparr>mData := take n (mData s) @ replicate (n - length (mData s)) 0\<rparr>"

text \<open>
  SHA-512 is OpenSSL's: \<open>sha512\<close>, a function from a byte string to the 64-byte digest, is a
  parameter. The result is the first half of the digest.
\<close>

definition getSHA512Half :: "(blob \<Rightarrow> blob) \<Rightarrow> blob \<Rightarrow> u256" where
  "getSHA512Half sha512 data = uint_of_bytes (take 32 (sha512 data))"

definition Serializer_getSHA512Half :: "(blob \<Rightarrow> blob) \<Rightarrow> serializer \<Rightarrow> u256" where
  "Serializer_getSHA512Half sha512 s = getSHA512Half sha512 (mData s)"

definition getPrefixHash :: "(blob \<Rightarrow> blob) \<Rightarrow> u32 \<Rightarrow> blob \<Rightarrow> u256" where
  "getPrefixHash sha512 prefix data =
     uint_of_bytes (take 32 (sha512
       ([ucast (drop_bit 24 prefix), ucast (drop_bit 16 prefix AND 0xff),
         ucast (drop_bit 8 prefix AND 0xff), ucast (prefix AND 0xff)] @ data)))"

subsection \<open>Variable-length data\<close>

definition addEncoded :: "int \<Rightarrow> serializer \<Rightarrow> (nat \<times> serializer) result" where
  "addEncoded len s =
     (if len \<le> 192 then Inr (addRaw [word_of_int len] s)
      else if len \<le> 12480 then
        (let len = len - 193
         in Inr (addRaw [193 + word_of_int (drop_bit 8 len), word_of_int (len AND 0xff)] s))
      else if len \<le> 918744 then
        (let len = len - 12481
         in Inr (addRaw [241 + word_of_int (drop_bit 16 len),
                         word_of_int (drop_bit 8 len AND 0xff), word_of_int (len AND 0xff)] s))
      else Inl (OverflowError ''lenlen''))"

definition encodeLengthLength :: "int \<Rightarrow> int result" where
  "encodeLengthLength len =
     (if len < 0 then Inl (OverflowError ''len<0'')
      else if len \<le> 192 then Inr 1
      else if len \<le> 12480 then Inr 2
      else if len \<le> 918744 then Inr 3
      else Inl (OverflowError ''len>918744''))"

definition lengthVL :: "int \<Rightarrow> int result" where
  "lengthVL len = bindE (encodeLengthLength len) (\<lambda>n. Inr (len + n))"

definition decodeLengthLength :: "int \<Rightarrow> int result" where
  "decodeLengthLength b1 =
     (if b1 < 0 then Inl (OverflowError ''b1<0'')
      else if b1 \<le> 192 then Inr 1
      else if b1 \<le> 240 then Inr 2
      else if b1 \<le> 254 then Inr 3
      else Inl (OverflowError ''b1>254''))"

definition decodeVLLength1 :: "int \<Rightarrow> int result" where
  "decodeVLLength1 b1 =
     (if b1 < 0 then Inl (OverflowError ''b1<0'')
      else if b1 > 254 then Inl (OverflowError ''b1>254'')
      else Inr b1)"

definition decodeVLLength2 :: "int \<Rightarrow> int \<Rightarrow> int result" where
  "decodeVLLength2 b1 b2 =
     (if b1 < 193 then Inl (OverflowError ''b1<193'')
      else if b1 > 240 then Inl (OverflowError ''b1>240'')
      else Inr (193 + (b1 - 193) * 256 + b2))"

definition decodeVLLength3 :: "int \<Rightarrow> int \<Rightarrow> int \<Rightarrow> int result" where
  "decodeVLLength3 b1 b2 b3 =
     (if b1 < 241 then Inl (OverflowError ''b1<241'')
      else if b1 > 254 then Inl (OverflowError ''b1>254'')
      else Inr (12481 + (b1 - 241) * 65536 + b2 * 256 + b3))"

definition addVL :: "blob \<Rightarrow> serializer \<Rightarrow> (nat \<times> serializer) result" where
  "addVL vector s =
     bindE (addEncoded (int (length vector)) s)
       (\<lambda>(ret, s). Inr (ret, snd (addRaw vector s)))"

text \<open>The pointer-and-length overload skips the copy of an empty range.\<close>

definition addVL_ptr :: "blob \<Rightarrow> serializer \<Rightarrow> (nat \<times> serializer) result" where
  "addVL_ptr ptr s =
     bindE (addEncoded (int (length ptr)) s)
       (\<lambda>(ret, s). Inr (ret, if length ptr \<noteq> 0 then snd (addRaw ptr s) else s))"

text \<open>
  The part of \<open>getVL\<close> and \<open>getVLLength\<close> inside \<open>try\<close>: an exception there is the answer
  \<open>false\<close>. The call of \<open>decodeLengthLength\<close> is before it, and its exception escapes.
\<close>

definition vl_datLen :: "serializer \<Rightarrow> nat \<Rightarrow> int \<Rightarrow> int \<Rightarrow> (int \<times> nat) option" where
  "vl_datLen s offset b1 lenLen =
     (if lenLen = 1 then
        (case decodeVLLength1 b1 of Inl _ \<Rightarrow> None | Inr d \<Rightarrow> Some (d, offset))
      else if lenLen = 2 then
        (case get8 s offset of
           None \<Rightarrow> None
         | Some b2 \<Rightarrow>
             (case decodeVLLength2 b1 b2 of Inl _ \<Rightarrow> None | Inr d \<Rightarrow> Some (d, offset + 1)))
      else if lenLen = 3 then
        (case get8 s offset of
           None \<Rightarrow> None
         | Some b2 \<Rightarrow>
             (case get8 s (offset + 1) of
                None \<Rightarrow> None
              | Some b3 \<Rightarrow>
                  (case decodeVLLength3 b1 b2 b3 of
                     Inl _ \<Rightarrow> None | Inr d \<Rightarrow> Some (d, offset + 2))))
      else None)"

definition getVL :: "serializer \<Rightarrow> nat \<Rightarrow> (blob \<times> int) option result" where
  "getVL s offset =
     (case get8 s offset of
        None \<Rightarrow> Inr None
      | Some b1 \<Rightarrow>
          bindE (decodeLengthLength b1)
            (\<lambda>lenLen. case vl_datLen s (offset + 1) b1 lenLen of
               None \<Rightarrow> Inr None
             | Some (datLen, offset) \<Rightarrow>
                 (case getRaw s offset (nat datLen) of
                    None \<Rightarrow> Inr None
                  | Some objectVL \<Rightarrow> Inr (Some (objectVL, lenLen + datLen)))))"

definition getVLLength :: "serializer \<Rightarrow> nat \<Rightarrow> int option result" where
  "getVLLength s offset =
     (case get8 s offset of
        None \<Rightarrow> Inr None
      | Some b1 \<Rightarrow>
          bindE (decodeLengthLength b1)
            (\<lambda>lenLen. Inr (map_option fst (vl_datLen s (offset + 1) b1 lenLen))))"

subsection \<open>SerialIter\<close>

text \<open>The pointer \<open>p_\<close> is a position in the buffer the cursor was made on.\<close>

record serialiter =
  sit_buf :: blob
  sit_p :: nat
  sit_remain :: nat
  sit_used :: nat

definition SerialIter :: "blob \<Rightarrow> serialiter" where
  "SerialIter data = \<lparr>sit_buf = data, sit_p = 0, sit_remain = length data, sit_used = 0\<rparr>"

definition sit_reset :: "serialiter \<Rightarrow> serialiter" where
  "sit_reset it = it\<lparr>sit_p := sit_p it - sit_used it,
                     sit_remain := sit_remain it + sit_used it, sit_used := 0\<rparr>"

definition sit_empty :: "serialiter \<Rightarrow> bool" where
  "sit_empty it = (sit_remain it = 0)"

definition getBytesLeft :: "serialiter \<Rightarrow> int" where
  "getBytesLeft it = int (sit_remain it)"

definition sit_advance :: "nat \<Rightarrow> serialiter \<Rightarrow> serialiter" where
  "sit_advance n it = it\<lparr>sit_p := sit_p it + n, sit_used := sit_used it + n,
                         sit_remain := sit_remain it - n\<rparr>"

definition sit_at :: "serialiter \<Rightarrow> nat \<Rightarrow> u8" where
  "sit_at it i = sit_buf it ! (sit_p it + i)"

definition sit_get8 :: "serialiter \<Rightarrow> (u8 \<times> serialiter) result" where
  "sit_get8 it =
     (if sit_remain it < 1 then Inl (RuntimeError ''invalid SerialIter get8'')
      else Inr (sit_at it 0, sit_advance 1 it))"

definition sit_get16 :: "serialiter \<Rightarrow> (u16 \<times> serialiter) result" where
  "sit_get16 it =
     (if sit_remain it < 2 then Inl (RuntimeError ''invalid SerialIter get16'')
      else Inr (ucast (push_bit 8 (ucast (sit_at it 0) :: u64) + ucast (sit_at it 1)),
                sit_advance 2 it))"

definition sit_get32 :: "serialiter \<Rightarrow> (u32 \<times> serialiter) result" where
  "sit_get32 it =
     (if sit_remain it < 4 then Inl (RuntimeError ''invalid SerialIter get32'')
      else Inr (ucast (push_bit 24 (ucast (sit_at it 0) :: u64) +
                       push_bit 16 (ucast (sit_at it 1)) +
                       push_bit 8 (ucast (sit_at it 2)) + ucast (sit_at it 3)),
                sit_advance 4 it))"

definition sit_get64 :: "serialiter \<Rightarrow> (u64 \<times> serialiter) result" where
  "sit_get64 it =
     (if sit_remain it < 8 then Inl (RuntimeError ''invalid SerialIter get64'')
      else Inr (push_bit 56 (ucast (sit_at it 0)) + push_bit 48 (ucast (sit_at it 1)) +
                push_bit 40 (ucast (sit_at it 2)) + push_bit 32 (ucast (sit_at it 3)) +
                push_bit 24 (ucast (sit_at it 4)) + push_bit 16 (ucast (sit_at it 5)) +
                push_bit 8 (ucast (sit_at it 6)) + ucast (sit_at it 7),
                sit_advance 8 it))"

definition sit_getBitString :: "serialiter \<Rightarrow> ('a::len word \<times> serialiter) result" where
  "sit_getBitString it =
     (let n = LENGTH('a) div 8
      in if sit_remain it < n then Inl (RuntimeError ''invalid SerialIter getBitString'')
         else Inr (uint_of_bytes (take n (drop (sit_p it) (sit_buf it))), sit_advance n it))"

definition sit_get128 :: "serialiter \<Rightarrow> (u128 \<times> serialiter) result" where
  "sit_get128 it = sit_getBitString it"

definition sit_get160 :: "serialiter \<Rightarrow> (u160 \<times> serialiter) result" where
  "sit_get160 it = sit_getBitString it"

definition sit_get256 :: "serialiter \<Rightarrow> (u256 \<times> serialiter) result" where
  "sit_get256 it = sit_getBitString it"

definition sit_getFieldID :: "serialiter \<Rightarrow> ((int \<times> int) \<times> serialiter) result" where
  "sit_getFieldID it =
     bindE (sit_get8 it) (\<lambda>(b, it).
       let name = uint b AND 15; type = drop_bit 4 (uint b)
       in bindE
            (if type = 0 then
               bindE (sit_get8 it) (\<lambda>(t, it).
                 if uint t = 0 \<or> uint t < 16
                 then Inl (RuntimeError ''gFID: uncommon type out of range '')
                 else Inr (uint t, it))
             else Inr (type, it))
            (\<lambda>(type, it).
               if name = 0 then
                 bindE (sit_get8 it) (\<lambda>(m, it).
                   if uint m = 0 \<or> uint m < 16
                   then Inl (RuntimeError ''gFID: uncommon name out of range '')
                   else Inr ((type, uint m), it))
               else Inr ((type, name), it)))"

definition getRawHelper :: "nat \<Rightarrow> serialiter \<Rightarrow> (blob \<times> serialiter) result" where
  "getRawHelper sz it =
     (if sit_remain it < sz then Inl (RuntimeError ''invalid SerialIter getRaw'')
      else Inr (take sz (drop (sit_p it) (sit_buf it)), sit_advance sz it))"

definition sit_getRaw :: "nat \<Rightarrow> serialiter \<Rightarrow> (blob \<times> serialiter) result" where
  "sit_getRaw sz it = getRawHelper sz it"

definition getVLDataLength :: "serialiter \<Rightarrow> (int \<times> serialiter) result" where
  "getVLDataLength it =
     bindE (sit_get8 it) (\<lambda>(b1, it).
       bindE (decodeLengthLength (uint b1)) (\<lambda>lenLen.
         if lenLen = 1 then
           bindE (decodeVLLength1 (uint b1)) (\<lambda>datLen. Inr (datLen, it))
         else if lenLen = 2 then
           bindE (sit_get8 it) (\<lambda>(b2, it).
             bindE (decodeVLLength2 (uint b1) (uint b2)) (\<lambda>datLen. Inr (datLen, it)))
         else
           bindE (sit_get8 it) (\<lambda>(b2, it).
             bindE (sit_get8 it) (\<lambda>(b3, it).
               bindE (decodeVLLength3 (uint b1) (uint b2) (uint b3))
                 (\<lambda>datLen. Inr (datLen, it))))))"

definition sit_getVL :: "serialiter \<Rightarrow> (blob \<times> serialiter) result" where
  "sit_getVL it = bindE (getVLDataLength it) (\<lambda>(datLen, it). sit_getRaw (nat datLen) it)"

definition sit_getVLBuffer :: "serialiter \<Rightarrow> (blob \<times> serialiter) result" where
  "sit_getVLBuffer it = bindE (getVLDataLength it) (\<lambda>(datLen, it). getRawHelper (nat datLen) it)"

subsection \<open>Specification-side definitions\<close>

text \<open>\<open>sit_ok\<close> is the cursor invariant of \<open>SerialIter\<close> (the three members \<open>p_\<close>,
\<open>remain_\<close> and \<open>used_\<close> agree with the buffer), \<open>sit_rest\<close> the bytes still to be read.
\<open>fieldID_bytes\<close> and \<open>VL_bytes\<close> name the bytes the two variable-size encoders emit on an
empty \<open>Serializer\<close>; \<open>fieldID_ok\<close> and \<open>VL_ok\<close> are the domains on which they encode.\<close>

definition sit_ok :: "serialiter \<Rightarrow> bool" where
  "sit_ok it \<longleftrightarrow> sit_p it = sit_used it \<and> sit_p it + sit_remain it = length (sit_buf it)"

definition sit_rest :: "serialiter \<Rightarrow> blob" where
  "sit_rest it = drop (sit_p it) (sit_buf it)"

definition fieldID_bytes :: "int \<times> int \<Rightarrow> blob" where
  "fieldID_bytes = (\<lambda>(type, name). mData (snd (addFieldID type name \<lparr>mData = []\<rparr>)))"

definition fieldID_ok :: "int \<times> int \<Rightarrow> bool" where
  "fieldID_ok = (\<lambda>(type, name). 0 < type \<and> type < 256 \<and> 0 < name \<and> name < 256)"

definition VL_bytes :: "blob \<Rightarrow> blob" where
  "VL_bytes b = (case addVL b \<lparr>mData = []\<rparr> of Inl _ \<Rightarrow> [] | Inr (_, s) \<Rightarrow> mData s)"

definition VL_ok :: "blob \<Rightarrow> bool" where
  "VL_ok b \<longleftrightarrow> length b \<le> 918744"

text \<open>One successful read of any kind, and the cursor movement it amounts to.\<close>

inductive sit_step :: "serialiter \<Rightarrow> serialiter \<Rightarrow> bool" where
  step_get8: "sit_get8 it = Inr (a, it') \<Longrightarrow> sit_step it it'"
| step_get16: "sit_get16 it = Inr (b, it') \<Longrightarrow> sit_step it it'"
| step_get32: "sit_get32 it = Inr (c, it') \<Longrightarrow> sit_step it it'"
| step_get64: "sit_get64 it = Inr (d, it') \<Longrightarrow> sit_step it it'"
| step_get128: "sit_get128 it = Inr (e, it') \<Longrightarrow> sit_step it it'"
| step_get160: "sit_get160 it = Inr (f, it') \<Longrightarrow> sit_step it it'"
| step_get256: "sit_get256 it = Inr (g, it') \<Longrightarrow> sit_step it it'"
| step_getFieldID: "sit_getFieldID it = Inr (tn, it') \<Longrightarrow> sit_step it it'"
| step_getRaw: "sit_getRaw n it = Inr (bs, it') \<Longrightarrow> sit_step it it'"
| step_getVLDataLength: "getVLDataLength it = Inr (len, it') \<Longrightarrow> sit_step it it'"
| step_getVL: "sit_getVL it = Inr (vl, it') \<Longrightarrow> sit_step it it'"
| step_getVLBuffer: "sit_getVLBuffer it = Inr (vb, it') \<Longrightarrow> sit_step it it'"

definition sit_moves :: "serialiter \<Rightarrow> serialiter \<Rightarrow> bool" where
  "sit_moves it it' \<longleftrightarrow> (\<exists>n \<le> sit_remain it. it' = sit_advance n it)"

subsection \<open>Bytes written and read by the fixed-size operations\<close>

named_theorems wire_simps

lemma push_bytes_simps [simp]:
  "fst (push_bytes bs s) = length (mData s)"
  "mData (snd (push_bytes bs s)) = mData s @ bs"
  by (simp_all add: push_bytes_def)

lemma push_bytes_inj [simp]: "push_bytes bs s = push_bytes cs s \<longleftrightarrow> bs = cs"
proof
  assume "push_bytes bs s = push_bytes cs s"
  then have "mData (snd (push_bytes bs s)) = mData (snd (push_bytes cs s))" by simp
  then show "bs = cs" by simp
qed simp

lemma ucast_u8_eq: "(ucast (x :: 'a::len word) :: u8) = word_of_nat (unat x)"
  by simp

lemma ucast_and_ff:
  "8 \<le> LENGTH('a) \<Longrightarrow> (ucast (x AND 0xff :: 'a::len word) :: u8) = ucast x"
proof -
  assume len: "8 \<le> LENGTH('a)"
  have "x AND 0xff = take_bit 8 x" by (simp add: take_bit_eq_mask mask_eq_exp_minus_1)
  moreover have "(ucast (take_bit 8 x) :: u8) = ucast x"
    by (rule bit_word_eqI) (use len in \<open>auto simp: bit_simps\<close>)
  ultimately show ?thesis by simp
qed

lemma u8_of_nat_mod: "(word_of_nat (v mod 256) :: u8) = word_of_nat v"
  by (simp add: word_of_nat_eq_iff take_bit_eq_mod)

lemma be_bytes_rec: "0 < n \<Longrightarrow> be_bytes n v = be_bytes (n - 1) (v div 256) @ [word_of_nat v]"
  by (cases n) (simp_all add: u8_of_nat_mod)

lemma be_bytes_numeral_simps:
  "be_bytes 1 v = [word_of_nat v]"
  "be_bytes 2 v = [word_of_nat (v div 2 ^ 8), word_of_nat v]"
  "be_bytes 4 v = [word_of_nat (v div 2 ^ 24), word_of_nat (v div 2 ^ 16),
                   word_of_nat (v div 2 ^ 8), word_of_nat v]"
  "be_bytes 8 v = [word_of_nat (v div 2 ^ 56), word_of_nat (v div 2 ^ 48),
                   word_of_nat (v div 2 ^ 40), word_of_nat (v div 2 ^ 32),
                   word_of_nat (v div 2 ^ 24), word_of_nat (v div 2 ^ 16),
                   word_of_nat (v div 2 ^ 8), word_of_nat v]"
  by (simp_all add: be_bytes_rec u8_of_nat_mod flip: div_mult2_eq)

lemma unat_drop_bit_div: "unat (drop_bit n (x :: 'a::len word)) = unat x div 2 ^ n"
  by (simp only: unat_drop_bit_eq drop_bit_nat_def)

lemma ucast_drop_bit_u8:
  "(ucast (drop_bit n (x :: 'a::len word)) :: u8) = word_of_nat (unat x div 2 ^ n)"
  by (simp only: ucast_u8_eq unat_drop_bit_div)

lemma ucast_and_ff_fixed:
  "(ucast (x AND 0xff :: u16) :: u8) = word_of_nat (unat x)"
  "(ucast (y AND 0xff :: u32) :: u8) = word_of_nat (unat y)"
  "(ucast (z AND 0xff :: u64) :: u8) = word_of_nat (unat z)"
  by (simp_all add: ucast_and_ff)

lemma add8_bytes [wire_simps]: "add8 a s = push_bytes (be_bytes 1 (unat a)) s"
  by (simp add: add8_def be_bytes_rec u8_of_nat_mod)

lemma add16_bytes [wire_simps]: "add16 b s = push_bytes (be_bytes 2 (unat b)) s"
  by (simp only: add16_def be_bytes_numeral_simps ucast_and_ff_fixed ucast_drop_bit_u8
        unat_drop_bit_div)

lemma add32_bytes [wire_simps]: "add32 c s = push_bytes (be_bytes 4 (unat c)) s"
  by (simp only: add32_def be_bytes_numeral_simps ucast_and_ff_fixed ucast_drop_bit_u8
        unat_drop_bit_div)

lemma add64_bytes [wire_simps]: "add64 d s = push_bytes (be_bytes 8 (unat d)) s"
  by (simp only: add64_def be_bytes_numeral_simps ucast_and_ff_fixed ucast_drop_bit_u8
        unat_drop_bit_div)


lemma or_byte: "(push_bit 8 r OR ucast (b :: u8) :: 'a::len word) = r * 256 + word_of_nat (unat b)"
proof -
  have "push_bit 8 r OR ucast b = push_bit 8 r + (ucast b :: 'a word)"
    by (rule disjunctive_add [symmetric]) (auto simp: bit_simps dest: bit_imp_le_length)
  then show ?thesis by (simp add: push_bit_eq_mult)
qed

lemma take_drop_map_nth:
  "off + n \<le> length xs \<Longrightarrow> take n (drop off xs) = map (\<lambda>i. xs ! (off + i)) [0..<n]"
  by (rule nth_equalityI) auto

lemma upt_bytes:
  "[0..<2] = [0, 1]" "[0..<4] = [0, 1, 2, 3]" "[0..<8] = [0, 1, 2, 3, 4, 5, 6, 7]"
  by (simp_all add: upt_rec numeral_eq_Suc)

lemma get16_be_val:
  "off + 2 \<le> length (mData s) \<Longrightarrow>
     get16 s off = Some (word_of_nat (be_val (take 2 (drop off (mData s)))))"
  by (simp add: get16_def or_byte take_drop_map_nth be_val_def upt_bytes)

lemma get32_be_val:
  "off + 4 \<le> length (mData s) \<Longrightarrow>
     get32 s off = Some (word_of_nat (be_val (take 4 (drop off (mData s)))))"
  by (simp add: get32_def or_byte take_drop_map_nth be_val_def upt_bytes)

lemma get64_be_val:
  "off + 8 \<le> length (mData s) \<Longrightarrow>
     get64 s off = Some (word_of_nat (be_val (take 8 (drop off (mData s)))))"
  by (simp add: get64_def or_byte take_drop_map_nth be_val_def upt_bytes)

lemma uint_of_bytes_be_bytes:
  "unat v < 256 ^ n \<Longrightarrow> uint_of_bytes (be_bytes n (unat (v :: 'a::len word))) = v"
  by (simp add: uint_of_bytes_def be_val_be_bytes)

lemma unat_less_256_power: "8 * n = LENGTH('a) \<Longrightarrow> unat (v :: 'a::len word) < 256 ^ n"
proof -
  assume len: "8 * n = LENGTH('a)"
  have "unat v < 2 ^ (8 * n)" using unsigned_less [of v, where ?'a = nat] by (simp add: len)
  then show ?thesis by (simp add: power_mult)
qed

lemma sit_ok_SerialIter [simp]: "sit_ok (SerialIter bs)" "sit_rest (SerialIter bs) = bs"
  by (simp_all add: sit_ok_def SerialIter_def sit_rest_def)

lemma length_sit_rest: "sit_ok it \<Longrightarrow> length (sit_rest it) = sit_remain it"
  by (auto simp add: sit_ok_def sit_rest_def)

lemma sit_advance_ok:
  "sit_ok it \<Longrightarrow> n \<le> sit_remain it \<Longrightarrow> sit_ok (sit_advance n it)"
  by (simp add: sit_ok_def sit_advance_def)

lemma sit_rest_advance [simp]: "sit_rest (sit_advance n it) = drop n (sit_rest it)"
  by (simp add: sit_rest_def sit_advance_def add.commute)

lemma sit_advance_add: "sit_advance m (sit_advance n it) = sit_advance (n + m) it"
  by (simp add: sit_advance_def)

lemma sit_at_rest: "sit_ok it \<Longrightarrow> i < sit_remain it \<Longrightarrow> sit_at it i = sit_rest it ! i"
  by (simp add: sit_at_def sit_rest_def sit_ok_def)

lemma take_map_nth: "n \<le> length xs \<Longrightarrow> take n xs = map (\<lambda>i. xs ! i) [0..<n]"
  by (rule nth_equalityI) auto

lemma ucast_of_nat_u64:
  "(ucast (word_of_nat n :: u64) :: u32) = word_of_nat n"
  "(ucast (word_of_nat n :: u64) :: u16) = word_of_nat n"
  by (simp_all add: unsigned_of_nat word_of_nat_eq_iff)

lemma sit_get64_be_val:
  assumes "sit_ok it" and "8 \<le> sit_remain it"
  shows "sit_get64 it = Inr (word_of_nat (be_val (take 8 (sit_rest it))), sit_advance 8 it)"
  using assms
  by (simp add: sit_get64_def sit_at_rest take_map_nth length_sit_rest be_val_def push_bit_eq_mult
      upt_bytes algebra_simps)

lemma sit_get32_be_val:
  assumes "sit_ok it" and "4 \<le> sit_remain it"
  shows "sit_get32 it = Inr (word_of_nat (be_val (take 4 (sit_rest it))), sit_advance 4 it)"
  using assms
  by (simp add: sit_get32_def sit_at_rest take_map_nth length_sit_rest be_val_def push_bit_eq_mult
      upt_bytes algebra_simps flip: ucast_of_nat_u64)

lemma sit_get16_be_val:
  assumes "sit_ok it" and "2 \<le> sit_remain it"
  shows "sit_get16 it = Inr (word_of_nat (be_val (take 2 (sit_rest it))), sit_advance 2 it)"
  using assms
  by (simp add: sit_get16_def sit_at_rest take_map_nth length_sit_rest be_val_def push_bit_eq_mult
      upt_bytes algebra_simps flip: ucast_of_nat_u64)


lemma sit_get8_Cons:
  "sit_ok it \<Longrightarrow> sit_rest it = b # bs \<Longrightarrow> sit_get8 it = Inr (b, sit_advance 1 it)"
  using length_sit_rest [of it] by (simp add: sit_get8_def sit_at_rest)

lemma sit_ok_advance_rest:
  "sit_ok it \<Longrightarrow> sit_rest it = bs @ cs \<Longrightarrow> n = length bs \<Longrightarrow> sit_ok (sit_advance n it)"
  using length_sit_rest [of it] by (simp add: sit_advance_ok)

lemma sit_getBitString_rest:
  assumes "sit_ok it" and "LENGTH('a::len) div 8 \<le> sit_remain it"
  shows "sit_getBitString it =
    Inr (uint_of_bytes (take (LENGTH('a) div 8) (sit_rest it)) :: 'a word,
         sit_advance (LENGTH('a) div 8) it)"
  using assms by (simp add: sit_getBitString_def sit_rest_def Let_def)

lemma getRawHelper_append:
  "sit_ok it \<Longrightarrow> sit_rest it = bs @ cs \<Longrightarrow> n = length bs \<Longrightarrow>
     getRawHelper n it = Inr (bs, sit_advance n it)"
  using length_sit_rest [of it] by (simp add: getRawHelper_def sit_rest_def)

subsection \<open>The contract between an encoder and its cursor-side decoder\<close>

text \<open>\<open>wire_codec\<close> is what \<open>STObject\<close> and the other clients rely on: on its domain the
encoder appends a fixed byte string, and the decoder, standing at that byte string,
returns the value and advances exactly past it.  Unique decodability and the composed
round trip follow once for all codecs.\<close>

locale wire_codec =
  fixes add :: "'a \<Rightarrow> serializer \<Rightarrow> (nat \<times> serializer) result"
    and get :: "serialiter \<Rightarrow> ('a \<times> serialiter) result"
    and ok :: "'a \<Rightarrow> bool"
    and enc :: "'a \<Rightarrow> blob"
  assumes add_enc: "ok x \<Longrightarrow> add x s = Inr (push_bytes (enc x) s)"
    and get_enc: "sit_ok it \<Longrightarrow> ok x \<Longrightarrow> sit_rest it = enc x @ post \<Longrightarrow>
      get it = Inr (x, sit_advance (length (enc x)) it)"
begin

lemma get_fresh:
  "ok x \<Longrightarrow> get (SerialIter (enc x @ post)) =
     Inr (x, sit_advance (length (enc x)) (SerialIter (enc x @ post)))"
  by (rule get_enc) simp_all

lemma enc_unique:
  assumes "ok x" and "ok y" and "enc x @ p = enc y @ q"
  shows "x = y \<and> p = q"
proof -
  have "x = y"
    using get_fresh [OF assms(1), of p] get_fresh [OF assms(2), of q] assms(3) by simp
  with assms(3) show ?thesis by simp
qed

lemma get_add:
  assumes "ok x"
  shows "\<exists>ret s'. add x s = Inr (ret, s') \<and>
    ret = length (mData s) \<and> take ret (mData s') = mData s \<and>
    get (SerialIter (drop ret (mData s') @ post)) =
      Inr (x, sit_advance (length (mData s') - ret) (SerialIter (drop ret (mData s') @ post)))"
  using assms by (auto simp: add_enc push_bytes_def get_fresh)

end

interpretation c8: wire_codec "\<lambda>x s. Inr (add8 x s)" sit_get8 "\<lambda>_. True" "\<lambda>x. be_bytes 1 (unat x)"
  by unfold_locales (simp_all add: add8_bytes sit_get8_Cons be_bytes_rec u8_of_nat_mod)

lemma of_be_val_be_bytes:
  "8 * n = LENGTH('a) \<Longrightarrow> word_of_nat (be_val (be_bytes n (unat (x :: 'a::len word)))) = x"
  by (simp add: be_val_be_bytes unat_less_256_power)

lemma sit_get_enc:
  assumes "sit_ok it"
  shows
    "sit_rest it = be_bytes 2 (unat (a :: u16)) @ post \<Longrightarrow> sit_get16 it = Inr (a, sit_advance 2 it)"
    "sit_rest it = be_bytes 4 (unat (b :: u32)) @ post \<Longrightarrow> sit_get32 it = Inr (b, sit_advance 4 it)"
    "sit_rest it = be_bytes 8 (unat (c :: u64)) @ post \<Longrightarrow> sit_get64 it = Inr (c, sit_advance 8 it)"
  using length_sit_rest [OF assms]
  by (simp_all add: sit_get16_be_val sit_get32_be_val sit_get64_be_val assms of_be_val_be_bytes)

interpretation c16: wire_codec "\<lambda>x s. Inr (add16 x s)" sit_get16 "\<lambda>_. True" "\<lambda>x. be_bytes 2 (unat x)"
  by unfold_locales (simp_all add: add16_bytes sit_get_enc)

interpretation c32: wire_codec "\<lambda>x s. Inr (add32 x s)" sit_get32 "\<lambda>_. True" "\<lambda>x. be_bytes 4 (unat x)"
  by unfold_locales (simp_all add: add32_bytes sit_get_enc)

interpretation c64: wire_codec "\<lambda>x s. Inr (add64 x s)" sit_get64 "\<lambda>_. True" "\<lambda>x. be_bytes 8 (unat x)"
  by unfold_locales (simp_all add: add64_bytes sit_get_enc)

lemma sit_getBitString_enc:
  assumes it: "sit_ok it" and rest: "sit_rest it = uint_bytes (x :: 'a::len word) @ post"
    and len: "8 * (LENGTH('a) div 8) = LENGTH('a)"
  shows "sit_getBitString it = Inr (x, sit_advance (length (uint_bytes x)) it)"
proof -
  have n: "LENGTH('a) div 8 \<le> sit_remain it"
    using length_sit_rest [OF it] rest by (simp add: uint_bytes_def)
  show ?thesis
    by (simp add: sit_getBitString_rest [OF it n] uint_of_bytes_def rest uint_bytes_def
        of_be_val_be_bytes [OF len])
qed

interpretation c128: wire_codec "\<lambda>x s. Inr (add128 x s)" sit_get128 "\<lambda>_. True" uint_bytes
  by unfold_locales (simp_all add: add128_def sit_get128_def sit_getBitString_enc)

interpretation c160: wire_codec "\<lambda>x s. Inr (add160 x s)" sit_get160 "\<lambda>_. True" uint_bytes
  by unfold_locales (simp_all add: add160_def addBitString_def sit_get160_def sit_getBitString_enc)

interpretation c256: wire_codec "\<lambda>x s. Inr (add256 x s)" sit_get256 "\<lambda>_. True" uint_bytes
  by unfold_locales (simp_all add: add256_def sit_get256_def sit_getBitString_enc)

subsection \<open>Field identifiers and variable-length blobs\<close>

lemma uint_of_small: "0 \<le> x \<Longrightarrow> x < 256 \<Longrightarrow> uint (word_of_int x :: u8) = x"
  by (simp add: unsigned_of_int take_bit_eq_mod)

lemma nibble_pack: "0 \<le> t \<Longrightarrow> 0 \<le> n \<Longrightarrow> n < 16 \<Longrightarrow> push_bit 4 t OR n = t * 16 + (n :: int)"
proof -
  assume "0 \<le> t" "0 \<le> n" "n < 16"
  have "n = take_bit 4 n" using \<open>0 \<le> n\<close> \<open>n < 16\<close> by (simp add: take_bit_eq_mod)
  then have "push_bit 4 t + n = push_bit 4 t OR n"
    by (intro disjunctive_add) (metis bit_push_bit_iff bit_take_bit_iff leD)
  then show ?thesis by (simp add: push_bit_eq_mult)
qed

lemma nibbles: "(x :: int) AND 15 = x mod 16" "drop_bit 4 (x :: int) = x div 16"
proof -
  have "x AND 15 = take_bit 4 x" by (simp add: take_bit_eq_mask mask_eq_exp_minus_1)
  then show "x AND 15 = x mod 16" by (simp add: take_bit_eq_mod)
qed (simp add: drop_bit_eq_div)

lemma addFieldID_emits: "addFieldID t n s = push_bytes (fieldID_bytes (t, n)) s"
  by (simp add: fieldID_bytes_def addFieldID_def push_bytes_def)

lemma fieldID_bytes_shape:
  assumes "fieldID_ok (t, n)"
  obtains
    (tn) b where "t < 16" "n < 16" "fieldID_bytes (t, n) = [b]" "uint b = t * 16 + n"
  | (tN) b c where "t < 16" "16 \<le> n" "fieldID_bytes (t, n) = [b, c]" "uint b = t * 16" "uint c = n"
  | (Tn) b c where "16 \<le> t" "n < 16" "fieldID_bytes (t, n) = [b, c]" "uint b = n" "uint c = t"
  | (TN) c d where "16 \<le> t" "16 \<le> n" "fieldID_bytes (t, n) = [0, c, d]" "uint c = t" "uint d = n"
proof -
  have r: "0 < t" "t < 256" "0 < n" "n < 256" using assms by (simp_all add: fieldID_ok_def)
  have f: "fieldID_bytes (t, n) =
    (if t < 16 then
       if n < 16 then [word_of_int (push_bit 4 t OR n)] else [word_of_int (push_bit 4 t), word_of_int n]
     else if n < 16 then [word_of_int n, word_of_int t] else [0, word_of_int t, word_of_int n])"
    by (simp add: fieldID_bytes_def addFieldID_def)
  have u: "uint (word_of_int t :: u8) = t" "uint (word_of_int n :: u8) = n"
    using r by (simp_all add: uint_of_small)
  have "uint (word_of_int (push_bit 4 t OR n) :: u8) = t * 16 + n" if "t < 16" "n < 16"
    using r that nibble_pack [of t n] uint_of_small [of "t * 16 + n"] by simp
  moreover have "uint (word_of_int (push_bit 4 t) :: u8) = t * 16" if "t < 16"
    using r that uint_of_small [of "t * 16"] by (simp add: push_bit_eq_mult)
  ultimately show thesis
    using that f u by (cases "t < 16"; cases "n < 16") auto
qed

lemma sit_advance_ok_Cons:
  assumes "sit_ok it"
  shows "sit_rest it = x # xs \<Longrightarrow> sit_ok (sit_advance (Suc 0) it)"
    "sit_rest it = x # y # ys \<Longrightarrow> sit_ok (sit_advance (Suc (Suc 0)) it)"
  using assms sit_ok_advance_rest [OF assms, of "[x]" xs]
    sit_ok_advance_rest [OF assms, of "[x, y]" ys] by simp_all

lemma sit_getFieldID_enc:
  assumes it: "sit_ok it" and ok: "fieldID_ok (t, n)"
    and rest: "sit_rest it = fieldID_bytes (t, n) @ post"
  shows "sit_getFieldID it = Inr ((t, n), sit_advance (length (fieldID_bytes (t, n))) it)"
  using ok
proof (cases rule: fieldID_bytes_shape)
  case tn
  with ok rest it show ?thesis
    by (simp add: sit_getFieldID_def fieldID_ok_def sit_get8_Cons nibbles)
next
  case tN
  with ok rest it show ?thesis
    by (simp add: sit_getFieldID_def fieldID_ok_def sit_get8_Cons nibbles sit_advance_ok_Cons
        sit_advance_add)
next
  case Tn
  with ok rest it show ?thesis
    by (simp add: sit_getFieldID_def fieldID_ok_def sit_get8_Cons nibbles sit_advance_ok_Cons
        sit_advance_add)
next
  case TN
  with ok rest it show ?thesis
    by (simp add: sit_getFieldID_def fieldID_ok_def sit_get8_Cons nibbles sit_advance_ok_Cons
        sit_advance_add)
qed

interpretation cfield: wire_codec "\<lambda>(t, n) s. Inr (addFieldID t n s)" sit_getFieldID fieldID_ok
    fieldID_bytes
  by unfold_locales (auto simp: addFieldID_emits sit_getFieldID_enc)


lemma byte_and_ff: "(x :: int) AND 0xff = x mod 256"
proof -
  have "x AND 0xff = take_bit 8 x" by (simp add: take_bit_eq_mask mask_eq_exp_minus_1)
  then show ?thesis by (simp add: take_bit_eq_mod)
qed

lemma addEncoded_shape:
  assumes "0 \<le> len" and "len \<le> 918744"
  obtains
    (one) b where "len \<le> 192" "\<And>s. addEncoded len s = Inr (push_bytes [b] s)" "uint b = len"
  | (two) b c where "193 \<le> len" "len \<le> 12480" "\<And>s. addEncoded len s = Inr (push_bytes [b, c] s)"
      "uint b = 193 + (len - 193) div 256" "uint c = (len - 193) mod 256"
  | (three) b c d where "12481 \<le> len" "\<And>s. addEncoded len s = Inr (push_bytes [b, c, d] s)"
      "uint b = 241 + (len - 12481) div 65536" "uint c = (len - 12481) div 256 mod 256"
      "uint d = (len - 12481) mod 256"
proof -
  consider "len \<le> 192" | "193 \<le> len" "len \<le> 12480" | "12481 \<le> len" by linarith
  then show thesis
  proof cases
    case 1
    with assms show thesis
      by (intro one [of "word_of_int len"]) (simp_all add: addEncoded_def addRaw_def uint_of_small)
  next
    case 2
    have m: "0 \<le> (len - 193) div 256" "(len - 193) div 256 < 48"
      using 2 zdiv_mono1 [of "len - 193" 12287 256] by simp_all
    have "uint (193 + word_of_int ((len - 193) div 256) :: u8) = 193 + (len - 193) div 256"
      using m uint_of_small [of "193 + (len - 193) div 256"] by simp
    with 2 show thesis
      by (intro two [of "193 + word_of_int ((len - 193) div 256)" "word_of_int ((len - 193) mod 256)"])
        (simp_all add: addEncoded_def addRaw_def uint_of_small byte_and_ff drop_bit_eq_div Let_def)
  next
    case 3
    have m: "0 \<le> (len - 12481) div 65536" "(len - 12481) div 65536 < 14"
      using 3 assms zdiv_mono1 [of "len - 12481" 906263 65536] by simp_all
    have "uint (241 + word_of_int ((len - 12481) div 65536) :: u8) = 241 + (len - 12481) div 65536"
      using m uint_of_small [of "241 + (len - 12481) div 65536"] by simp
    with 3 assms show thesis
      by (intro three [of "241 + word_of_int ((len - 12481) div 65536)"
            "word_of_int ((len - 12481) div 256 mod 256)" "word_of_int ((len - 12481) mod 256)"])
        (simp_all add: addEncoded_def addRaw_def uint_of_small byte_and_ff drop_bit_eq_div Let_def)
  qed
qed

lemma addVL_emits: "VL_ok b \<Longrightarrow> addVL b s = Inr (push_bytes (VL_bytes b) s)"
  unfolding VL_ok_def
  by (rule addEncoded_shape [of "int (length b)"])
    (simp_all add: addVL_def VL_bytes_def push_bytes_def addRaw_def)

lemma VL_bytes_header:
  assumes "addEncoded (int (length b)) \<lparr>mData = []\<rparr> = Inr (push_bytes h \<lparr>mData = []\<rparr>)"
  shows "VL_bytes b = h @ b"
  using assms by (simp add: VL_bytes_def addVL_def push_bytes_def addRaw_def)

lemma split_65536: "(k :: int) div 65536 * 65536 + k div 256 mod 256 * 256 + k mod 256 = k"
proof -
  have "k div 65536 = k div 256 div 256" by (simp flip: zdiv_zmult2_eq)
  then show ?thesis
    using div_mult_mod_eq [of "k div 256" 256] div_mult_mod_eq [of k 256] by linarith
qed

lemma addEncoded_decodes:
  assumes "0 \<le> len" and "len \<le> 918744"
  obtains
    (one) b where "\<forall>s. addEncoded len s = Inr (push_bytes [b] s)"
      "decodeLengthLength (uint b) = Inr 1" "decodeVLLength1 (uint b) = Inr len"
  | (two) b c where "\<forall>s. addEncoded len s = Inr (push_bytes [b, c] s)"
      "decodeLengthLength (uint b) = Inr 2" "decodeVLLength2 (uint b) (uint c) = Inr len"
  | (three) b c d where "\<forall>s. addEncoded len s = Inr (push_bytes [b, c, d] s)"
      "decodeLengthLength (uint b) = Inr 3" "decodeVLLength3 (uint b) (uint c) (uint d) = Inr len"
  using assms
proof (cases rule: addEncoded_shape)
  case (one b)
  then show thesis
    using assms by (intro that(1) [of b]) (simp_all add: decodeLengthLength_def decodeVLLength1_def)
next
  case (two b c)
  have "0 \<le> (len - 193) div 256" "(len - 193) div 256 < 48"
    using two(1,2) zdiv_mono1 [of "len - 193" 12287 256] by simp_all
  moreover have "193 + (len - 193) div 256 * 256 + (len - 193) mod 256 = len"
    using div_mult_mod_eq [of "len - 193" 256] by linarith
  ultimately have "decodeLengthLength (uint b) = Inr 2" "decodeVLLength2 (uint b) (uint c) = Inr len"
    unfolding two(4,5) decodeLengthLength_def decodeVLLength2_def by simp_all
  with two(3) show thesis by (intro that(2) [of b c]) simp_all
next
  case (three b c d)
  define q r where "q = (len - 12481) div 65536" and
    "r = (len - 12481) div 256 mod 256 * 256 + (len - 12481) mod 256"
  have q: "0 \<le> q" "q < 14"
    using three(1) assms zdiv_mono1 [of "len - 12481" 906263 65536] by (simp_all add: q_def)
  have "12481 + q * 65536 + r = len"
    using split_65536 [of "len - 12481"] unfolding q_def r_def by linarith
  with q have "decodeLengthLength (uint b) = Inr 3"
      "decodeVLLength3 (uint b) (uint c) (uint d) = Inr len"
    unfolding three(3-5) decodeLengthLength_def decodeVLLength3_def
    by (simp_all flip: q_def add: r_def)
  with three(2) show thesis by (intro that(3) [of b c d]) simp_all
qed

lemma getVLDataLength_enc:
  assumes it: "sit_ok it" and len: "0 \<le> len" "len \<le> 918744"
    and h: "\<forall>s. addEncoded len s = Inr (push_bytes h s)" and rest: "sit_rest it = h @ post"
  shows "getVLDataLength it = Inr (len, sit_advance (length h) it)"
  using len
proof (cases rule: addEncoded_decodes)
  case (one b)
  then have "h = [b]" using h by simp
  with one(2,3) rest it show ?thesis by (simp add: getVLDataLength_def sit_get8_Cons)
next
  case (two b c)
  then have "h = [b, c]" using h by simp
  with two(2,3) rest it show ?thesis
    by (simp add: getVLDataLength_def sit_get8_Cons sit_advance_ok_Cons sit_advance_add)
next
  case (three b c d)
  then have "h = [b, c, d]" using h by simp
  with three(2,3) rest it show ?thesis
    by (simp add: getVLDataLength_def sit_get8_Cons sit_advance_ok_Cons sit_advance_add)
qed

lemma VL_header:
  assumes "VL_ok b"
  obtains h where "\<forall>s. addEncoded (int (length b)) s = Inr (push_bytes h s)" "VL_bytes b = h @ b"
proof -
  have len: "0 \<le> int (length b)" "int (length b) \<le> 918744" using assms by (simp_all add: VL_ok_def)
  show thesis
    using len by (cases rule: addEncoded_shape) (auto intro!: that simp: VL_bytes_header)
qed

lemma sit_getVL_enc:
  assumes it: "sit_ok it" and ok: "VL_ok b" and rest: "sit_rest it = VL_bytes b @ post"
  shows "sit_getVL it = Inr (b, sit_advance (length (VL_bytes b)) it)"
proof -
  have len: "0 \<le> int (length b)" "int (length b) \<le> 918744" using ok by (simp_all add: VL_ok_def)
  obtain h where h: "\<forall>s. addEncoded (int (length b)) s = Inr (push_bytes h s)"
    and vb: "VL_bytes b = h @ b" by (rule VL_header [OF ok])
  have r: "sit_rest it = h @ (b @ post)" using rest vb by simp
  have "getVLDataLength it = Inr (int (length b), sit_advance (length h) it)"
    by (rule getVLDataLength_enc [OF it len h r])
  moreover have "getRawHelper (length b) (sit_advance (length h) it) =
      Inr (b, sit_advance (length b) (sit_advance (length h) it))"
    by (rule getRawHelper_append [where cs = post])
      (simp_all add: r sit_ok_advance_rest [OF it r])
  ultimately show ?thesis by (simp add: sit_getVL_def sit_getRaw_def vb sit_advance_add)
qed

interpretation cVL: wire_codec addVL sit_getVL VL_ok VL_bytes
  by unfold_locales (simp_all add: addVL_emits sit_getVL_enc)

subsection \<open>The positioned readers, and canonicity of what the cursor accepts\<close>

lemma drop_ConsD: "drop n xs = y # ys \<Longrightarrow> drop (Suc n) xs = ys \<and> n < length xs \<and> xs ! n = y"
  by (metis Cons_nth_drop_Suc drop_eq_Nil linorder_not_le list.distinct(1) list.inject)

lemma get8_Cons: "drop off (mData s) = b # bs \<Longrightarrow> get8 s off = Some (uint b)"
  by (drule drop_ConsD) (simp add: get8_def)

lemma get8_Cons2: "drop off (mData s) = a # b # bs \<Longrightarrow> get8 s (Suc off) = Some (uint b)"
  by (drule drop_ConsD) (simp add: get8_Cons)

lemma get8_Cons3: "drop off (mData s) = a # b # c # bs \<Longrightarrow> get8 s (Suc (Suc off)) = Some (uint c)"
  by (drule drop_ConsD) (simp add: get8_Cons2)

lemmas get8_rest = get8_Cons get8_Cons2 get8_Cons3

lemma getFieldID_enc:
  assumes ok: "fieldID_ok (t, n)" and rest: "drop off (mData s) = fieldID_bytes (t, n) @ post"
  shows "getFieldID s off = Some (t, n)"
  using ok
proof (cases rule: fieldID_bytes_shape)
  case tn
  with ok rest show ?thesis by (simp add: getFieldID_def fieldID_ok_def get8_rest nibbles)
next
  case tN
  with ok rest show ?thesis
    by (simp add: getFieldID_def fieldID_ok_def get8_rest nibbles)
next
  case Tn
  with ok rest show ?thesis
    by (simp add: getFieldID_def fieldID_ok_def get8_rest nibbles)
next
  case TN
  with ok rest show ?thesis
    by (simp add: getFieldID_def fieldID_ok_def get8_rest nibbles)
qed

lemma vl_datLen_enc:
  assumes len: "0 \<le> len" "len \<le> 918744"
    and h: "\<forall>s. addEncoded len s = Inr (push_bytes h s)" and rest: "drop off (mData s) = h @ post"
  shows "\<exists>b1. get8 s off = Some b1 \<and> decodeLengthLength b1 = Inr (int (length h)) \<and>
    vl_datLen s (off + 1) b1 (int (length h)) = Some (len, off + length h)"
  using len
proof (cases rule: addEncoded_decodes)
  case (one b)
  then have "h = [b]" using h by simp
  with one(2,3) rest show ?thesis by (simp add: get8_rest vl_datLen_def)
next
  case (two b c)
  then have "h = [b, c]" using h by simp
  with two(2,3) rest show ?thesis by (simp add: get8_rest vl_datLen_def)
next
  case (three b c d)
  then have "h = [b, c, d]" using h by simp
  with three(2,3) rest show ?thesis by (simp add: get8_rest vl_datLen_def)
qed

lemma getVL_enc:
  assumes ok: "VL_ok b" and rest: "drop off (mData s) = VL_bytes b @ post"
  shows "getVL s off = Inr (Some (b, int (length (VL_bytes b))))"
proof -
  obtain h where h: "\<forall>s. addEncoded (int (length b)) s = Inr (push_bytes h s)" "VL_bytes b = h @ b"
    by (rule VL_header [OF ok])
  then obtain b1 where b1: "get8 s off = Some b1" "decodeLengthLength b1 = Inr (int (length h))"
      "vl_datLen s (off + 1) b1 (int (length h)) = Some (int (length b), off + length h)"
    using vl_datLen_enc [OF _ _ h(1), of off s "b @ post"] ok rest by (auto simp: VL_ok_def)
  have "drop (off + length h) (mData s) = b @ post"
    using arg_cong [OF rest, of "drop (length h)"] h(2) by (simp add: add.commute)
  moreover have "off + length h + length b \<le> length (mData s)"
  proof -
    have "length (drop off (mData s)) = length h + length b + length post" using rest h(2) by simp
    moreover have "off < length (mData s)" using b1(1) by (simp add: get8_def split: if_splits)
    ultimately show ?thesis by simp
  qed
  ultimately show ?thesis
    using b1 h(2) by (simp add: getVL_def getRaw_def)
qed


lemma sit_get8_InrD:
  assumes "sit_ok it" and "sit_get8 it = Inr (b, it')"
  shows "sit_ok it' \<and> sit_rest it = b # sit_rest it'"
proof -
  have r: "1 \<le> sit_remain it" and b: "b = sit_at it 0" and it': "it' = sit_advance 1 it"
    using assms(2) by (auto simp: sit_get8_def split: if_splits)
  have "sit_rest it = sit_rest it ! 0 # drop 1 (sit_rest it)"
    using r length_sit_rest [OF assms(1)] by (cases "sit_rest it") auto
  then show ?thesis
    using r b it' assms(1) by (simp add: sit_at_rest sit_advance_ok)
qed


lemma uint_u8_bounds: "0 \<le> uint (b :: u8)" "uint b < 256"
  using unsigned_less [of b, where ?'a = int] by simp_all

lemma fieldID_bytes_eq:
  assumes "fieldID_ok (t, n)"
  shows "fieldID_bytes (t, n) =
    (if t < 16 then if n < 16 then [word_of_int (t * 16 + n)] else [word_of_int (t * 16), word_of_int n]
     else if n < 16 then [word_of_int n, word_of_int t] else [0, word_of_int t, word_of_int n])"
  using assms
proof (cases rule: fieldID_bytes_shape)
  case (tn b)
  then have "b = word_of_int (t * 16 + n)" by (metis word_of_int_uint)
  with tn show ?thesis by simp
next
  case (tN b c)
  then have "b = word_of_int (t * 16)" "c = word_of_int n" by (metis word_of_int_uint)+
  with tN show ?thesis by simp
qed (auto simp flip: word_of_int_uint)

lemma fieldID_decode:
  assumes it: "sit_ok it" and get: "sit_getFieldID it = Inr ((t, n), it')"
  shows "fieldID_ok (t, n) \<and> sit_ok it' \<and> sit_rest it = fieldID_bytes (t, n) @ sit_rest it'"
proof -
  obtain b it1 where b: "sit_get8 it = Inr (b, it1)"
    using get by (auto simp: sit_getFieldID_def bindE_eq_Inr)
  note b' = sit_get8_InrD [OF it b]
  define x where "x = uint b"
  have x: "0 \<le> x" "x < 256" "b = word_of_int x" using uint_u8_bounds [of b] by (simp_all add: x_def)
  have hi: "x div 16 < 16" "0 \<le> x div 16" "x = x div 16 * 16 + x mod 16"
    using x by simp_all
  obtain it2 where
    T: "if x div 16 = 0 then \<exists>c. sit_get8 it1 = Inr (c, it2) \<and> 16 \<le> uint c \<and> uint c = t
        else t = x div 16 \<and> it2 = it1" and
    N: "if x mod 16 = 0 then \<exists>d. sit_get8 it2 = Inr (d, it') \<and> 16 \<le> uint d \<and> uint d = n
        else n = x mod 16 \<and> it' = it2"
    using get b by (auto simp: sit_getFieldID_def bindE_eq_Inr nibbles x_def Let_def split: if_splits)
  show ?thesis
  proof (cases "x div 16 = 0")
    case True
    then obtain c where c: "sit_get8 it1 = Inr (c, it2)" "16 \<le> uint c" "uint c = t" using T by auto
    have c': "sit_ok it2" "sit_rest it = b # c # sit_rest it2" using b' sit_get8_InrD [OF _ c(1)] by auto
    show ?thesis
    proof (cases "x mod 16 = 0")
      case 0: True
      then obtain d where d: "sit_get8 it2 = Inr (d, it')" "16 \<le> uint d" "uint d = n" using N by auto
      have ok: "fieldID_ok (t, n)" using c d uint_u8_bounds [of c] uint_u8_bounds [of d] by (simp add: fieldID_ok_def)
      have "x = 0" using hi(3) True 0 by simp
      then have "fieldID_bytes (t, n) = [b, c, d]"
        using fieldID_bytes_eq [OF ok] c(2) d(2) x(3) by (simp flip: c(3) d(3))
      then show ?thesis using sit_get8_InrD [OF c'(1) d(1)] c' ok by simp
    next
      case False
      then have n: "n = x" "it' = it2" "0 < n" "n < 16" using N True hi x pos_mod_bound [of 16 x] by auto
      then have ok: "fieldID_ok (t, n)" using c uint_u8_bounds [of c] by (simp add: fieldID_ok_def)
      then have "fieldID_bytes (t, n) = [b, c]"
        using fieldID_bytes_eq [OF ok] n c(2) x(3) by (simp flip: c(3))
      then show ?thesis using n(2) c' ok by simp
    qed
  next
    case False
    then have t: "t = x div 16" "it2 = it1" "0 < t" "t < 16" using T hi by auto
    show ?thesis
    proof (cases "x mod 16 = 0")
      case True
      then obtain d where d: "sit_get8 it1 = Inr (d, it')" "16 \<le> uint d" "uint d = n" using N t by auto
      then have ok: "fieldID_ok (t, n)" using t uint_u8_bounds [of d] by (simp add: fieldID_ok_def)
      have "b = word_of_int (t * 16)" using hi(3) t(1) True x(3) by simp
      then have "fieldID_bytes (t, n) = [b, d]"
        using fieldID_bytes_eq [OF ok] t(4) d(2) by (simp flip: d(3))
      then show ?thesis using sit_get8_InrD [OF _ d(1)] b' ok by simp
    next
      case False
      then have n: "n = x mod 16" "it' = it1" "0 < n" "n < 16"
        using N t pos_mod_bound [of 16 x] pos_mod_sign [of 16 x] by auto
      then have ok: "fieldID_ok (t, n)" using t(3,4) by (simp add: fieldID_ok_def)
      have "b = word_of_int (t * 16 + n)" using hi(3) x(3) unfolding t(1) n(1) by simp
      then have "fieldID_bytes (t, n) = [b]" using fieldID_bytes_eq [OF ok] t(4) n(4) by simp
      then show ?thesis using b' ok n(2) by simp
    qed
  qed
qed
lemma split_bytes3:
  assumes "0 \<le> b" "b < 256" "0 \<le> c" "c < (256::int)"
  shows "(q * 65536 + b * 256 + c) div 65536 = q" "(q * 65536 + b * 256 + c) div 256 mod 256 = b"
    "(q * 65536 + b * 256 + c) mod 256 = c" 
proof -
  have e: "(q * 65536 + b * 256 + c) div 256 = q * 256 + b" 
    using assms by (simp add: div_pos_pos_trivial)
  then show "(q * 65536 + b * 256 + c) div 256 mod 256 = b" using assms by simp
  have "(q * 65536 + b * 256 + c) div 65536 = (q * 65536 + b * 256 + c) div 256 div 256"
    by (simp flip: zdiv_zmult2_eq)
  also have "\<dots> = q" unfolding e using assms by (simp add: div_pos_pos_trivial)
  finally show "(q * 65536 + b * 256 + c) div 65536 = q" .
  have "q * 65536 + b * 256 + c = (q * 256 + b) * 256 + c" by simp
  then show "(q * 65536 + b * 256 + c) mod 256 = c" using assms by (simp only: mod_mult_self3) simp
qed

lemma split_bytes2:
  "0 \<le> c \<Longrightarrow> c < (256::int) \<Longrightarrow> (q * 256 + c) div 256 = q"
  "0 \<le> c \<Longrightarrow> c < (256::int) \<Longrightarrow> (q * 256 + c) mod 256 = c"
  by simp_all

lemma addEncoded_byte: "addEncoded (uint b) s = Inr (push_bytes [b] s)" if "uint b \<le> 192"
  using that by (simp add: addEncoded_def addRaw_def)

lemma addEncoded_bytes2:
  assumes b: "193 \<le> uint b" "uint b \<le> 240" and len: "len = 193 + (uint b - 193) * 256 + uint c"
  shows "addEncoded len s = Inr (push_bytes [b, c :: u8] s)"
proof -
  have e: "len - 193 = (uint b - 193) * 256 + uint c" using len by simp
  have d: "(len - 193) div 256 = uint b - 193" "(len - 193) mod 256 = uint c"
    unfolding e by (rule split_bytes2, rule uint_u8_bounds, rule uint_u8_bounds)+
  have "0 \<le> (uint b - 193) * 256" using b by (intro mult_nonneg_nonneg) simp_all
  moreover have "(uint b - 193) * 256 \<le> 47 * 256" using b by (intro mult_right_mono) simp_all
  ultimately have "193 \<le> len" "len \<le> 12480" using len uint_u8_bounds [of c] by linarith+
  then have "0 \<le> len" "len \<le> 918744" "193 \<le> len" "len \<le> 12480" by simp_all
  then show ?thesis
  proof (cases rule: addEncoded_shape)
    case (two b' c')
    then have "b' = b" "c' = c" unfolding d word_uint_eq_iff by simp_all
    with two(3) show ?thesis by simp
  qed simp_all
qed

lemma addEncoded_bytes3:
  assumes b: "241 \<le> uint b"
    and len: "len = 12481 + (uint b - 241) * 65536 + uint c * 256 + uint d" "len \<le> 918744"
  shows "addEncoded len s = Inr (push_bytes [b, c :: u8, d :: u8] s)"
proof -
  have e: "len - 12481 = (uint b - 241) * 65536 + uint c * 256 + uint d" using len by simp
  have d: "(len - 12481) div 65536 = uint b - 241" "(len - 12481) div 256 mod 256 = uint c"
    "(len - 12481) mod 256 = uint d"
    unfolding e by (rule split_bytes3, rule uint_u8_bounds, rule uint_u8_bounds,
      rule uint_u8_bounds, rule uint_u8_bounds)+
  have "0 \<le> (uint b - 241) * 65536" using b by (intro mult_nonneg_nonneg) simp_all
  then have "12481 \<le> len" using len(1) uint_u8_bounds [of c] uint_u8_bounds [of d] by linarith
  then have "0 \<le> len" "len \<le> 918744" "12481 \<le> len" using len(2) by simp_all
  then show ?thesis
  proof (cases rule: addEncoded_shape)
    case (three b' c' d')
    then have "b' = b" "c' = c" "d' = d" unfolding d word_uint_eq_iff by simp_all
    with three(2) show ?thesis by simp
  qed simp_all
qed

lemma getVLDataLength_InrD:
  assumes it: "sit_ok it" and get: "getVLDataLength it = Inr (len, it')"
  shows "\<exists>h. sit_rest it = h @ sit_rest it' \<and> sit_ok it' \<and> 0 \<le> len \<and> len \<le> 929984 \<and>
    (len \<le> 918744 \<longrightarrow> (\<forall>s. addEncoded len s = Inr (push_bytes h s)))"
proof -
  obtain b it1 where b: "sit_get8 it = Inr (b, it1)"
    using get by (auto simp: getVLDataLength_def bindE_eq_Inr)
  note b' = sit_get8_InrD [OF it b]
  consider "uint b \<le> 192" | "193 \<le> uint b" "uint b \<le> 240" | "241 \<le> uint b" "uint b \<le> 254" | "255 \<le> uint b"
    by linarith
  then show ?thesis
  proof cases
    case 1
    with get b uint_u8_bounds [of b] have "len = uint b" "it' = it1"
      by (simp_all add: getVLDataLength_def decodeLengthLength_def decodeVLLength1_def)
    with 1 b' uint_u8_bounds [of b] show ?thesis
      by (intro exI [of _ "[b]"]) (simp add: addEncoded_byte)
  next
    case 2
    with get b obtain c where c: "sit_get8 it1 = Inr (c, it')" "len = 193 + (uint b - 193) * 256 + uint c"
      by (auto simp: getVLDataLength_def decodeLengthLength_def decodeVLLength2_def bindE_eq_Inr)
    have "sit_ok it'" "sit_rest it1 = c # sit_rest it'" using sit_get8_InrD [OF _ c(1)] b' by auto
    with 2 b' c(2) uint_u8_bounds [of c] addEncoded_bytes2 [OF 2 c(2)] show ?thesis
      by (intro exI [of _ "[b, c]"]) simp
  next
    case 3
    with get b obtain c it2 d where c: "sit_get8 it1 = Inr (c, it2)" "sit_get8 it2 = Inr (d, it')"
        "len = 12481 + (uint b - 241) * 65536 + uint c * 256 + uint d"
      by (auto simp: getVLDataLength_def decodeLengthLength_def decodeVLLength3_def bindE_eq_Inr)
    have "sit_ok it2" "sit_rest it1 = c # sit_rest it2" using sit_get8_InrD [OF _ c(1)] b' by auto
    moreover from this have "sit_ok it'" "sit_rest it2 = d # sit_rest it'"
      using sit_get8_InrD [OF _ c(2)] by auto
    ultimately show ?thesis
      using 3 b' c(3) uint_u8_bounds [of c] uint_u8_bounds [of d] addEncoded_bytes3 [OF 3(1) c(3)]
      by (intro exI [of _ "[b, c, d]"]) simp
  next
    case 4
    with get b show ?thesis by (simp add: getVLDataLength_def decodeLengthLength_def)
  qed
qed

lemma getRawHelper_InrD:
  assumes it: "sit_ok it" and get: "getRawHelper n it = Inr (b, it')"
  shows "length b = n \<and> sit_ok it' \<and> sit_rest it = b @ sit_rest it'"
proof -
  have n: "n \<le> sit_remain it" and b: "b = take n (sit_rest it)" "it' = sit_advance n it"
    using get by (auto simp: getRawHelper_def sit_rest_def split: if_splits)
  then show ?thesis using length_sit_rest [OF it] by (simp add: sit_advance_ok [OF it])
qed

lemma sit_getVL_InrD:
  assumes it: "sit_ok it" and get: "sit_getVL it = Inr (b, it')"
  shows "sit_ok it' \<and> length b \<le> 929984 \<and> (\<exists>h. sit_rest it = h @ b @ sit_rest it') \<and>
    (VL_ok b \<longrightarrow> sit_rest it = VL_bytes b @ sit_rest it')"
proof -
  obtain len it1 where g: "getVLDataLength it = Inr (len, it1)" "getRawHelper (nat len) it1 = Inr (b, it')"
    using get by (auto simp: sit_getVL_def sit_getRaw_def bindE_eq_Inr)
  obtain h where h: "sit_rest it = h @ sit_rest it1" "sit_ok it1" "0 \<le> len" "len \<le> 929984"
      "len \<le> 918744 \<longrightarrow> (\<forall>s. addEncoded len s = Inr (push_bytes h s))"
    using getVLDataLength_InrD [OF it g(1)] by blast
  have r: "length b = nat len" "sit_ok it'" "sit_rest it1 = b @ sit_rest it'"
    using getRawHelper_InrD [OF h(2) g(2)] by simp_all
  moreover have "VL_bytes b = h @ b" if "VL_ok b"
    using h(3,5) r(1) that by (intro VL_bytes_header) (simp add: VL_ok_def)
  ultimately show ?thesis using h by auto
qed

subsection \<open>The cursor as a state machine\<close>

lemma sit_moves_refl [simp, intro]: "sit_moves it it"
  unfolding sit_moves_def by (rule exI [of _ 0]) (simp add: sit_advance_def)

lemma sit_moves_advance: "n \<le> sit_remain it \<Longrightarrow> sit_moves it (sit_advance n it)"
  by (auto simp: sit_moves_def)

lemma sit_moves_trans: "sit_moves a b \<Longrightarrow> sit_moves b c \<Longrightarrow> sit_moves a c"
  unfolding sit_moves_def
proof (elim exE conjE)
  fix m n
  assume m: "m \<le> sit_remain a" "b = sit_advance m a" and n: "n \<le> sit_remain b" "c = sit_advance n b"
  then have "c = sit_advance (m + n) a" "m + n \<le> sit_remain a"
    by (simp_all only: sit_advance_add) (simp add: sit_advance_def)
  then show "\<exists>n \<le> sit_remain a. c = sit_advance n a" by blast
qed

lemma sit_moves_get:
  "sit_get8 it = Inr (a, it') \<Longrightarrow> sit_moves it it'"
  "sit_get16 it = Inr (b, it') \<Longrightarrow> sit_moves it it'"
  "sit_get32 it = Inr (c, it') \<Longrightarrow> sit_moves it it'"
  "sit_get64 it = Inr (d, it') \<Longrightarrow> sit_moves it it'"
  "getRawHelper n it = Inr (bs, it') \<Longrightarrow> sit_moves it it'"
  "sit_getBitString it = Inr (w, it') \<Longrightarrow> sit_moves it it'"
  by (auto simp: sit_get8_def sit_get16_def sit_get32_def sit_get64_def getRawHelper_def
      sit_getBitString_def Let_def intro!: sit_moves_advance split: if_splits)

lemma sit_moves_getFieldID: "sit_getFieldID it = Inr (tn, it') \<Longrightarrow> sit_moves it it'"
  by (auto simp: sit_getFieldID_def bindE_eq_Inr Let_def split: if_splits
      intro: sit_moves_trans dest!: sit_moves_get)

lemma sit_moves_getVLDataLength: "getVLDataLength it = Inr (len, it') \<Longrightarrow> sit_moves it it'"
  by (auto simp: getVLDataLength_def bindE_eq_Inr split: if_splits
      intro: sit_moves_trans dest!: sit_moves_get)

lemma sit_step_moves: "sit_step it it' \<Longrightarrow> sit_moves it it'"
  by (induction rule: sit_step.induct)
    (auto simp: sit_get128_def sit_get160_def sit_get256_def sit_getRaw_def sit_getVL_def
      sit_getVLBuffer_def bindE_eq_Inr
      intro: sit_moves_get sit_moves_getFieldID sit_moves_getVLDataLength sit_moves_trans)

lemma sit_moves_inv:
  assumes "sit_moves it it'" and "sit_ok it"
  shows "sit_ok it' \<and> sit_buf it' = sit_buf it \<and> sit_remain it' \<le> sit_remain it"
  using assms by (auto simp: sit_moves_def sit_advance_ok) (auto simp: sit_advance_def)

lemma sit_reset_ok: "sit_ok it \<Longrightarrow> sit_reset it = SerialIter (sit_buf it)"
  by (simp add: sit_ok_def sit_reset_def SerialIter_def)

lemma getInteger_loop_be_val:
  assumes "ptr + n \<le> length data" and "i \<noteq> 0 \<or> number = 0"
  shows "getInteger_loop data ptr i n (number :: 'a::len word) =
    number * 256 ^ n + word_of_nat (be_val (take n (drop ptr data)))"
  using assms
proof (induction data ptr i n number rule: getInteger_loop.induct)
  case (1 data ptr i number)
  then show ?case by (simp add: be_val_def)
next
  case (2 data ptr i n number)
  have "take (Suc n) (drop ptr data) = data ! ptr # take n (drop (ptr + 1) data)"
    using 2(2) by (simp add: Cons_nth_drop_Suc [symmetric])
  moreover have "(if i \<noteq> 0 then push_bit 8 number else number) = push_bit 8 number" using 2(3) by auto
  moreover have "length (take n (drop (ptr + 1) data)) = n" using 2(2) by simp
  ultimately show ?case
    using 2 by (simp add: or_byte be_val_Cons algebra_simps)
qed

lemma sit_get64_InrD:
  assumes it: "sit_ok it" and get: "sit_get64 it = Inr (w, it')"
  shows "sit_ok it' \<and> sit_rest it = be_bytes 8 (unat w) @ sit_rest it'"
proof -
  have n: "8 \<le> sit_remain it" using get by (auto simp: sit_get64_def split: if_splits)
  have w: "w = word_of_nat (be_val (take 8 (sit_rest it)))" "it' = sit_advance 8 it"
    using get sit_get64_be_val [OF it n] by simp_all
  have len: "length (take 8 (sit_rest it)) = 8" using n length_sit_rest [OF it] by simp
  then have "unat w = be_val (take 8 (sit_rest it))"
    using be_val_less [of "take 8 (sit_rest it)"] w(1)
    by (simp add: unsigned_of_nat take_bit_nat_eq_self)
  then have "be_bytes 8 (unat w) = take 8 (sit_rest it)" using be_bytes_be_val [of "take 8 (sit_rest it)"] len by simp
  with w n show ?thesis by (simp add: sit_advance_ok [OF it])
qed

lemma sit_get160_InrD:
  assumes it: "sit_ok it" and get: "sit_get160 it = Inr (w, it')"
  shows "sit_ok it' \<and> sit_rest it = uint_bytes w @ sit_rest it'"
proof -
  have n: "20 \<le> sit_remain it"
    using get by (auto simp: sit_get160_def sit_getBitString_def Let_def split: if_splits)
  have w: "w = word_of_nat (be_val (take 20 (sit_rest it)))" "it' = sit_advance 20 it"
    using get sit_getBitString_rest [OF it, where ?'a = 160] n
    by (simp_all add: sit_get160_def uint_of_bytes_def)
  have len: "length (take 20 (sit_rest it)) = 20" using n length_sit_rest [OF it] by simp
  then have "unat w = be_val (take 20 (sit_rest it))"
    using be_val_less [of "take 20 (sit_rest it)"] w(1)
    by (simp add: unsigned_of_nat take_bit_nat_eq_self)
  then have "uint_bytes w = take 20 (sit_rest it)"
    using be_bytes_be_val [of "take 20 (sit_rest it)"] len by (simp add: uint_bytes_def)
  with w n show ?thesis by (simp add: sit_advance_ok [OF it])
qed

subsection \<open>Properties\<close>

text \<open>C40: Whatever sequence of reads is performed on a fresh SerialIter, the cursor stays inside
its buffer: the buffer is never changed, bytes used plus bytes remaining are the buffer length,
the pointer is exactly the number of used bytes, and reset() restores the fresh cursor.\<close>

theorem cursor_stays_in_buffer:
  assumes "sit_step\<^sup>*\<^sup>* (SerialIter buf) it"
  shows "sit_buf it = buf \<and> sit_used it + sit_remain it = length buf \<and>
    sit_p it = sit_used it \<and> sit_reset it = SerialIter buf"
proof -
  have "sit_ok it \<and> sit_buf it = buf"
    using assms
  proof (induction rule: rtranclp_induct)
    case base
    then show ?case by (simp add: SerialIter_def sit_ok_def)
  next
    case (step y z)
    then show ?case using sit_moves_inv [OF sit_step_moves, of y z] by simp
  qed
  then show ?thesis by (auto simp: sit_reset_ok sit_ok_def)
qed

theorem cursor_stays_in_buffer_witness:
  "sit_step\<^sup>*\<^sup>* (SerialIter [1, 2, 3]) (sit_advance 1 (SerialIter [1, 2, 3])) \<and>
   sit_used (sit_advance 1 (SerialIter [1, 2, 3])) + sit_remain (sit_advance 1 (SerialIter [1, 2, 3])) = 3"
proof -
  have "sit_step\<^sup>*\<^sup>* (SerialIter [1, 2, 3]) (sit_advance 1 (SerialIter [1, 2, 3]))"
    by (rule r_into_rtranclp, rule step_get8 [of _ 1])
      (simp add: sit_get8_def SerialIter_def sit_at_def)
  with cursor_stays_in_buffer [OF this] show ?thesis by simp
qed

text \<open>A field identifier with type and name in 1..255 that addFieldID appends is read back by
both readers: the positioned Serializer::getFieldID at the returned offset and the cursor
SerialIter::getFieldID, which stops exactly at the bytes that follow. Earlier data is kept.\<close>

theorem fieldID_roundtrip:
  assumes ok: "fieldID_ok (type, name)" and add: "addFieldID type name s = (ret, s')"
  shows "ret = length (mData s) \<and> take ret (mData s') = mData s \<and>
    getFieldID \<lparr>mData = mData s' @ post\<rparr> ret = Some (type, name) \<and>
    (\<exists>it. sit_getFieldID (SerialIter (drop ret (mData s') @ post)) = Inr ((type, name), it) \<and>
          sit_rest it = post)"
  using cfield.get_fresh [OF ok, of post] add ok
  by (auto simp: addFieldID_emits push_bytes_def getFieldID_enc)

theorem fieldID_roundtrip_witness:
  "addFieldID 16 8 \<lparr>mData = [7]\<rparr> = (1, \<lparr>mData = [7, 8, 16]\<rparr>) \<and>
   getFieldID \<lparr>mData = [7, 8, 16, 9]\<rparr> 1 = Some (16, 8)"
  using fieldID_roundtrip [of 16 8 "\<lparr>mData = [7]\<rparr>" 1 "\<lparr>mData = [7, 8, 16]\<rparr>" "[9]"]
  by (simp add: fieldID_ok_def addFieldID_def push_bytes_def)

text \<open>Field identifiers are not malleable: whatever bytes SerialIter::getFieldID accepts, it
returns a type and name in 1..255, and the bytes it consumed are exactly the ones addFieldID
writes for that pair.\<close>

theorem fieldID_canonical:
  assumes "sit_ok it" and "sit_getFieldID it = Inr ((type, name), it')"
  shows "fieldID_ok (type, name) \<and>
    sit_rest it = mData (snd (addFieldID type name \<lparr>mData = []\<rparr>)) @ sit_rest it'"
  using fieldID_decode [OF assms] by (simp add: fieldID_bytes_def)

theorem fieldID_canonical_witness:
  "sit_getFieldID (SerialIter [0x61, 5]) = Inr ((6, 1), sit_advance 1 (SerialIter [0x61, 5])) \<and>
   mData (snd (addFieldID 6 1 \<lparr>mData = []\<rparr>)) = [0x61]"
proof -
  have "sit_getFieldID (SerialIter [0x61, 5]) = Inr ((6, 1), sit_advance 1 (SerialIter [0x61, 5]))"
    by code_simp
  moreover from fieldID_canonical [OF sit_ok_SerialIter(1) this]
  have "mData (snd (addFieldID 6 1 \<lparr>mData = []\<rparr>)) = [0x61]" by simp
  ultimately show ?thesis by blast
qed

text \<open>C37: A blob of at most 918744 bytes is written by both overloads of addVL with the same result,
and both readers give it back: getVL at the returned offset, with the number of bytes of header
and data together, and SerialIter::getVL, which stops exactly at the bytes that follow.\<close>

theorem VL_roundtrip:
  assumes ok: "length b \<le> 918744"
  shows "\<exists>ret s'. addVL b s = Inr (ret, s') \<and> addVL_ptr b s = Inr (ret, s') \<and>
    ret = length (mData s) \<and> take ret (mData s') = mData s \<and>
    getVL \<lparr>mData = mData s' @ post\<rparr> ret = Inr (Some (b, int (length (mData s') - ret))) \<and>
    (\<exists>it. sit_getVL (SerialIter (drop ret (mData s') @ post)) = Inr (b, it) \<and> sit_rest it = post)"
proof -
  have ok': "VL_ok b" using ok by (simp add: VL_ok_def)
  have "addVL_ptr b s = addVL b s"
    by (auto simp: addVL_ptr_def addVL_def addRaw_def push_bytes_def intro!: bindE_cong)
  then show ?thesis
    using cVL.get_fresh [OF ok', of post]
    by (auto simp: addVL_emits [OF ok'] push_bytes_def getVL_enc [OF ok'])
qed

theorem VL_roundtrip_witness:
  "length (replicate 200 (7 :: u8)) \<le> 918744 \<and>
   (\<exists>ret s'. addVL (replicate 200 7) \<lparr>mData = []\<rparr> = Inr (ret, s') \<and>
     getVL \<lparr>mData = mData s' @ [1]\<rparr> ret = Inr (Some (replicate 200 7, int (length (mData s') - ret))))"
  using VL_roundtrip [of "replicate 200 7" "\<lparr>mData = []\<rparr>" "[1]"] by auto

text \<open>C39: Length prefixes are not malleable: a blob that SerialIter::getVL returns has at most
929984 bytes, and when it is one that addVL can write (at most 918744 bytes), the consumed
bytes are exactly the ones addVL writes for it.\<close>

theorem VL_canonical:
  assumes "sit_ok it" and "sit_getVL it = Inr (b, it')"
  shows "length b \<le> 929984 \<and>
    (length b \<le> 918744 \<longrightarrow>
      (\<exists>s'. addVL b \<lparr>mData = []\<rparr> = Inr (0, s') \<and> sit_rest it = mData s' @ sit_rest it'))"
  using sit_getVL_InrD [OF assms] addVL_emits [of b "\<lparr>mData = []\<rparr>"]
  by (auto simp: VL_ok_def push_bytes_def)

theorem VL_canonical_witness:
  "sit_getVL (SerialIter [2, 5, 6, 9]) = Inr ([5, 6], sit_advance 3 (SerialIter [2, 5, 6, 9])) \<and>
   (\<exists>s'. addVL [5, 6] \<lparr>mData = []\<rparr> = Inr (0, s') \<and> [2, 5, 6, 9] = mData s' @ [9])"
proof -
  have "sit_getVL (SerialIter [2, 5, 6, 9]) = Inr ([5, 6], sit_advance 3 (SerialIter [2, 5, 6, 9]))"
    by code_simp
  with VL_canonical [OF sit_ok_SerialIter(1) this] show ?thesis by simp
qed

text \<open>AddVL fails exactly on the blobs longer than 918744 bytes, always with the same
overflow error.\<close>

theorem VL_capacity:
  "addVL b s = Inl e \<longleftrightarrow> 918744 < length b \<and> e = OverflowError ''lenlen''"
proof (cases "length b \<le> 918744")
  case True
  then show ?thesis by (simp add: addVL_emits VL_ok_def)
next
  case False
  then show ?thesis by (auto simp: addVL_def addEncoded_def)
qed

text \<open>Fixed-size values of every width (16, 32, 64, 128, 160 and 256 bits) are read back by the
positioned reader at the offset their add operation returned, whatever was written before or
after.\<close>

theorem integer_roundtrip:
  "get16 \<lparr>mData = mData (snd (add16 a s)) @ post\<rparr> (fst (add16 a s)) = Some a \<and>
   get32 \<lparr>mData = mData (snd (add32 b s)) @ post\<rparr> (fst (add32 b s)) = Some b \<and>
   get64 \<lparr>mData = mData (snd (add64 c s)) @ post\<rparr> (fst (add64 c s)) = Some c \<and>
   get128 \<lparr>mData = mData (snd (add128 d s)) @ post\<rparr> (fst (add128 d s)) = Some d \<and>
   get160 \<lparr>mData = mData (snd (add160 e s)) @ post\<rparr> (fst (add160 e s)) = Some e \<and>
   get256 \<lparr>mData = mData (snd (add256 f s)) @ post\<rparr> (fst (add256 f s)) = Some f"
  by (simp_all add: add16_bytes add32_bytes add64_bytes get16_be_val get32_be_val get64_be_val of_be_val_be_bytes
      add128_def add160_def addBitString_def add256_def get128_def get160_def getBitString_def get256_def
      uint_bytes_def uint_of_bytes_def)


text \<open>The generic byte loop getInteger agrees with the unrolled get16, get32 and get64 at every
offset, the out-of-range failures included.\<close>

theorem getInteger_agrees:
  "getInteger s off = get16 s off \<and> getInteger s off = get32 s off \<and> getInteger s off = get64 s off"
  by (auto simp: getInteger_def getInteger_loop_be_val get16_be_val get32_be_val get64_be_val)
     (simp_all add: get16_def get32_def get64_def)

end
