(* ===== verification/BaseUint.thy ===== *)
theory BaseUint
  imports Serialization
begin

text \<open>
  \<open>base_uint\<close> of \<open>common/base/base_uint.h\<close> with the hex conversions of
  \<open>common/base/strHex.h\<close> and \<open>common/base/impl/strHex.cpp\<close>: the 128, 160 and 256-bit values
  behind every hash, account, currency and ledger index. The array \<open>pn\<close> holds the value
  big-endian in memory. The model keeps the list of the words \<open>be32toh (pn [i])\<close>, most
  significant first; a byte view is \<open>bu_bytes\<close>. Zero-ness and the bitwise operators do not
  depend on the byte order. The lemmas show that the word-by-word loops are arithmetic
  modulo the full width and that the byte comparison is the order of the values. The other
  theories therefore use machine words of the full width for these values.
\<close>

type_synonym base_uint = "u32 list"

subsection \<open>Views and construction\<close>

definition bu_bytes :: "base_uint \<Rightarrow> blob" where
  "bu_bytes pn = concat (map (\<lambda>d. be_bytes 4 (unat d)) pn)"

fun bu_of_bytes :: "blob \<Rightarrow> base_uint" where
  "bu_of_bytes (a # b # c # d # bs) = word_of_nat (be_val [a, b, c, d]) # bu_of_bytes bs"
| "bu_of_bytes _ = []"

definition bu_zero :: "nat \<Rightarrow> base_uint" where
  "bu_zero WIDTH = replicate WIDTH 0"

definition bu_of_Blob :: "nat \<Rightarrow> blob \<Rightarrow> base_uint" where
  "bu_of_Blob WIDTH vch = (if length vch = 4 * WIDTH then bu_of_bytes vch else bu_zero WIDTH)"

definition bu_of_u64 :: "nat \<Rightarrow> u64 \<Rightarrow> base_uint" where
  "bu_of_u64 WIDTH uHost =
     (bu_zero WIDTH)[WIDTH - 2 := ucast (drop_bit 32 uHost), WIDTH - 1 := ucast uHost]"

fun bu_signum :: "base_uint \<Rightarrow> int" where
  "bu_signum [] = 0"
| "bu_signum (p # ps) = (if p \<noteq> 0 then 1 else bu_signum ps)"

subsection \<open>Operators\<close>

definition bu_not :: "base_uint \<Rightarrow> base_uint" where
  "bu_not pn = map (\<lambda>p. NOT p) pn"

definition bu_xor :: "base_uint \<Rightarrow> base_uint \<Rightarrow> base_uint" where
  "bu_xor a b = map2 (\<lambda>x y. x XOR y) a b"

definition bu_and :: "base_uint \<Rightarrow> base_uint \<Rightarrow> base_uint" where
  "bu_and a b = map2 (\<lambda>x y. x AND y) a b"

definition bu_or :: "base_uint \<Rightarrow> base_uint \<Rightarrow> base_uint" where
  "bu_or a b = map2 (\<lambda>x y. x OR y) a b"

text \<open>The loops run from the last word to the first: the lists below are reversed.\<close>

fun inc_loop :: "u32 list \<Rightarrow> u32 list" where
  "inc_loop [] = []"
| "inc_loop (p # ps) = (let q = p + 1 in if q \<noteq> 0 then q # ps else q # inc_loop ps)"

definition bu_inc :: "base_uint \<Rightarrow> base_uint" where
  "bu_inc pn = rev (inc_loop (rev pn))"

fun dec_loop :: "u32 list \<Rightarrow> u32 list" where
  "dec_loop [] = []"
| "dec_loop (p # ps) = (let q = p - 1 in if p \<noteq> 0 then q # ps else q # dec_loop ps)"

definition bu_dec :: "base_uint \<Rightarrow> base_uint" where
  "bu_dec pn = rev (dec_loop (rev pn))"

fun add_loop :: "u64 \<Rightarrow> u32 list \<Rightarrow> u32 list \<Rightarrow> u32 list" where
  "add_loop carry (a # as) (b # bs) =
     (let n = carry + ucast a + ucast b
      in ucast (n AND 0xffffffff) # add_loop (drop_bit 32 n) as bs)"
| "add_loop carry _ _ = []"

definition bu_add :: "base_uint \<Rightarrow> base_uint \<Rightarrow> base_uint" where
  "bu_add a b = rev (add_loop 0 (rev a) (rev b))"

text \<open>\<open>std::mismatch\<close> over the bytes, then the comparison of the first pair that differs.\<close>

fun compare_bytes :: "blob \<Rightarrow> blob \<Rightarrow> int" where
  "compare_bytes (a # as) (b # bs) =
     (if a = b then compare_bytes as bs else if a > b then 1 else -1)"
| "compare_bytes _ _ = 0"

definition bu_compare :: "base_uint \<Rightarrow> base_uint \<Rightarrow> int" where
  "bu_compare a b = compare_bytes (bu_bytes a) (bu_bytes b)"

subsection \<open>Hexadecimal text\<close>

definition charHex :: "nat \<Rightarrow> char" where
  "charHex digit = ''0123456789ABCDEF'' ! digit"

definition charUnHex :: "char \<Rightarrow> int" where
  "charUnHex ch =
     (let c = of_char ch :: int
      in if 48 \<le> c \<and> c < 58 then c - 48
         else if 65 \<le> c \<and> c < 71 then c - 65 + 10
         else if 97 \<le> c \<and> c < 103 then c - 97 + 10
         else -1)"

definition strHex :: "blob \<Rightarrow> string" where
  "strHex bs = concat (map (\<lambda>c. [charHex (unat (drop_bit 4 c)), charHex (unat (c AND 15))]) bs)"

definition bu_to_string :: "base_uint \<Rightarrow> string" where
  "bu_to_string a = strHex (bu_bytes a)"

definition c_isspace :: "char \<Rightarrow> bool" where
  "c_isspace ch = (let c = of_char ch :: nat in c = 32 \<or> (9 \<le> c \<and> c \<le> 13))"

text \<open>
  A character list stands for a NUL-terminated string. The end of the digits is the first
  character that is no hex digit, and \<open>!*pEnd\<close> says that it is the terminator.
\<close>

definition skip_0x :: "string \<Rightarrow> string" where
  "skip_0x psz =
     (case psz of c # d # r \<Rightarrow> if c = CHR ''0'' \<and> (d = CHR ''x'' \<or> d = CHR ''X'') then r else psz
      | _ \<Rightarrow> psz)"

fun hex_pairs :: "int list \<Rightarrow> blob" where
  "hex_pairs [] = []"
| "hex_pairs [cHigh] = [word_of_int (push_bit 4 cHigh OR 0)]"
| "hex_pairs (cHigh # cLow # ds) = word_of_int (push_bit 4 cHigh OR cLow) # hex_pairs ds"

definition SetHex :: "nat \<Rightarrow> string \<Rightarrow> bool \<Rightarrow> bool \<times> base_uint" where
  "SetHex WIDTH str bStrict =
     (let psz = (if bStrict then str else dropWhile c_isspace str);
          psz = (if bStrict then psz else skip_0x psz);
          digits = takeWhile (\<lambda>c. charUnHex c \<noteq> -1) psz;
          pEnd = dropWhile (\<lambda>c. charUnHex c \<noteq> -1) psz;
          size = 4 * WIDTH;
          ds = map charUnHex
                 (if length digits > 2 * size then drop (length digits - 2 * size) digits
                  else digits);
          out = (if odd (length ds) then word_of_int (hd ds) # hex_pairs (tl ds) else hex_pairs ds)
      in (pEnd = [] \<or> hd pEnd = CHR 0x00,
          bu_of_bytes (replicate (size - (length ds + 1) div 2) 0 @ out)))"

text \<open>\<open>SetHexExact\<close> overwrites the bytes one by one and stops at the first bad digit pair.\<close>

fun hex_exact :: "blob \<Rightarrow> string \<Rightarrow> bool \<times> blob" where
  "hex_exact [] psz = (True, [])"
| "hex_exact (p # pOut) (h # l # psz) =
     (if charUnHex h = -1 \<or> charUnHex l = -1 then (False, p # pOut)
      else let (ok, bs) = hex_exact pOut psz
           in (ok, word_of_int (push_bit 4 (charUnHex h) OR charUnHex l) # bs))"
| "hex_exact (p # pOut) psz = (False, p # pOut)"

definition SetHexExact :: "base_uint \<Rightarrow> string \<Rightarrow> bool \<times> base_uint" where
  "SetHexExact pn psz = (let (ok, bs) = hex_exact (bu_bytes pn) psz in (ok, bu_of_bytes bs))"

subsection \<open>The value of a base_uint\<close>

definition bu_val :: "base_uint \<Rightarrow> nat" where
  "bu_val pn = foldl (\<lambda>a d. a * 2 ^ 32 + unat d) 0 pn"

fun lval :: "u32 list \<Rightarrow> nat" where
  "lval [] = 0"
| "lval (p # ps) = unat p + 2 ^ 32 * lval ps"

definition bu_word :: "base_uint \<Rightarrow> 'a::len word" where
  "bu_word pn = word_of_nat (bu_val pn)"

subsection \<open>Word loops are modular arithmetic\<close>

lemma bu_val_snoc: "bu_val (pn @ [d]) = bu_val pn * 2 ^ 32 + unat d"
  by (simp add: bu_val_def)

lemma bu_val_lval: "bu_val pn = lval (rev pn)"
  by (induction pn rule: rev_induct) (simp_all only: bu_val_snoc, simp_all add: bu_val_def)

lemma u32_less: "unat (x :: u32) < 2 ^ 32"
  using unsigned_less [of x, where ?'a = nat] by simp

lemma lval_less: "lval ps < 2 ^ (32 * length ps)"
proof (induction ps)
  case (Cons p ps)
  have "lval (p # ps) < 2 ^ 32 * (lval ps + 1)" using u32_less [of p] by simp
  also have "\<dots> \<le> 2 ^ 32 * 2 ^ (32 * length ps)" using Cons by (intro mult_left_mono) simp_all
  also have "\<dots> = 2 ^ (32 * length (p # ps))" by (simp only: power_add [symmetric]) simp
  finally show ?case .
qed simp

lemma mod_digit:
  assumes "d < (m :: nat)" shows "(d + m * x) mod (m * k) = d + m * (x mod k)"
  using assms by (simp add: mod_mult2_eq)

lemma power_Suc_digit: "(2 :: nat) ^ (32 * Suc n) = 2 ^ 32 * 2 ^ (32 * n)"
  by (simp only: power_add [symmetric]) simp

lemma length_inc_loop [simp]: "length (inc_loop ps) = length ps"
  by (induction ps) (simp_all add: Let_def)

lemma length_dec_loop [simp]: "length (dec_loop ps) = length ps"
  by (induction ps) (simp_all add: Let_def)

lemma length_add_loop [simp]: "length (add_loop c ps qs) = min (length ps) (length qs)"
  by (induction c ps qs rule: add_loop.induct) (simp_all add: Let_def)

lemma unat_minus_one_u32: "unat (- 1 :: u32) = 2 ^ 32 - 1"
  by (simp add: unsigned_minus_1_eq_mask mask_eq_exp_minus_1)

lemma unat_ucast_u32_u64: "unat (ucast (a :: u32) :: u64) = unat a"
  using u32_less [of a] by (simp add: unsigned_ucast_eq take_bit_nat_eq_self)

lemma inc_wrap: "unat (p + 1 :: u32) = (if p + 1 = 0 then 0 else unat p + 1)"
  using unatSuc [of p] by (simp add: add.commute)

lemma wrap_max: "(p :: u32) + 1 = 0 \<Longrightarrow> unat p + 1 = 2 ^ 32"
proof -
  assume "p + 1 = 0"
  then have "p = - 1" by (simp add: eq_neg_iff_add_eq_0)
  then show ?thesis by (simp add: unat_minus_one_u32)
qed

lemma lval_inc_loop: "lval (inc_loop ps) = (lval ps + 1) mod 2 ^ (32 * length ps)"
proof (induction ps)
  case (Cons p ps)
  show ?case
  proof (cases "p + 1 = 0")
    case True
    have "lval (p # ps) + 1 = 2 ^ 32 * (lval ps + 1)" using wrap_max [OF True] by simp
    then have "(lval (p # ps) + 1) mod 2 ^ (32 * length (p # ps)) =
        2 ^ 32 * ((lval ps + 1) mod 2 ^ (32 * length ps))"
      by (simp only: length_Cons power_Suc_digit mult_mod_right)
    with Cons True show ?thesis by simp
  next
    case False
    then have u: "unat (p + 1) = unat p + 1" by (simp add: inc_wrap)
    then have "lval (p # ps) + 1 = lval ((p + 1) # ps)" by simp
    with False lval_less [of "(p + 1) # ps"] show ?thesis by (simp add: Let_def)
  qed
qed simp

lemma lval_dec_loop: "(lval (dec_loop ps) + 1) mod 2 ^ (32 * length ps) = lval ps"
proof (induction ps)
  case (Cons p ps)
  show ?case
  proof (cases "p = 0")
    case True
    have "lval (dec_loop (p # ps)) + 1 = 2 ^ 32 * (lval (dec_loop ps) + 1)"
      using True by (simp add: unat_minus_one_u32)
    then have "(lval (dec_loop (p # ps)) + 1) mod 2 ^ (32 * length (p # ps)) =
        2 ^ 32 * ((lval (dec_loop ps) + 1) mod 2 ^ (32 * length ps))"
      by (simp only: length_Cons power_Suc_digit mult_mod_right)
    with Cons True show ?thesis by simp
  next
    case False
    then have "unat (p - 1) + 1 = unat p" using unat_minus_one [of p] by (simp add: unat_gt_0)
    then have "lval (dec_loop (p # ps)) + 1 = lval (p # ps)" using False by (simp add: Let_def)
    with lval_less [of "p # ps"] show ?thesis by simp
  qed
qed simp

lemma lval_add_loop:
  assumes "length as = length bs" and "unat c \<le> 1"
  shows "lval (add_loop c as bs) = (unat c + lval as + lval bs) mod 2 ^ (32 * length as)"
  using assms
proof (induction c as bs rule: add_loop.induct)
  case (1 carry a as b bs)
  define n :: u64 where "n = carry + ucast a + ucast b"
  have un: "unat n = unat carry + unat a + unat b"
    using 1(3) u32_less [of a] u32_less [of b]
    by (simp add: n_def unat_word_ariths unat_ucast_u32_u64)
  have hi: "unat (drop_bit 32 n) = unat n div 2 ^ 32" by (rule unat_drop_bit_div)
  have lo: "unat (ucast (n AND 0xffffffff) :: u32) = unat n mod 2 ^ 32"
  proof -
    have "n AND 0xffffffff = take_bit 32 n" by (simp only: take_bit_eq_mask mask_eq_exp_minus_1) simp
    moreover have "(ucast (take_bit 32 n) :: u32) = ucast n"
      by (rule bit_word_eqI) (auto simp: bit_simps)
    moreover have "unat (ucast n :: u32) = take_bit 32 (unat n)" by (simp add: unsigned_ucast_eq)
    ultimately show ?thesis by (simp only: take_bit_eq_mod)
  qed
  have c': "unat (drop_bit 32 n) \<le> 1"
    unfolding hi un using 1(3) u32_less [of a] u32_less [of b] by simp
  define R where "R = unat (drop_bit 32 n) + lval as + lval bs"
  have IH: "lval (add_loop (drop_bit 32 n) as bs) = R mod 2 ^ (32 * length as)"
    unfolding R_def using 1(1) [OF n_def] 1(2) c' by simp
  have "unat carry + lval (a # as) + lval (b # bs) = unat n mod 2 ^ 32 + 2 ^ 32 * R"
    unfolding R_def hi using un mult_div_mod_eq [of "2 ^ 32" "unat n"] by (simp add: algebra_simps)
  then have "(unat carry + lval (a # as) + lval (b # bs)) mod 2 ^ (32 * length (a # as)) =
      unat n mod 2 ^ 32 + 2 ^ 32 * (R mod 2 ^ (32 * length as))"
    unfolding length_Cons power_Suc_digit by (simp only:) (rule mod_digit, simp)
  moreover have "lval (add_loop carry (a # as) (b # bs)) =
      unat n mod 2 ^ 32 + 2 ^ 32 * (R mod 2 ^ (32 * length as))"
    unfolding add_loop.simps Let_def n_def [symmetric] lval.simps lo IH ..
  ultimately show ?case by (simp only:)
qed simp_all

subsection \<open>Bytes, comparison and hexadecimal text\<close>

lemma length_bu_bytes [simp]: "length (bu_bytes pn) = 4 * length pn"
  by (induction pn) (simp_all add: bu_bytes_def)

lemma be_val_append: "be_val (as @ bs) = be_val as * 256 ^ length bs + be_val bs"
  by (induction as) (simp_all add: be_val_Cons algebra_simps power_add)

lemma be_val_bu_bytes: "be_val (bu_bytes pn) = bu_val pn"
proof (induction pn rule: rev_induct)
  case (snoc d ds)
  have "be_val (be_bytes 4 (unat d)) = unat d"
    using u32_less [of d] by (simp add: be_val_be_bytes)
  with snoc show ?case by (simp add: bu_val_snoc be_val_append bu_bytes_def)
qed (simp add: bu_bytes_def bu_val_def)

lemma bu_of_bytes_bytes [simp]: "bu_of_bytes (bu_bytes pn) = pn"
proof (induction pn)
  case (Cons d ds)
  obtain a b c e where abcd: "be_bytes 4 (unat d) = [a, b, c, e]"
    by (simp add: be_bytes_numeral_simps)
  have "be_val [a, b, c, e] = unat d"
    using u32_less [of d] be_val_be_bytes [of 4 "unat d"] by (simp add: abcd)
  with Cons abcd show ?case by (simp add: bu_bytes_def)
qed (simp add: bu_bytes_def)

lemma compare_bytes_val:
  "length as = length bs \<Longrightarrow> compare_bytes as bs = sgn (int (be_val as) - int (be_val bs))"
proof (induction as bs rule: compare_bytes.induct)
  case (1 a as b bs)
  show ?case
  proof (cases "a = b")
    case True
    with 1 show ?thesis by (simp add: be_val_Cons)
  next
    case False
    have d: "be_val as < 256 ^ length bs" "be_val bs < 256 ^ length bs"
      using be_val_less [of as] be_val_less [of bs] 1(2) by simp_all
    have key: "be_val (x # xs) < be_val (y # ys)"
      if "x < y" "be_val xs < 256 ^ n" "length xs = n" "length ys = n" for x y :: u8 and xs ys n
    proof -
      have "be_val (x # xs) < (unat x + 1) * 256 ^ n" using that by (simp add: be_val_Cons)
      also have "\<dots> \<le> unat y * 256 ^ n"
        using that(1) by (intro mult_right_mono) (simp_all add: word_less_nat_alt)
      finally show ?thesis using that by (simp add: be_val_Cons)
    qed
    from False consider "a < b" | "b < a" by fastforce
    then show ?thesis
    proof cases
      assume "a < b"
      with key [OF this d(1), of bs] 1(2) show ?thesis by (auto simp: sgn_if dest: less_asym)
    next
      assume "b < a"
      with key [OF this d(2), of as] 1(2) show ?thesis by (auto simp: sgn_if dest: less_asym)
    qed
  qed
qed simp_all

lemma bu_compare_val: "length a = length b \<Longrightarrow> bu_compare a b = sgn (int (bu_val a) - int (bu_val b))"
  by (simp add: bu_compare_def compare_bytes_val be_val_bu_bytes)

lemma hex_digit:
  assumes "d < 16"
  shows "charUnHex (charHex d) = int d" "\<not> c_isspace (charHex d)"
    "charHex d \<noteq> CHR ''x''" "charHex d \<noteq> CHR ''X''"
proof -
  have "\<forall>d\<in>set [0..<16]. charUnHex (charHex d) = int d \<and> \<not> c_isspace (charHex d) \<and>
      charHex d \<noteq> CHR ''x'' \<and> charHex d \<noteq> CHR ''X''" by code_simp
  with assms show "charUnHex (charHex d) = int d" "\<not> c_isspace (charHex d)"
    "charHex d \<noteq> CHR ''x''" "charHex d \<noteq> CHR ''X''" by auto
qed

lemma nibble_bounds: "unat (drop_bit 4 (c :: u8)) < 16" "unat (c AND 15) < 16"
proof -
  have "unat c < 256" using unsigned_less [of c, where ?'a = nat] by simp
  then show "unat (drop_bit 4 c) < 16" by (simp only: unat_drop_bit_div) simp
  have "c AND 15 \<le> 15" by (rule word_and_le1)
  then show "unat (c AND 15) < 16" by (simp add: word_le_nat_alt)
qed

lemma nibble_join: "(word_of_int (push_bit 4 (uint (drop_bit 4 c)) OR uint (c AND 15)) :: u8) = c"
proof -
  have m: "(15 :: u8) = mask 4" by (simp add: mask_eq_exp_minus_1)
  have "push_bit 4 (uint (drop_bit 4 c)) OR uint (c AND 15) = uint c"
    unfolding m
  proof (rule bit_eqI)
    fix n
    show "bit (push_bit 4 (uint (drop_bit 4 c)) OR uint (c AND mask 4)) n = bit (uint c) n"
      by (cases "n < 4") (auto simp: bit_simps dest: bit_imp_le_length)
  qed
  then show ?thesis by simp
qed

lemma uint_not_minus_1 [simp]: "uint (w :: 'a::len word) \<noteq> - 1"
  using uint_ge_0 [of w] by linarith

lemma strHex_Cons:
  "strHex (c # bs) = charHex (unat (drop_bit 4 c)) # charHex (unat (c AND 15)) # strHex bs"
  by (simp add: strHex_def)

lemma strHex_digits: "c \<in> set (strHex bs) \<Longrightarrow> charUnHex c \<noteq> -1"
  by (auto simp: strHex_def hex_digit nibble_bounds)

lemma length_strHex [simp]: "length (strHex bs) = 2 * length bs"
  by (induction bs) (simp_all add: strHex_def)

lemma hex_pairs_strHex: "hex_pairs (map charUnHex (strHex bs)) = bs"
  by (induction bs) (simp_all add: strHex_Cons hex_digit nibble_bounds nibble_join strHex_def [of "[]"])

lemma strip_strHex: "skip_0x (dropWhile c_isspace (strHex bs)) = strHex bs"
proof (cases bs)
  case (Cons c cs)
  then show ?thesis by (simp add: strHex_Cons hex_digit nibble_bounds skip_0x_def)
qed (simp add: strHex_def skip_0x_def)

lemma SetHex_strHex:
  "length bs = 4 * WIDTH \<Longrightarrow> SetHex WIDTH (strHex bs) strict = (True, bu_of_bytes bs)"
proof -
  assume len: "length bs = 4 * WIDTH"
  have t: "takeWhile (\<lambda>c. charUnHex c \<noteq> -1) (strHex bs) = strHex bs"
    "dropWhile (\<lambda>c. charUnHex c \<noteq> -1) (strHex bs) = []"
    using strHex_digits by (auto simp: takeWhile_eq_all_conv dropWhile_eq_Nil_conv)
  have "(if strict then if strict then strHex bs else dropWhile c_isspace (strHex bs)
      else skip_0x (if strict then strHex bs else dropWhile c_isspace (strHex bs))) = strHex bs"
    by (simp add: strip_strHex)
  then show ?thesis
    unfolding SetHex_def Let_def by (simp only: t) (simp add: len hex_pairs_strHex)
qed

lemma hex_exact_strHex: "length old = length bs \<Longrightarrow> hex_exact old (strHex bs) = (True, bs)"
proof (induction old arbitrary: bs)
  case (Cons p pOut)
  then obtain c cs where "bs = c # cs" by (cases bs) auto
  with Cons show ?case by (simp add: strHex_Cons hex_digit nibble_bounds nibble_join)
qed simp

lemma length_bu_ops [simp]:
  "length (bu_inc pn) = length pn" "length (bu_dec pn) = length pn"
  "length (bu_add a b) = min (length a) (length b)"
  by (simp_all add: bu_inc_def bu_dec_def bu_add_def)

lemma bu_val_ops:
  "bu_val (bu_inc pn) = (bu_val pn + 1) mod 2 ^ (32 * length pn)"
  "(bu_val (bu_dec pn) + 1) mod 2 ^ (32 * length pn) = bu_val pn"
  "length a = length b \<Longrightarrow> bu_val (bu_add a b) = (bu_val a + bu_val b) mod 2 ^ (32 * length a)"
  using lval_inc_loop [of "rev pn"] lval_dec_loop [of "rev pn"] lval_add_loop [of "rev a" "rev b" 0]
  by (simp_all add: bu_val_lval bu_inc_def bu_dec_def bu_add_def)

lemma bu_val_less: "bu_val pn < 2 ^ (32 * length pn)"
  using lval_less [of "rev pn"] by (simp add: bu_val_lval)

lemma word_of_nat_mod_len: "LENGTH('a) = n \<Longrightarrow> (word_of_nat (k mod 2 ^ n) :: 'a::len word) = word_of_nat k"
  by (simp add: word_of_nat_eq_iff take_bit_eq_mod)

subsection \<open>Properties\<close>

text \<open>C38: The word-by-word loops of operator++, operator-- and operator+= implement addition of
one, subtraction of one and addition modulo 2^Bits, for every width.\<close>

theorem bu_arith_mod:
  assumes "LENGTH('a::len) = 32 * length a" and "length b = length a"
  shows "(bu_word (bu_inc a) :: 'a word) = bu_word a + 1 \<and>
    (bu_word (bu_dec a) :: 'a word) = bu_word a - 1 \<and>
    (bu_word (bu_add a b) :: 'a word) = bu_word a + bu_word b"
proof -
  have "(bu_word (bu_dec a) :: 'a word) + 1 = bu_word a"
    unfolding bu_word_def bu_val_ops(2) [of a, symmetric] word_of_nat_mod_len [OF assms(1)] by simp
  then have "(bu_word (bu_dec a) :: 'a word) = bu_word a - 1" by (simp add: eq_diff_eq)
  then show ?thesis
    by (simp add: bu_word_def bu_val_ops assms word_of_nat_mod_len [OF assms(1)])
qed

theorem bu_arith_mod_witness:
  "(bu_word (bu_inc [0, 1, 0xffffffff, 0xffffffff]) :: u128) = bu_word [0, 1, 0xffffffff, 0xffffffff] + 1 \<and>
   (bu_word (bu_dec [0, 1, 0, 0]) :: u128) = bu_word [0, 1, 0, 0] - 1"
  using bu_arith_mod [where ?'a = 128, of "[0, 1, 0xffffffff, 0xffffffff]" "[0, 0, 0, 0]"]
    bu_arith_mod [where ?'a = 128, of "[0, 1, 0, 0]" "[0, 0, 0, 0]"] by simp

text \<open>Compare, which scans the two values byte by byte from the front, returns -1, 0 or 1
exactly as the first value is below, equal to or above the second as numbers.\<close>

theorem bu_compare_order:
  assumes "LENGTH('a::len) = 32 * length a" and "length b = length a"
  shows "bu_compare a b = (if (bu_word a :: 'a word) < bu_word b then -1
    else if (bu_word a :: 'a word) = bu_word b then 0 else 1)"
proof -
  have u: "unat (bu_word a :: 'a word) = bu_val a" "unat (bu_word b :: 'a word) = bu_val b"
    using bu_val_less [of a] bu_val_less [of b] assms
    by (simp_all add: bu_word_def unsigned_of_nat take_bit_nat_eq_self)
  show ?thesis
    by (auto simp: bu_compare_val assms word_less_nat_alt word_unat_eq_iff u sgn_if)
qed

theorem bu_compare_order_witness:
  "bu_compare [1, 0, 0, 2] [1, 0, 0, 3] =
    (if (bu_word [1, 0, 0, 2] :: u128) < bu_word [1, 0, 0, 3] then -1
     else if (bu_word [1, 0, 0, 2] :: u128) = bu_word [1, 0, 0, 3] then 0 else 1)"
  by (rule bu_compare_order) simp_all

text \<open>The text to_string writes for a value of any width is parsed back to it by SetHex, strict
or not, and by SetHexExact over any previous value.\<close>

theorem hex_roundtrip:
  assumes "length old = length a"
  shows "SetHex (length a) (bu_to_string a) strict = (True, a) \<and>
    SetHexExact old (bu_to_string a) = (True, a)"
  using assms by (simp add: bu_to_string_def SetHex_strHex SetHexExact_def hex_exact_strHex)

theorem hex_roundtrip_witness:
  "SetHex (length [1, 0xab, 0, 3]) (bu_to_string [1, 0xab, 0, 3]) False = (True, [1, 0xab, 0, 3])"
  using hex_roundtrip [of "[0, 0, 0, 0]" "[1, 0xab, 0, 3]" False] by simp

end
