(* ===== verification/Types.thy ===== *)
theory Types
  imports BaseUint
begin

text \<open>
  Accounts, currencies and issues of \<open>protocol/UintTypes.h\<close>, \<open>protocol/impl/UintTypes.cpp\<close> and
  \<open>protocol/Issue.h\<close>. An account or a currency is a 160-bit \<open>base_uint\<close>, here a word. The
  native currency SWT is the currency zero and its issuer the account zero.
\<close>

type_synonym Account = u160
type_synonym Currency = u160

record issue =
  currency :: Currency
  account :: Account

definition xrpAccount :: Account where
  "xrpAccount = 0"

definition xrpCurrency :: Currency where
  "xrpCurrency = 0"

definition noAccount :: Account where
  "noAccount = 1"

definition noCurrency :: Currency where
  "noCurrency = 1"

definition badCurrency :: Currency where
  "badCurrency = 0x5852500000000000"

definition isSWT :: "u160 \<Rightarrow> bool" where
  "isSWT c = (c = 0)"

definition xrpIssue :: issue where
  "xrpIssue = \<lparr>currency = xrpCurrency, account = xrpAccount\<rparr>"

definition noIssue :: issue where
  "noIssue = \<lparr>currency = noCurrency, account = noAccount\<rparr>"

definition isConsistent :: "issue \<Rightarrow> bool" where
  "isConsistent ac = (isSWT (currency ac) = isSWT (account ac))"

definition compare_uint :: "'a::len word \<Rightarrow> 'a word \<Rightarrow> int" where
  "compare_uint a b = compare_bytes (uint_bytes a) (uint_bytes b)"

definition compare_issue :: "issue \<Rightarrow> issue \<Rightarrow> int" where
  "compare_issue lhs rhs =
     (let diff = compare_uint (currency lhs) (currency rhs)
      in if diff \<noteq> 0 then diff
         else if isSWT (currency lhs) then 0
         else compare_uint (account lhs) (account rhs))"

definition eq_issue :: "issue \<Rightarrow> issue \<Rightarrow> bool" where
  "eq_issue lhs rhs = (compare_issue lhs rhs = 0)"

lemma compare_uint_val:
  assumes "8 * (LENGTH('a) div 8) = LENGTH('a)"
  shows "compare_uint (a :: 'a::len word) b = (if a < b then -1 else if a = b then 0 else 1)"
proof -
  have "be_val (uint_bytes x) = unat x" for x :: "'a word"
    using unat_less_256_power [OF assms, of x] by (simp add: uint_bytes_def be_val_be_bytes)
  then show ?thesis
    by (auto simp: compare_uint_def compare_bytes_val uint_bytes_def word_less_def
        word_uint_eq_iff sgn_if)
qed

lemma compare_u160_simps [simp]:
  fixes a b :: u160
  shows "compare_uint a b = 0 \<longleftrightarrow> a = b" "compare_uint a b < 0 \<longleftrightarrow> a < b"
    "compare_uint a b > 0 \<longleftrightarrow> b < a"
  by (auto simp: compare_uint_val)

lemma eq_issue_iff:
  "eq_issue a b \<longleftrightarrow> currency a = currency b \<and> (isSWT (currency a) \<or> account a = account b)"
  by (auto simp: eq_issue_def compare_issue_def Let_def)

lemma eq_issue_equiv:
  "eq_issue a a" "eq_issue a b \<Longrightarrow> eq_issue b a" "eq_issue a b \<Longrightarrow> eq_issue b c \<Longrightarrow> eq_issue a c"
  by (auto simp: eq_issue_iff)

end
