(* ===== verification/Amount.thy ===== *)
theory Amount
  imports Types
begin

text \<open>
  \<open>STAmount\<close> of \<open>protocol/STAmount.h\<close> and \<open>protocol/impl/STAmount.cpp\<close>: an amount of the
  native currency (an integer count of its smallest unit) or of an issued currency (a decimal
  floating point number with a 16-digit mantissa). The mantissa is a 64-bit word and wraps
  as \<open>uint64_t\<close> does; the exponent is an \<open>int\<close> of small range and is an integer here. The
  \<open>int64_t\<close> values of the sums are integers wrapped by \<open>s64\<close>, and \<open>sdiv\<close> is the truncating
  division of the language. The field name every amount carries is not modelled: no
  operation depends on it. Assertions are left out; the lemmas show when they hold.
  OpenSSL's bignum words are the parameter \<open>bn\<close>, with \<open>bn_exact\<close> the documented results.
\<close>

subsection \<open>Data\<close>

record stamount =
  mIssue :: issue
  mValue :: u64
  mOffset :: int
  mIsNative :: bool
  mIsNegative :: bool

definition cMinOffset :: int where "cMinOffset = -96"
definition cMaxOffset :: int where "cMaxOffset = 80"
definition cMinValue :: u64 where "cMinValue = 1000000000000000"
definition cMaxValue :: u64 where "cMaxValue = 9999999999999999"
definition cMaxNative :: u64 where "cMaxNative = 9000000000000000000"
definition cMaxNativeN :: u64 where "cMaxNativeN = 100000000000000000"
definition cNotNative :: u64 where "cNotNative = 0x8000000000000000"
definition cPosNative :: u64 where "cPosNative = 0x4000000000000000"
definition tenTo14 :: u64 where "tenTo14 = 100000000000000"
definition tenTo14m1 :: u64 where "tenTo14m1 = tenTo14 - 1"
definition tenTo17 :: u64 where "tenTo17 = tenTo14 * 1000"

definition signum :: "stamount \<Rightarrow> int" where
  "signum a = (if mValue a \<noteq> 0 then (if mIsNegative a then -1 else 1) else 0)"

definition is_zero :: "stamount \<Rightarrow> bool" where
  "is_zero a = (signum a = 0)"

definition isSWT_amount :: "stamount \<Rightarrow> bool" where
  "isSWT_amount a = isSWT (currency (mIssue a))"

definition isLegalNet :: "stamount \<Rightarrow> bool" where
  "isLegalNet value = (\<not> mIsNative value \<or> mValue value \<le> cMaxNativeN)"

definition isDefault :: "stamount \<Rightarrow> bool" where
  "isDefault a = (mValue a = 0 \<and> mIsNative a)"

definition default_issue :: issue where
  "default_issue = \<lparr>currency = 0, account = 0\<rparr>"

subsection \<open>canonicalize\<close>

function native_div_loop :: "u64 \<Rightarrow> int \<Rightarrow> u64 \<times> int" where
  "native_div_loop v off = (if off < 0 then native_div_loop (v div 10) (off + 1) else (v, off))"
  by auto
termination by (relation "measure (\<lambda>(v, off). nat (- off))") auto

function native_mul_loop :: "u64 \<Rightarrow> int \<Rightarrow> u64 \<times> int" where
  "native_mul_loop v off = (if off > 0 then native_mul_loop (v * 10) (off - 1) else (v, off))"
  by auto
termination by (relation "measure (\<lambda>(v, off). nat off)") auto

function scale_up_loop :: "u64 \<Rightarrow> int \<Rightarrow> u64 \<times> int" where
  "scale_up_loop v off =
     (if v < cMinValue \<and> off > cMinOffset then scale_up_loop (v * 10) (off - 1) else (v, off))"
  by auto
termination by (relation "measure (\<lambda>(v, off). nat (off - cMinOffset))") auto

function scale_down_loop :: "u64 \<Rightarrow> int \<Rightarrow> (u64 \<times> int) result" where
  "scale_down_loop v off =
     (if v > cMaxValue then
        if off \<ge> cMaxOffset then Inl (RuntimeError ''value overflow'')
        else scale_down_loop (v div 10) (off + 1)
      else Inr (v, off))"
  by auto
termination
  by (relation "measure (\<lambda>(v, off). nat (cMaxOffset - off))") auto

declare native_div_loop.simps [simp del] native_mul_loop.simps [simp del]
  scale_up_loop.simps [simp del] scale_down_loop.simps [simp del]

definition canonicalize :: "stamount \<Rightarrow> stamount result" where
  "canonicalize a =
     (if isSWT_amount a then
        let a = a\<lparr>mIsNative := True\<rparr>
        in if mValue a = 0 then Inr (a\<lparr>mOffset := 0, mIsNegative := False\<rparr>)
           else let (v, off) = native_div_loop (mValue a) (mOffset a);
                    (v, off) = native_mul_loop v off
                in if v > cMaxNativeN
                   then Inl (RuntimeError ''Native currency amount out of range'')
                   else Inr (a\<lparr>mValue := v, mOffset := off\<rparr>)
      else
        let a = a\<lparr>mIsNative := False\<rparr>
        in if mValue a = 0 then Inr (a\<lparr>mOffset := -100, mIsNegative := False\<rparr>)
           else let (v, off) = scale_up_loop (mValue a) (mOffset a)
                in bindE (scale_down_loop v off) (\<lambda>(v, off).
                     let (v, off) = (if off < cMinOffset \<or> v < cMinValue then (0, 0) else (v, off))
                     in if off > cMaxOffset then Inl (RuntimeError ''value overflow'')
                        else Inr (a\<lparr>mValue := v, mOffset := off\<rparr>)))"

subsection \<open>Construction and modification\<close>

definition set_int64 :: "int \<Rightarrow> stamount \<Rightarrow> stamount" where
  "set_int64 v a =
     (if v < 0 then a\<lparr>mIsNegative := True, mValue := word_of_int (- v)\<rparr>
      else a\<lparr>mIsNegative := False, mValue := word_of_int v\<rparr>)"

definition setSNValue :: "int \<Rightarrow> stamount \<Rightarrow> stamount result" where
  "setSNValue v a =
     (if \<not> mIsNative a then Inl (RuntimeError ''not native'')
      else if v > 0 then Inr (a\<lparr>mIsNegative := False, mValue := word_of_int v\<rparr>)
      else Inr (a\<lparr>mIsNegative := True, mValue := word_of_int (- v)\<rparr>))"

definition STAmount_unchecked :: "issue \<Rightarrow> u64 \<Rightarrow> int \<Rightarrow> bool \<Rightarrow> bool \<Rightarrow> stamount" where
  "STAmount_unchecked iss mantissa exponent native negative =
     \<lparr>mIssue = iss, mValue = mantissa, mOffset = exponent, mIsNative = native,
      mIsNegative = negative\<rparr>"

definition STAmount_checked :: "issue \<Rightarrow> u64 \<Rightarrow> int \<Rightarrow> bool \<Rightarrow> bool \<Rightarrow> stamount result" where
  "STAmount_checked iss mantissa exponent native negative =
     canonicalize (STAmount_unchecked iss mantissa exponent native negative)"

text \<open>The constructors from an issue leave \<open>mIsNative\<close> to \<open>canonicalize\<close>, which sets it.\<close>

definition STAmount_issue :: "issue \<Rightarrow> u64 \<Rightarrow> int \<Rightarrow> bool \<Rightarrow> stamount result" where
  "STAmount_issue iss mantissa exponent negative =
     canonicalize \<lparr>mIssue = iss, mValue = mantissa, mOffset = exponent, mIsNative = False,
                   mIsNegative = negative\<rparr>"

definition STAmount_issue_int64 :: "issue \<Rightarrow> int \<Rightarrow> int \<Rightarrow> stamount result" where
  "STAmount_issue_int64 iss mantissa exponent =
     canonicalize (set_int64 mantissa
       \<lparr>mIssue = iss, mValue = 0, mOffset = exponent, mIsNative = False, mIsNegative = False\<rparr>)"

definition STAmount_named :: "u64 \<Rightarrow> bool \<Rightarrow> stamount" where
  "STAmount_named mantissa negative =
     \<lparr>mIssue = default_issue, mValue = mantissa, mOffset = 0, mIsNative = True,
      mIsNegative = negative\<rparr>"

definition STAmount_u64 :: "u64 \<Rightarrow> bool \<Rightarrow> stamount" where
  "STAmount_u64 mantissa negative =
     \<lparr>mIssue = default_issue, mValue = mantissa, mOffset = 0, mIsNative = True,
      mIsNegative = (mantissa \<noteq> 0 \<and> negative)\<rparr>"

definition STAmount_int64 :: "int \<Rightarrow> stamount" where
  "STAmount_int64 mantissa =
     set_int64 mantissa
       \<lparr>mIssue = default_issue, mValue = 0, mOffset = 0, mIsNative = True, mIsNegative = False\<rparr>"

definition createFromInt64 :: "int \<Rightarrow> stamount" where
  "createFromInt64 v =
     (if v \<ge> 0 then STAmount_named (word_of_int v) False else STAmount_named (word_of_int (- v)) True)"

definition zeroed :: "stamount \<Rightarrow> stamount result" where
  "zeroed a = STAmount_issue (mIssue a) 0 0 False"

definition negate :: "stamount \<Rightarrow> stamount" where
  "negate a = (if is_zero a then a else a\<lparr>mIsNegative := \<not> mIsNegative a\<rparr>)"

definition clear :: "stamount \<Rightarrow> stamount" where
  "clear a = a\<lparr>mOffset := (if mIsNative a then 0 else -100), mValue := 0, mIsNegative := False\<rparr>"

definition setIssue :: "issue \<Rightarrow> stamount \<Rightarrow> stamount" where
  "setIssue iss a = (let a = a\<lparr>mIssue := iss\<rparr> in a\<lparr>mIsNative := isSWT_amount a\<rparr>)"

definition setIssuer :: "Account \<Rightarrow> stamount \<Rightarrow> stamount" where
  "setIssuer uIssuer a = setIssue ((mIssue a)\<lparr>account := uIssuer\<rparr>) a"

definition clear_issue :: "issue \<Rightarrow> stamount \<Rightarrow> stamount" where
  "clear_issue iss a = clear (setIssue iss a)"

definition clear_like :: "stamount \<Rightarrow> stamount \<Rightarrow> stamount" where
  "clear_like saTmpl a = clear_issue (mIssue saTmpl) a"

definition roundSelf :: "stamount \<Rightarrow> stamount result" where
  "roundSelf a =
     (if mIsNative a then Inr a
      else let valueDigits = mValue a mod 1000000000
           in if valueDigits = 1 then
                let a = a\<lparr>mValue := mValue a - 1\<rparr>
                in if mValue a < cMinValue then canonicalize a else Inr a
              else if valueDigits = 999999999 then
                let a = a\<lparr>mValue := mValue a + 1\<rparr>
                in if mValue a > cMaxValue then canonicalize a else Inr a
              else Inr a)"

subsection \<open>Wire format\<close>

definition STAmount_add :: "stamount \<Rightarrow> serializer \<Rightarrow> serializer" where
  "STAmount_add a s =
     (if mIsNative a then
        if \<not> mIsNegative a then snd (add64 (mValue a OR cPosNative) s) else snd (add64 (mValue a) s)
      else
        let s = snd (add64
                  (if is_zero a then cNotNative
                   else if mIsNegative a
                   then mValue a OR push_bit 54 (word_of_int (mOffset a + 512 + 97))
                   else mValue a OR push_bit 54 (word_of_int (mOffset a + 512 + 256 + 97))) s);
            s = snd (add160 (currency (mIssue a)) s)
        in snd (add160 (account (mIssue a)) s))"

definition STAmount_sit :: "serialiter \<Rightarrow> (stamount \<times> serialiter) result" where
  "STAmount_sit sit =
     bindE (sit_get64 sit) (\<lambda>(val, sit).
       if val AND cNotNative = 0 then
         if val AND cPosNative \<noteq> 0 then
           Inr (\<lparr>mIssue = default_issue, mValue = val AND NOT cPosNative, mOffset = 0,
                 mIsNative = True, mIsNegative = False\<rparr>, sit)
         else if val = 0 then Inl (RuntimeError ''negative zero is not canonical'')
         else Inr (\<lparr>mIssue = default_issue, mValue = val, mOffset = 0,
                    mIsNative = True, mIsNegative = True\<rparr>, sit)
       else
         bindE (sit_get160 sit) (\<lambda>(cur, sit).
           if isSWT cur then Inl (RuntimeError ''invalid native currency'')
           else bindE (sit_get160 sit) (\<lambda>(acc, sit).
             if isSWT acc then Inl (RuntimeError ''invalid native account'')
             else
               let iss = \<lparr>currency = cur, account = acc\<rparr>;
                   offset = uint (drop_bit 54 val);
                   val = val AND NOT (push_bit 54 1023)
               in if val \<noteq> 0 then
                    let isNegative = (offset AND 256 = 0);
                        offset = (offset AND 255) - 97
                    in if val < cMinValue \<or> val > cMaxValue \<or> offset < cMinOffset \<or>
                          offset > cMaxOffset
                       then Inl (RuntimeError ''invalid currency value'')
                       else bindE (canonicalize
                              \<lparr>mIssue = iss, mValue = val, mOffset = offset, mIsNative = False,
                               mIsNegative = isNegative\<rparr>) (\<lambda>a. Inr (a, sit))
                  else if offset \<noteq> 512 then Inl (RuntimeError ''invalid currency value'')
                  else bindE (canonicalize
                         \<lparr>mIssue = iss, mValue = 0, mOffset = 0, mIsNative = False,
                          mIsNegative = False\<rparr>) (\<lambda>a. Inr (a, sit)))))"

subsection \<open>Specification-side definitions\<close>

text \<open>The number an amount stands for, the documented internal form, and the bytes of its wire form.\<close>

definition magnitude :: "stamount \<Rightarrow> real" where
  "magnitude a = real (unat (mValue a)) * 10 powi mOffset a"

definition amount_value :: "stamount \<Rightarrow> real" where
  "amount_value a = (if mIsNegative a then - magnitude a else magnitude a)"

definition canonical :: "stamount \<Rightarrow> bool" where
  "canonical a =
     (if isSWT_amount a
      then mIsNative a \<and> mOffset a = 0 \<and> mValue a \<le> cMaxNativeN \<and> (mValue a = 0 \<longrightarrow> \<not> mIsNegative a)
      else \<not> mIsNative a \<and>
        (if mValue a = 0 then mOffset a = -100 \<and> \<not> mIsNegative a
         else cMinValue \<le> mValue a \<and> mValue a \<le> cMaxValue \<and>
              cMinOffset \<le> mOffset a \<and> mOffset a \<le> cMaxOffset))"

definition amount_bytes :: "stamount \<Rightarrow> blob" where
  "amount_bytes a = mData (STAmount_add a \<lparr>mData = []\<rparr>)"

definition wire_amount :: "stamount \<Rightarrow> bool" where
  "wire_amount a = (canonical a \<and>
     (if isSWT_amount a then mIssue a = default_issue else \<not> isSWT (account (mIssue a))))"

definition wire_word :: "stamount \<Rightarrow> u64" where
  "wire_word a =
     (if mIsNative a then (if mIsNegative a then mValue a else mValue a OR cPosNative)
      else if is_zero a then cNotNative
      else if mIsNegative a then mValue a OR push_bit 54 (word_of_int (mOffset a + 512 + 97))
      else mValue a OR push_bit 54 (word_of_int (mOffset a + 512 + 256 + 97)))"

definition native_wire :: "stamount \<Rightarrow> bool" where
  "native_wire a = (mIsNative a \<and> mIssue a = default_issue \<and> mOffset a = 0 \<and> unat (mValue a) < 2 ^ 62 \<and>
     (mValue a = 0 \<longrightarrow> \<not> mIsNegative a))"

subsection \<open>The loops of canonicalize\<close>

lemmas amount_consts = cMinValue_def cMaxValue_def cMinOffset_def cMaxOffset_def cMaxNativeN_def

lemma const_unat:
  "v < cMinValue \<longleftrightarrow> unat v < 10 ^ 15" "cMinValue \<le> v \<longleftrightarrow> 10 ^ 15 \<le> unat v"
  "v > cMaxValue \<longleftrightarrow> 10 ^ 16 \<le> unat v" "v \<le> cMaxValue \<longleftrightarrow> unat v < 10 ^ 16"
  "v \<le> cMaxNativeN \<longleftrightarrow> unat v \<le> 10 ^ 17" "v > cMaxNativeN \<longleftrightarrow> 10 ^ 17 < unat v"
  by (auto simp: amount_consts word_less_nat_alt word_le_nat_alt)

lemma unat_div10: "unat (v div 10 :: u64) = unat v div 10"
  by (simp add: unat_div)

lemma unat_mul10: "unat v < 10 ^ 18 \<Longrightarrow> unat (v * 10 :: u64) = unat v * 10"
  by (simp add: unat_word_ariths)

lemma scale_up_loop_spec:
  assumes "scale_up_loop v off = (v', off')"
  shows "\<exists>k. off' = off - int k \<and> unat v' = unat v * 10 ^ k \<and>
    (10 ^ 15 \<le> unat v' \<or> off' \<le> -96) \<and> (0 < k \<longrightarrow> unat v' < 10 ^ 16 \<and> -96 \<le> off')"
  using assms
proof (induction v off rule: scale_up_loop.induct)
  case (1 v off)
  show ?case
  proof (cases "v < cMinValue \<and> off > cMinOffset")
    case True
    then have v: "unat v < 10 ^ 15" "off > -96" by (simp_all add: const_unat cMinOffset_def)
    have "scale_up_loop (v * 10) (off - 1) = (v', off')"
      using 1(2) True by (subst (asm) scale_up_loop.simps) simp
    from 1(1) [OF True this] obtain k where k: "off' = off - 1 - int k"
      "unat v' = unat (v * 10) * 10 ^ k" "10 ^ 15 \<le> unat v' \<or> off' \<le> -96"
      "0 < k \<longrightarrow> unat v' < 10 ^ 16 \<and> -96 \<le> off'" by blast
    have m: "unat (v * 10) = unat v * 10" using v by (intro unat_mul10) simp
    show ?thesis
      using k m v by (intro exI [of _ "Suc k"]) (cases "k = 0"; simp)
  next
    case False
    then have "v' = v" "off' = off" using 1(2) by (subst (asm) scale_up_loop.simps, simp)+
    with False show ?thesis by (intro exI [of _ 0]) (auto simp: const_unat cMinOffset_def)
  qed
qed

lemma scale_down_loop_spec:
  "case scale_down_loop v off of
     Inr (v', off') \<Rightarrow> \<exists>k. off' = off + int k \<and> unat v' = unat v div 10 ^ k \<and> unat v' < 10 ^ 16 \<and>
       (0 < k \<longrightarrow> 10 ^ 15 \<le> unat v' \<and> off' \<le> 80)
   | Inl e \<Rightarrow> e = RuntimeError ''value overflow'' \<and>
       (\<exists>k. 10 ^ 16 * 10 ^ k \<le> unat v \<and> off + int k \<ge> 80)"
proof (induction v off rule: scale_down_loop.induct)
  case (1 v off)
  consider (big) "v > cMaxValue" "off \<ge> cMaxOffset" | (step) "v > cMaxValue" "\<not> off \<ge> cMaxOffset"
    | (fin) "\<not> v > cMaxValue" by blast
  then show ?case
  proof cases
    case big
    then show ?thesis
      by (subst scale_down_loop.simps) (auto simp: const_unat cMaxOffset_def intro: exI [of _ 0])
  next
    case step
    have eq: "scale_down_loop v off = scale_down_loop (v div 10) (off + 1)"
      using step by (subst scale_down_loop.simps) simp
    have v: "10 ^ 16 \<le> unat v" "off < 80" using step by (simp_all add: const_unat cMaxOffset_def)
    note IH = 1 [OF step]
    show ?thesis
    proof (cases "scale_down_loop (v div 10) (off + 1)")
      case (Inl e)
      with IH obtain k where k: "e = RuntimeError ''value overflow''" "10 ^ 16 * 10 ^ k \<le> unat (v div 10)"
        "off + 1 + int k \<ge> 80" by auto
      have "10 ^ 16 * 10 ^ Suc k \<le> unat v" using k(2) by (simp add: unat_div10)
      with Inl k eq show ?thesis by (auto intro!: exI [of _ "Suc k"])
    next
      case (Inr r)
      obtain v' off' where r: "r = (v', off')" by fastforce
      with IH Inr obtain k where k: "off' = off + 1 + int k" "unat v' = unat (v div 10) div 10 ^ k"
        "unat v' < 10 ^ 16" "0 < k \<longrightarrow> 10 ^ 15 \<le> unat v' \<and> off' \<le> 80" by auto
      have "10 ^ 15 \<le> unat v div 10" using v(1) by simp
      then have "10 ^ 15 \<le> unat v' \<and> off' \<le> 80" using k v by (cases "k = 0") (auto simp: unat_div10)
      moreover have "unat v' = unat v div 10 ^ Suc k" using k(2) by (simp add: unat_div10 div_mult2_eq)
      ultimately show ?thesis using Inr r eq k by (auto intro!: exI [of _ "Suc k"])
    qed
  next
    case fin
    then show ?thesis
      by (subst scale_down_loop.simps) (auto simp: const_unat intro!: exI [of _ 0])
  qed
qed

subsection \<open>Normal forms\<close>

lemma powi_shift: "(10::real) powi (e + int k) = 10 powi e * 10 ^ k"
  by (simp add: power_int_add)

lemma powi_mono: "a \<le> b \<Longrightarrow> (10::real) powi a \<le> 10 powi b"
  by (rule power_int_increasing) simp_all

lemma powi_pos [simp]: "0 < (10::real) powi e"
  by simp

lemma mag_scale_up: "real (n * 10 ^ k) * 10 powi (e - int k) = real n * 10 powi e"
  using powi_shift [of "e - int k" k] by simp

lemma nat_mag_bounds: "m \<le> n \<Longrightarrow> a \<le> e \<Longrightarrow> real m * 10 powi a \<le> real n * 10 powi e"
  using powi_mono [of a e] by (intro mult_mono) (simp_all add: less_imp_le)

lemma nat_mag_less: "m < n \<Longrightarrow> a \<le> e \<Longrightarrow> real m * 10 powi a < real n * 10 powi e"
  using powi_mono [of a e] by (intro mult_less_le_imp_less) simp_all

lemma mag_scale_down:
  "real (n div 10 ^ k) * 10 powi (e + int k) \<le> real n * 10 powi e"
  "real n * 10 powi e < real (n div 10 ^ k + 1) * 10 powi (e + int k)"
proof -
  have e: "real m * 10 powi (e + int k) = real (m * 10 ^ k) * 10 powi e" for m
    by (simp add: powi_shift)
  have "n div 10 ^ k * 10 ^ k \<le> n" by simp
  then show "real (n div 10 ^ k) * 10 powi (e + int k) \<le> real n * 10 powi e"
    unfolding e by (intro mult_right_mono) (simp_all only: of_nat_le_iff, simp)
  have "n < (n div 10 ^ k + 1) * 10 ^ k" using dividend_less_times_div [of "10 ^ k" n] by (simp add: mult.commute)
  then show "real n * 10 powi e < real (n div 10 ^ k + 1) * 10 powi (e + int k)"
    unfolding e by (intro mult_strict_right_mono) (simp_all only: of_nat_less_iff, simp)
qed

lemma canonicalize_issued:
  assumes iou: "\<not> isSWT_amount a" and nz: "mValue a \<noteq> 0"
  shows "if 10 powi 96 \<le> magnitude a then canonicalize a = Inl (RuntimeError ''value overflow'')
    else \<exists>b. canonicalize a = Inr b \<and> mIssue b = mIssue a \<and> \<not> mIsNative b \<and>
      mIsNegative b = mIsNegative a \<and>
      (if magnitude a < 10 powi - 81 then mValue b = 0 \<and> mOffset b = 0
       else canonical b \<and> mValue b \<noteq> 0 \<and> magnitude b \<le> magnitude a \<and>
         magnitude a < magnitude b + 10 powi mOffset b)"
proof -
  obtain v1 off1 where up: "scale_up_loop (mValue a) (mOffset a) = (v1, off1)" by fastforce
  from scale_up_loop_spec [OF up] obtain k where k: "off1 = mOffset a - int k"
    "unat v1 = unat (mValue a) * 10 ^ k" "10 ^ 15 \<le> unat v1 \<or> off1 \<le> -96" by blast
  have x: "magnitude a = real (unat v1) * 10 powi off1"
    unfolding magnitude_def k(1,2) by (rule mag_scale_up [symmetric])
  have eq: "canonicalize a = bindE (scale_down_loop v1 off1) (\<lambda>(v, off).
      let (v, off) = (if off < cMinOffset \<or> v < cMinValue then (0, 0) else (v, off))
      in if off > cMaxOffset then Inl (RuntimeError ''value overflow'')
         else Inr (a\<lparr>mIsNative := False, mValue := v, mOffset := off\<rparr>))"
    using iou nz up by (simp add: canonicalize_def)
  show ?thesis
  proof (cases "scale_down_loop v1 off1")
    case (Inl e)
    with scale_down_loop_spec [of v1 off1] obtain j where j: "e = RuntimeError ''value overflow''"
      "10 ^ 16 * 10 ^ j \<le> unat v1" "80 \<le> off1 + int j" by auto
    have "10 powi 96 = (10::real) ^ 16 * 10 powi 80" by simp
    also have "\<dots> \<le> 10 ^ 16 * 10 powi (off1 + int j)" using powi_mono [OF j(3)] by simp
    also have "\<dots> = real (10 ^ 16 * 10 ^ j) * 10 powi off1" by (simp add: powi_shift)
    also have "\<dots> \<le> magnitude a"
      unfolding x using j(2) by (intro mult_right_mono) (simp_all only: of_nat_le_iff, simp)
    finally show ?thesis using Inl eq j(1) by simp
  next
    case (Inr r)
    obtain v2 off2 where r: "r = (v2, off2)" by fastforce
    with Inr scale_down_loop_spec [of v1 off1] obtain j where j: "off2 = off1 + int j"
      "unat v2 = unat v1 div 10 ^ j" "unat v2 < 10 ^ 16" "0 < j \<longrightarrow> 10 ^ 15 \<le> unat v2 \<and> off2 \<le> 80"
      by auto
    have lo: "real (unat v2) * 10 powi off2 \<le> magnitude a"
      and hi: "magnitude a < real (unat v2 + 1) * 10 powi off2"
      unfolding x j(1,2) by (rule mag_scale_down)+
    show ?thesis
    proof (cases "off2 < -96 \<or> unat v2 < 10 ^ 15")
      case True
      have "magnitude a < 10 powi - 81"
      proof (cases "off2 < -96")
        case True
        have "real (unat v2 + 1) * 10 powi off2 \<le> real (10 ^ 16) * 10 powi - 97"
          using True j(3) by (intro nat_mag_bounds) simp_all
        with hi show ?thesis by (simp add: power_int_minus)
      next
        case False
        with True j k(3) have "unat v1 < 10 ^ 15" "off1 \<le> - 96" by (cases "j = 0"; simp)+
        then have "real (unat v1) * 10 powi off1 < real (10 ^ 15) * 10 powi - 96"
          by (intro nat_mag_less) simp_all
        then show ?thesis by (simp add: x power_int_minus)
      qed
      moreover have "(10::real) powi - 81 \<le> 10 powi 96" by (rule powi_mono) simp
      ultimately show ?thesis
        using Inr r eq True by (simp add: const_unat cMinOffset_def cMaxOffset_def)
    next
      case False
      then have v2: "-96 \<le> off2" "10 ^ 15 \<le> unat v2" by simp_all
      have "real (10 ^ 15) * 10 powi - 96 \<le> real (unat v2) * 10 powi off2"
        using v2 by (intro nat_mag_bounds) simp_all
      then have low: "10 powi - 81 \<le> magnitude a" using lo by (simp add: power_int_minus)
      show ?thesis
      proof (cases "off2 \<le> 80")
        case True
        have "real (unat v2 + 1) * 10 powi off2 \<le> real (10 ^ 16) * 10 powi 80"
          using j(3) True by (intro nat_mag_bounds) simp_all
        then have "magnitude a < 10 powi 96" using hi by simp
        with Inr r eq v2 True low lo hi j(3) iou show ?thesis
          by (auto simp: const_unat cMinOffset_def cMaxOffset_def canonical_def magnitude_def
              isSWT_amount_def algebra_simps)
      next
        case False
        have "real (10 ^ 15) * 10 powi 81 \<le> real (unat v2) * 10 powi off2"
          using v2 False by (intro nat_mag_bounds) simp_all
        then have "10 powi 96 \<le> magnitude a" using lo by simp
        with Inr r eq v2 False show ?thesis by (simp add: const_unat cMinOffset_def cMaxOffset_def)
      qed
    qed
  qed
qed

subsection \<open>Encoding and decoding\<close>

lemma native_div_loop_0 [simp]: "0 \<le> off \<Longrightarrow> native_div_loop v off = (v, off)"
  by (subst native_div_loop.simps) simp

lemma native_mul_loop_0 [simp]: "off \<le> 0 \<Longrightarrow> native_mul_loop v off = (v, off)"
  by (subst native_mul_loop.simps) simp

lemma canonical_fix: "canonical a \<Longrightarrow> canonicalize a = Inr a"
proof (cases "isSWT_amount a")
  case True
  assume "canonical a"
  with True show ?thesis
    by (cases a) (auto simp: canonicalize_def canonical_def const_unat isSWT_amount_def Let_def)
next
  case False
  assume can: "canonical a"
  show ?thesis
  proof (cases "mValue a = 0")
    case True
    with False can show ?thesis
      by (cases a) (auto simp: canonicalize_def canonical_def isSWT_amount_def)
  next
    case nz: False
    have "scale_up_loop (mValue a) (mOffset a) = (mValue a, mOffset a)"
      "scale_down_loop (mValue a) (mOffset a) = Inr (mValue a, mOffset a)"
      using False nz can
      by (subst scale_up_loop.simps scale_down_loop.simps, auto simp: canonical_def)+
    with False nz can show ?thesis
      by (cases a) (auto simp: canonicalize_def canonical_def isSWT_amount_def)
  qed
qed

lemma STAmount_add_emits: "STAmount_add a s = s\<lparr>mData := mData s @ amount_bytes a\<rparr>"
  by (simp add: STAmount_add_def amount_bytes_def add64_bytes add160_def addBitString_def
      push_bytes_def Let_def)

lemma amount_bytes_eq:
  "amount_bytes a = be_bytes 8 (unat (wire_word a)) @
     (if mIsNative a then [] else uint_bytes (currency (mIssue a)) @ uint_bytes (account (mIssue a)))"
  by (simp add: STAmount_add_def amount_bytes_def add64_bytes add160_def addBitString_def
      push_bytes_def Let_def wire_word_def)

lemma high_bits_clear: "unat (v :: u64) < 2 ^ k \<Longrightarrow> bit v n \<Longrightarrow> n < k"
proof (rule ccontr)
  assume v: "unat v < 2 ^ k" and b: "bit v n" and n: "\<not> n < k"
  have "unat v < 2 ^ n" using v n by (meson leI le_less_trans less_le_trans order_refl power_increasing one_le_numeral)
  then have "unat v div 2 ^ n = 0" by simp
  moreover have "bit (unat v) n" using b by (simp add: bit_unsigned_iff)
  ultimately show False by (simp add: bit_iff_odd)
qed

lemma pack_exponent:
  fixes m e :: u64
  assumes m: "unat m < 2 ^ 54" and e: "unat e < 2 ^ 10"
  shows "drop_bit 54 (m OR push_bit 54 e) = e"
    "(m OR push_bit 54 e) AND NOT (push_bit 54 1023) = m"
    "(m OR push_bit 54 e) AND cNotNative = 0 \<longleftrightarrow> \<not> bit e 9"
proof -
  note hm = high_bits_clear [OF m] and he = high_bits_clear [OF e]
  have c: "(1023 :: u64) = mask 10" by (simp add: mask_eq_exp_minus_1)
  have d: "cNotNative = push_bit 63 1" by (simp add: cNotNative_def push_bit_eq_mult)
  show "drop_bit 54 (m OR push_bit 54 e) = e"
    by (rule bit_word_eqI) (use he in \<open>auto simp: bit_simps dest: hm\<close>)
  show "(m OR push_bit 54 e) AND NOT (push_bit 54 1023) = m"
    unfolding c by (rule bit_word_eqI) (use he in \<open>auto simp: bit_simps dest: hm\<close>)
  have "bit (m OR push_bit 54 e) 63 = bit e 9" by (auto simp: bit_simps dest: hm)
  moreover have "(w AND cNotNative = 0) = (\<not> bit w 63)" for w :: u64
    unfolding d by (simp only: bit_iff_and_push_bit_not_eq_0 [of w 63] not_not)
  ultimately show "(m OR push_bit 54 e) AND cNotNative = 0 \<longleftrightarrow> \<not> bit e 9" by simp
qed

lemma pos_native_word:
  fixes v :: u64
  assumes v: "unat v < 2 ^ 62"
  shows "(v OR cPosNative) AND cNotNative = 0" "(v OR cPosNative) AND cPosNative \<noteq> 0"
    "(v OR cPosNative) AND NOT cPosNative = v" "v AND cNotNative = 0" "v AND cPosNative = 0"
proof -
  note hv = high_bits_clear [OF v]
  have c: "cNotNative = push_bit 63 1" "cPosNative = push_bit 62 1"
    by (simp_all add: cNotNative_def cPosNative_def push_bit_eq_mult)
  have n: "(w AND cNotNative = 0) = (\<not> bit w 63)" "(w AND cPosNative = 0) = (\<not> bit w 62)" for w :: u64
    unfolding c by (simp_all only: bit_iff_and_push_bit_not_eq_0 [of w] not_not)
  have p: "bit cPosNative k \<longleftrightarrow> k = 62" for k
    unfolding c bit_push_bit_iff bit_1_iff by auto
  show "(v OR cPosNative) AND cNotNative = 0" "(v OR cPosNative) AND cPosNative \<noteq> 0"
    "v AND cNotNative = 0" "v AND cPosNative = 0"
    unfolding n by (auto simp: bit_or_iff p dest: hv)
  show "(v OR cPosNative) AND NOT cPosNative = v"
    by (rule bit_word_eqI) (auto simp: bit_or_iff bit_and_iff bit_not_iff p dest: hv)
qed

lemma int_bit8: "(x :: int) AND 256 = 0 \<longleftrightarrow> even (x div 256)"
proof -
  have "bit x 8 \<longleftrightarrow> x AND push_bit 8 1 \<noteq> 0" by (rule bit_iff_and_push_bit_not_eq_0)
  then show ?thesis by (simp add: push_bit_eq_mult bit_iff_odd)
qed

lemma uint_of_int_u64: "0 \<le> x \<Longrightarrow> x < 2 ^ 64 \<Longrightarrow> uint (word_of_int x :: u64) = x"
  by (simp add: unsigned_of_int take_bit_eq_mod)

lemma exponent_field:
  assumes k: "0 \<le> k" "k < 256" and c: "c = 512 \<or> c = 768" and e: "(e :: u64) = word_of_int (k + c)"
  shows "uint e = k + c" "bit e 9" "unat e < 2 ^ 10" "uint e AND 256 = 0 \<longleftrightarrow> c = 512" "uint e AND 255 = k"
proof -
  show u: "uint e = k + c" unfolding e by (rule uint_of_int_u64) (use assms in auto)
  have "(k + c) div 512 = 1" using k c by auto
  then have "bit (uint e) 9" unfolding u by (simp add: bit_iff_odd)
  then show "bit e 9" by (simp add: bit_uint_iff)
  have "int (unat e) < 2 ^ 10" using u k c by auto
  then show "unat e < 2 ^ 10" by (simp only: of_nat_less_numeral_power_cancel_iff)
  have "(k + 512) div 256 = 2" "(k + 768) div 256 = 3" using k by simp_all
  then show "uint e AND 256 = 0 \<longleftrightarrow> c = 512" using c by (auto simp: int_bit8 u)
  have "(k + 2 * 256) mod 256 = k" "(k + 3 * 256) mod 256 = k"
    using k by (simp_all only: mod_mult_self1 mod_pos_pos_trivial)
  then show "uint e AND 255 = k" using c by (auto simp: byte_and_ff u)
qed

lemma sit_get64_160:
  assumes "sit_ok it"
  shows "sit_rest it = be_bytes 8 (unat w) @ post \<Longrightarrow>
      sit_get64 it = Inr (w, sit_advance 8 it) \<and> sit_ok (sit_advance 8 it) \<and> sit_rest (sit_advance 8 it) = post"
    "sit_rest it = uint_bytes (x :: u160) @ post \<Longrightarrow>
      sit_get160 it = Inr (x, sit_advance 20 it) \<and> sit_ok (sit_advance 20 it) \<and> sit_rest (sit_advance 20 it) = post"
proof -
  assume "sit_rest it = be_bytes 8 (unat w) @ post"
  with c64.get_enc [OF assms, of w post] sit_ok_advance_rest [OF assms this, of 8]
  show "sit_get64 it = Inr (w, sit_advance 8 it) \<and> sit_ok (sit_advance 8 it) \<and> sit_rest (sit_advance 8 it) = post"
    by simp
next
  have l: "length (uint_bytes x) = 20" by (simp add: uint_bytes_def)
  assume "sit_rest it = uint_bytes x @ post"
  with c160.get_enc [OF assms, of x post] sit_ok_advance_rest [OF assms this, of 20] l
  show "sit_get160 it = Inr (x, sit_advance 20 it) \<and> sit_ok (sit_advance 20 it) \<and> sit_rest (sit_advance 20 it) = post"
    by simp
qed

lemma STAmount_sit_native:
  assumes it: "sit_ok it" and w: "wire_amount a" "isSWT_amount a"
    and rest: "sit_rest it = amount_bytes a @ post"
  shows "STAmount_sit it = Inr (a, sit_advance (length (amount_bytes a)) it)"
proof -
  have a: "mIsNative a" "mOffset a = 0" "unat (mValue a) < 2 ^ 62" "mIssue a = default_issue"
    "mValue a = 0 \<longrightarrow> \<not> mIsNegative a"
    using w by (auto simp: wire_amount_def canonical_def const_unat)
  have g: "sit_get64 it = Inr (wire_word a, sit_advance 8 it)"
    using sit_get64_160(1) [OF it, of "wire_word a" post] rest a(1) by (simp add: amount_bytes_eq)
  show ?thesis
  proof (cases "mIsNegative a")
    case True
    with a g pos_native_word [OF a(3)] show ?thesis
      by (cases a) (auto simp: STAmount_sit_def wire_word_def amount_bytes_eq)
  next
    case False
    with a g pos_native_word [OF a(3)] show ?thesis
      by (cases a) (simp add: STAmount_sit_def wire_word_def amount_bytes_eq)
  qed
qed

lemma wire_word_issued:
  assumes "canonical a" "\<not> isSWT_amount a" "mValue a \<noteq> 0"
  obtains e where "wire_word a = mValue a OR push_bit 54 e" "unat e < 2 ^ 10" "bit e 9"
    "(uint e AND 256 = 0) = mIsNegative a" "(uint e AND 255) - 97 = mOffset a" "unat (mValue a) < 2 ^ 54"
proof -
  have a: "\<not> mIsNative a" "unat (mValue a) < 10 ^ 16" "-96 \<le> mOffset a" "mOffset a \<le> 80" "\<not> is_zero a"
    using assms by (auto simp: canonical_def const_unat cMinOffset_def cMaxOffset_def is_zero_def signum_def)
  define c :: int where "c = (if mIsNegative a then 512 else 768)"
  have "0 \<le> mOffset a + 97" "mOffset a + 97 < 256" "c = 512 \<or> c = 768" using a by (simp_all add: c_def)
  note f = exponent_field [OF this refl]
  have "wire_word a = mValue a OR push_bit 54 (word_of_int (mOffset a + 97 + c))"
    using a by (simp add: wire_word_def c_def add.commute)
  moreover have "(c = 512) = mIsNegative a" by (simp add: c_def)
  moreover have "unat (mValue a) < 2 ^ 54" using a(2) by simp
  ultimately show thesis using that [OF _ f(3,2)] f(4,5) by (simp only: add_diff_cancel_right')
qed

lemma STAmount_sit_issued:
  assumes it: "sit_ok it" and w: "wire_amount a" "\<not> isSWT_amount a"
    and rest: "sit_rest it = amount_bytes a @ post"
  shows "STAmount_sit it = Inr (a, sit_advance (length (amount_bytes a)) it)"
proof -
  have can: "canonical a" and n: "\<not> mIsNative a" "currency (mIssue a) \<noteq> 0" "account (mIssue a) \<noteq> 0"
    using w by (auto simp: wire_amount_def canonical_def isSWT_amount_def isSWT_def)
  define it1 it2 it3 where "it1 = sit_advance 8 it" and "it2 = sit_advance 20 it1" and "it3 = sit_advance 20 it2"
  have g1: "sit_get64 it = Inr (wire_word a, it1)" "sit_ok it1"
      "sit_rest it1 = uint_bytes (currency (mIssue a)) @ uint_bytes (account (mIssue a)) @ post"
    using sit_get64_160(1) [OF it, of "wire_word a"] rest n(1) by (simp_all add: amount_bytes_eq it1_def)
  have g2: "sit_get160 it1 = Inr (currency (mIssue a), it2)" "sit_ok it2"
      "sit_rest it2 = uint_bytes (account (mIssue a)) @ post"
    using sit_get64_160(2) [OF g1(2,3)] by (simp_all add: it2_def)
  have g3: "sit_get160 it2 = Inr (account (mIssue a), it3)"
    using sit_get64_160(2) [OF g2(2,3)] by (simp add: it3_def)
  have adv: "it3 = sit_advance (length (amount_bytes a)) it"
    using n by (simp add: it3_def it2_def it1_def sit_advance_add amount_bytes_eq uint_bytes_def)
  show ?thesis
  proof (cases "mValue a = 0")
    case True
    then have ww: "wire_word a = 0 OR push_bit 54 512"
      using n by (simp add: wire_word_def is_zero_def signum_def cNotNative_def push_bit_eq_mult)
    have bits: "drop_bit 54 (wire_word a) = 512" "wire_word a AND NOT (push_bit 54 1023) = 0"
      "wire_word a AND cNotNative \<noteq> 0"
      using pack_exponent [of 0 512] exponent_field(2) [of 0 512 512] unfolding ww by simp_all
    have "canonicalize \<lparr>mIssue = \<lparr>currency = currency (mIssue a), account = account (mIssue a)\<rparr>,
        mValue = 0, mOffset = 0, mIsNative = False, mIsNegative = False\<rparr> = Inr a"
      using can n True
      by (cases a) (auto simp: canonical_def isSWT_amount_def isSWT_def canonicalize_def)
    then show ?thesis
      using g1(1) g2(1) g3 bits n adv by (simp add: STAmount_sit_def isSWT_def)
  next
    case False
    obtain e where e: "wire_word a = mValue a OR push_bit 54 e" "unat e < 2 ^ 10" "bit e 9"
      "(uint e AND 256 = 0) = mIsNegative a" "(uint e AND 255) - 97 = mOffset a" "unat (mValue a) < 2 ^ 54"
      using wire_word_issued [OF can w(2) False] .
    note bits = pack_exponent [OF e(6,2), folded e(1)]
    have a: "a = \<lparr>mIssue = \<lparr>currency = currency (mIssue a), account = account (mIssue a)\<rparr>,
        mValue = mValue a, mOffset = mOffset a, mIsNative = False, mIsNegative = mIsNegative a\<rparr>"
      using n by (cases a) auto
    have cf: "canonicalize \<lparr>mIssue = \<lparr>currency = currency (mIssue a), account = account (mIssue a)\<rparr>,
        mValue = mValue a, mOffset = mOffset a, mIsNative = False, mIsNegative = mIsNegative a\<rparr> = Inr a"
      using canonical_fix [OF can] unfolding a [symmetric] .
    have r: "\<not> mValue a < cMinValue" "\<not> cMaxValue < mValue a" "\<not> mOffset a < cMinOffset"
      "\<not> cMaxOffset < mOffset a"
      using can False w(2) by (auto simp: canonical_def not_less)
    show ?thesis
      using g1(1) g2(1) g3 bits e(3-5) n adv r False cf
      by (simp add: STAmount_sit_def isSWT_def Let_def)
  qed
qed

interpretation camount: wire_codec "\<lambda>a s. Inr (length (mData s), STAmount_add a s)" STAmount_sit
    wire_amount amount_bytes
proof unfold_locales
  fix x s
  show "Inr (length (mData s), STAmount_add x s) = Inr (push_bytes (amount_bytes x) s)"
    by (simp add: STAmount_add_emits push_bytes_def)
next
  fix it x post
  assume "sit_ok it" "wire_amount x" "sit_rest it = amount_bytes x @ post"
  then show "STAmount_sit it = Inr (x, sit_advance (length (amount_bytes x)) it)"
    by (cases "isSWT_amount x") (auto intro: STAmount_sit_native STAmount_sit_issued)
qed

lemma unpack_exponent:
  fixes val :: u64
  shows "val = (val AND NOT (push_bit 54 1023)) OR push_bit 54 (drop_bit 54 val)"
    "unat (val AND NOT (push_bit 54 1023)) < 2 ^ 54" "uint (drop_bit 54 val) < 1024"
    "val AND cNotNative \<noteq> 0 \<Longrightarrow> 512 \<le> uint (drop_bit 54 val)"
proof -
  have c: "(1023 :: u64) = mask 10" by (simp add: mask_eq_exp_minus_1)
  show "val = (val AND NOT (push_bit 54 1023)) OR push_bit 54 (drop_bit 54 val)"
    unfolding c by (rule bit_word_eqI) (auto simp: bit_simps)
  have "val AND NOT (push_bit 54 1023) = take_bit 54 val"
    unfolding c by (rule bit_word_eqI) (auto simp: bit_simps)
  then show "unat (val AND NOT (push_bit 54 1023)) < 2 ^ 54"
    by (simp only: unsigned_take_bit_eq take_bit_nat_less_exp)
  have u: "uint (drop_bit 54 val) = uint val div 2 ^ 54"
    using arg_cong [OF unat_drop_bit_div [of 54 val], of int] by (simp add: zdiv_int)
  have "uint val < 2 ^ 64" using unsigned_less [of val, where ?'a = int] by simp
  then have "uint val div 2 ^ 54 < 1024" by simp
  then show "uint (drop_bit 54 val) < 1024" by (simp only: u)
  assume "val AND cNotNative \<noteq> 0"
  moreover have "cNotNative = push_bit 63 1" by (simp add: cNotNative_def push_bit_eq_mult)
  ultimately have "bit val 63" by (metis bit_iff_and_push_bit_not_eq_0)
  then have "bit (uint val) 63" by (simp add: bit_uint_iff)
  then have "uint val div 2 ^ 63 \<noteq> 0" by (auto simp: bit_iff_odd)
  then have "2 ^ 63 \<le> uint val" by (metis div_pos_pos_trivial not_le uint_ge_0)
  then have "512 \<le> uint val div 2 ^ 54" using zdiv_mono1 [of "2 ^ 63" "uint val" "2 ^ 54"] by simp
  then show "512 \<le> uint (drop_bit 54 val)" by (simp only: u)
qed

lemma native_unpack:
  fixes val :: u64
  assumes "val AND cNotNative = 0"
  shows "val AND cPosNative \<noteq> 0 \<Longrightarrow> (val AND NOT cPosNative) OR cPosNative = val \<and> unat (val AND NOT cPosNative) < 2 ^ 62"
    "val AND cPosNative = 0 \<Longrightarrow> unat val < 2 ^ 62"
proof -
  have c: "cNotNative = push_bit 63 1" "cPosNative = push_bit 62 1"
    by (simp_all add: cNotNative_def cPosNative_def push_bit_eq_mult)
  have n: "(w AND cNotNative = 0) = (\<not> bit w 63)" "(w AND cPosNative = 0) = (\<not> bit w 62)" for w :: u64
    unfolding c by (simp_all only: bit_iff_and_push_bit_not_eq_0 [of w] not_not)
  have p: "bit cPosNative k \<longleftrightarrow> k = 62" for k
    unfolding c bit_push_bit_iff bit_1_iff by auto
  have small: "unat w < 2 ^ 62" if "\<not> bit w 62" "\<not> bit w 63" for w :: u64
  proof -
    have "n < 62" if "bit w n" for n
    proof -
      have "n < 64" using that bit_imp_le_length by fastforce
      moreover have "n \<noteq> 62" "n \<noteq> 63" using that \<open>\<not> bit w 62\<close> \<open>\<not> bit w 63\<close> by auto
      ultimately show ?thesis by simp
    qed
    then have "w = take_bit 62 w" by (intro bit_word_eqI) (auto simp: bit_take_bit_iff)
    then have "unat w = take_bit 62 (unat w)" by (metis unsigned_take_bit_eq)
    then show ?thesis by (metis take_bit_nat_less_exp)
  qed
  have v: "\<not> bit val 63" using assms unfolding n .
  {
    assume "val AND cPosNative \<noteq> 0"
    then have "bit val 62" by (simp only: n not_not)
    then have "(val AND NOT cPosNative) OR cPosNative = val"
      by (intro bit_word_eqI) (auto simp: bit_or_iff bit_and_iff bit_not_iff p)
    moreover have "unat (val AND NOT cPosNative) < 2 ^ 62"
      by (rule small) (simp_all add: bit_and_iff bit_not_iff p v)
    ultimately show "(val AND NOT cPosNative) OR cPosNative = val \<and> unat (val AND NOT cPosNative) < 2 ^ 62"
      by blast
  }
  assume "val AND cPosNative = 0"
  then have "\<not> bit val 62" unfolding n .
  with v show "unat val < 2 ^ 62" by (rule small [rotated])
qed

lemma STAmount_sit_native_InrD:
  assumes it: "sit_ok it" and get: "sit_get64 it = Inr (val, it1)" "val AND cNotNative = 0"
    and res: "STAmount_sit it = Inr (a, it')"
  shows "native_wire a \<and> sit_rest it = amount_bytes a @ sit_rest it'"
proof -
  have r: "sit_rest it = be_bytes 8 (unat val) @ sit_rest it1" using sit_get64_InrD [OF it get(1)] by blast
  show ?thesis
  proof (cases "val AND cPosNative = 0")
    case True
    with get res have "val \<noteq> 0" "it' = it1" and a: "a = \<lparr>mIssue = default_issue, mValue = val, mOffset = 0,
        mIsNative = True, mIsNegative = True\<rparr>"
      by (auto simp: STAmount_sit_def split: if_splits)
    with r native_unpack(2) [OF get(2) True] show ?thesis
      by (simp add: native_wire_def amount_bytes_eq wire_word_def)
  next
    case False
    with get res have "it' = it1" and a: "a = \<lparr>mIssue = default_issue, mValue = val AND NOT cPosNative,
        mOffset = 0, mIsNative = True, mIsNegative = False\<rparr>"
      by (auto simp: STAmount_sit_def split: if_splits)
    with r native_unpack(1) [OF get(2) False] show ?thesis
      by (simp add: native_wire_def amount_bytes_eq wire_word_def)
  qed
qed

lemma exponent_recombine:
  fixes e :: u64
  assumes "512 \<le> uint e" "uint e < 1024"
  shows "word_of_int (((uint e AND 255) - 97) + 512 + (if uint e AND 256 = 0 then 0 else 256) + 97) = e"
proof -
  define q where "q = uint e div 256"
  have "2 \<le> q" "q \<le> 3" using zdiv_mono1 [of 512 "uint e" 256] zdiv_mono1 [of "uint e" 1023 256] assms
    by (simp_all add: q_def)
  then have q: "q = 2 \<or> q = 3" by linarith
  have "uint e = q * 256 + uint e mod 256" by (simp add: q_def)
  then have "((uint e AND 255) - 97) + 512 + (if uint e AND 256 = 0 then 0 else 256) + 97 = uint e"
    using q unfolding byte_and_ff int_bit8 q_def [symmetric] by auto
  then show ?thesis by (simp only: word_of_int_uint)
qed

lemma STAmount_sit_issued_InrD:
  assumes it: "sit_ok it" and get: "sit_get64 it = Inr (val, it1)" "val AND cNotNative \<noteq> 0"
    and res: "STAmount_sit it = Inr (a, it')"
  shows "wire_amount a \<and> \<not> isSWT_amount a \<and> sit_rest it = amount_bytes a @ sit_rest it'"
proof -
  have r: "sit_ok it1" "sit_rest it = be_bytes 8 (unat val) @ sit_rest it1"
    using sit_get64_InrD [OF it get(1)] by blast+
  obtain cur it2 where c: "sit_get160 it1 = Inr (cur, it2)" "cur \<noteq> 0"
    using get res by (auto simp: STAmount_sit_def bindE_eq_Inr isSWT_def split: if_splits)
  then obtain acc it3 where d: "sit_get160 it2 = Inr (acc, it3)" "acc \<noteq> 0"
    using get res by (auto simp: STAmount_sit_def bindE_eq_Inr isSWT_def split: if_splits)
  have r2: "sit_ok it2" "sit_rest it1 = uint_bytes cur @ sit_rest it2"
    using sit_get160_InrD [OF r(1) c(1)] by blast+
  have r3: "sit_rest it2 = uint_bytes acc @ sit_rest it3" using sit_get160_InrD [OF r2(1) d(1)] by blast
  define e m where "e = drop_bit 54 val" and "m = val AND NOT (push_bit 54 1023)"
  have e: "512 \<le> uint e" "uint e < 1024" using unpack_exponent(3,4) [of val] get(2) by (simp_all add: e_def)
  have val: "val = m OR push_bit 54 e" using unpack_exponent(1) [of val] by (simp only: e_def m_def)
  have body: "STAmount_sit it =
      (if m \<noteq> 0 then
         if m < cMinValue \<or> m > cMaxValue \<or> (uint e AND 255) - 97 < cMinOffset \<or> (uint e AND 255) - 97 > cMaxOffset
         then Inl (RuntimeError ''invalid currency value'')
         else bindE (canonicalize \<lparr>mIssue = \<lparr>currency = cur, account = acc\<rparr>, mValue = m,
                mOffset = (uint e AND 255) - 97, mIsNative = False, mIsNegative = (uint e AND 256 = 0)\<rparr>)
                (\<lambda>a. Inr (a, it3))
       else if uint e \<noteq> 512 then Inl (RuntimeError ''invalid currency value'')
       else bindE (canonicalize \<lparr>mIssue = \<lparr>currency = cur, account = acc\<rparr>, mValue = 0, mOffset = 0,
              mIsNative = False, mIsNegative = False\<rparr>) (\<lambda>a. Inr (a, it3)))"
    unfolding e_def m_def using get c d by (simp add: STAmount_sit_def isSWT_def Let_def)
  have bytes: "sit_rest it = amount_bytes a @ sit_rest it3"
    if "\<not> mIsNative a" "mIssue a = \<lparr>currency = cur, account = acc\<rparr>" "wire_word a = val"
    using that r r2 r3 by (simp add: amount_bytes_eq)
  show ?thesis
  proof (cases "m = 0")
    case True
    with body res c(2) have "uint e = 512" "it' = it3"
      and a: "a = \<lparr>mIssue = \<lparr>currency = cur, account = acc\<rparr>, mValue = 0, mOffset = -100,
        mIsNative = False, mIsNegative = False\<rparr>"
      by (auto simp: canonicalize_def isSWT_amount_def isSWT_def split: if_splits)
    moreover have "e = 512" using \<open>uint e = 512\<close> by (simp add: word_uint_eq_iff)
    then have "wire_word a = val"
      unfolding val True using a by (simp add: wire_word_def is_zero_def signum_def cNotNative_def push_bit_eq_mult)
    ultimately show ?thesis
      using bytes c(2) d(2) by (auto simp: wire_amount_def canonical_def isSWT_amount_def isSWT_def)
  next
    case False
    define x where "x = \<lparr>mIssue = \<lparr>currency = cur, account = acc\<rparr>, mValue = m,
      mOffset = (uint e AND 255) - 97, mIsNative = False, mIsNegative = (uint e AND 256 = 0)\<rparr>"
    from False res [unfolded body] have x: "canonicalize x = Inr a" "it' = it3"
      and rng: "\<not> m < cMinValue" "\<not> cMaxValue < m" "\<not> mOffset x < cMinOffset" "\<not> cMaxOffset < mOffset x"
      by (auto simp: x_def bindE_eq_Inr split: if_splits)
    have can: "canonical x" using rng False c(2) by (simp add: canonical_def x_def isSWT_amount_def isSWT_def not_less)
    then have ax: "a = x" using x(1) canonical_fix by simp
    have "wire_word x = m OR push_bit 54 (word_of_int (((uint e AND 255) - 97) + 512 +
        (if uint e AND 256 = 0 then 0 else 256) + 97))"
      using False by (simp add: wire_word_def x_def is_zero_def signum_def)
    then have "wire_word a = val" unfolding ax val exponent_recombine [OF e] .
    with can ax x(2) bytes c(2) d(2) show ?thesis
      by (simp add: wire_amount_def x_def isSWT_amount_def isSWT_def)
  qed
qed

subsection \<open>Properties\<close>

lemma native_div_loop_eq:
  "off \<le> 0 \<Longrightarrow> native_div_loop v off = (word_of_nat (unat v div 10 ^ nat (- off)), 0)"
proof (induction v off rule: native_div_loop.induct)
  case (1 v off)
  show ?case
  proof (cases "off < 0")
    case True
    then have "unat v div 10 div 10 ^ nat (- (off + 1)) = unat v div 10 ^ nat (- off)"
      by (simp add: div_mult2_eq [symmetric] nat_diff_distrib flip: power_Suc Suc_nat_eq_nat_zadd1)
    then show ?thesis using 1 True by (subst native_div_loop.simps) (simp add: unat_div)
  qed (use 1 in \<open>subst native_div_loop.simps, simp\<close>)
qed

lemma native_mul_loop_eq:
  "0 \<le> off \<Longrightarrow> unat v * 10 ^ nat off < 2 ^ 64 \<Longrightarrow> native_mul_loop v off = (word_of_nat (unat v * 10 ^ nat off), 0)"
proof (induction v off rule: native_mul_loop.induct)
  case (1 v off)
  show ?case
  proof (cases "0 < off")
    case True
    then have p: "unat v * 10 * 10 ^ nat (off - 1) = unat v * 10 ^ nat off"
      by (simp add: nat_diff_distrib mult.assoc flip: power_Suc)
    have "unat v * 10 * 1 \<le> unat v * 10 * 10 ^ nat (off - 1)" by (intro mult_left_mono) simp_all
    then have "unat v * 10 < 2 ^ 64" using 1(3) p by linarith
    then have "unat (v * 10) = unat v * 10" by (simp add: unat_word_ariths)
    then show ?thesis using 1 True p by (subst native_mul_loop.simps) simp
  qed (use 1 in \<open>subst native_mul_loop.simps, simp\<close>)
qed

lemma magnitude_nonneg [simp]: "0 \<le> magnitude a"
  unfolding magnitude_def by (rule mult_nonneg_nonneg [OF of_nat_0_le_iff]) simp

lemma canonicalize_native:
  assumes "isSWT_amount a" "mValue a \<noteq> 0" "magnitude a < 2 ^ 64"
  defines "n \<equiv> nat \<lfloor>magnitude a\<rfloor>"
  shows "canonicalize a = (if 10 ^ 17 < n then Inl (RuntimeError ''Native currency amount out of range'')
    else Inr (a\<lparr>mIsNative := True, mValue := word_of_nat n, mOffset := 0\<rparr>))" and "n < 2 ^ 64"
proof -
  show n: "n < 2 ^ 64" using assms(3) by (simp add: n_def floor_less_iff nat_less_iff)
  have "native_mul_loop (fst (native_div_loop (mValue a) (mOffset a))) (snd (native_div_loop (mValue a) (mOffset a))) =
      (word_of_nat n, 0)"
  proof (cases "mOffset a \<le> 0")
    case True
    have "magnitude a = real (unat (mValue a)) / real (10 ^ nat (- mOffset a))"
      using True by (simp add: magnitude_def power_int_def field_simps)
    then have "n = unat (mValue a) div 10 ^ nat (- mOffset a)"
      unfolding n_def by (simp only: floor_divide_of_nat_eq nat_int)
    then show ?thesis by (simp add: native_div_loop_eq [OF True] native_mul_loop.simps)
  next
    case False
    have m: "magnitude a = real (unat (mValue a) * 10 ^ nat (mOffset a))" using False by (simp add: magnitude_def power_int_def)
    have "n = unat (mValue a) * 10 ^ nat (mOffset a)" unfolding n_def m by (simp only: floor_of_nat nat_int)
    then show ?thesis using False n by (simp add: native_div_loop.simps native_mul_loop_eq)
  qed
  moreover have "(cMaxNativeN < (word_of_nat n :: u64)) = (10 ^ 17 < n)"
    using n by (simp add: word_less_nat_alt cMaxNativeN_def unsigned_of_nat take_bit_nat_eq_self)
  ultimately show "canonicalize a = (if 10 ^ 17 < n then Inl (RuntimeError ''Native currency amount out of range'')
    else Inr (a\<lparr>mIsNative := True, mValue := word_of_nat n, mOffset := 0\<rparr>))"
    using assms(1,2) by (simp add: canonicalize_def Let_def split_beta)
qed

text \<open>C4: canonicalize normalises every amount completely, but for a native one whose exponent would take it out of
64 bits. A zero becomes the canonical zero. An issued amount with a nonzero mantissa makes it throw
exactly when the magnitude is at least 10^96, is answered by zero exactly when the magnitude is below
10^-81, and otherwise the result is canonical (16-digit mantissa, exponent in range), keeps sign
and issue, and is the value truncated toward zero at the last digit kept. A native amount makes it throw exactly
when its value without the fraction is above 10^17, and otherwise loses its exponent and the fraction.\<close>

theorem canonicalize_truncates:
  assumes "isSWT_amount a \<longrightarrow> magnitude a < 2 ^ 64"
  shows "if mValue a = 0 then \<exists>b. canonicalize a = Inr b \<and> mIssue b = mIssue a \<and> canonical b \<and> mValue b = 0
    else if isSWT_amount a then
      if 10 ^ 17 + 1 \<le> magnitude a then canonicalize a = Inl (RuntimeError ''Native currency amount out of range'')
      else \<exists>b. canonicalize a = Inr b \<and> mIssue b = mIssue a \<and> mIsNative b \<and> mIsNegative b = mIsNegative a \<and>
        mOffset b = 0 \<and> magnitude b \<le> magnitude a \<and> magnitude a < magnitude b + 1
    else if 10 powi 96 \<le> magnitude a then canonicalize a = Inl (RuntimeError ''value overflow'')
    else \<exists>b. canonicalize a = Inr b \<and> mIssue b = mIssue a \<and> \<not> mIsNative b \<and>
      mIsNegative b = mIsNegative a \<and>
      (if magnitude a < 10 powi - 81 then mValue b = 0 \<and> mOffset b = 0
       else canonical b \<and> mValue b \<noteq> 0 \<and> magnitude b \<le> magnitude a \<and>
         magnitude a < magnitude b + 10 powi mOffset b)"
proof -
  consider (zero) "mValue a = 0" | (native) "mValue a \<noteq> 0" "isSWT_amount a" | (issued) "mValue a \<noteq> 0" "\<not> isSWT_amount a"
    by blast
  then show ?thesis
  proof cases
    case zero
    then show ?thesis by (auto simp: canonicalize_def canonical_def isSWT_amount_def Let_def const_unat word_le_nat_alt)
  next
    case native
    define n where "n = nat \<lfloor>magnitude a\<rfloor>"
    define b where "b = a\<lparr>mIsNative := True, mValue := word_of_nat n, mOffset := 0\<rparr>"
    note c = canonicalize_native [OF native(2,1) assms [rule_format, OF native(2)], folded n_def]
    have n: "real n \<le> magnitude a" "magnitude a < real n + 1" by (simp_all add: n_def)
    have "10 ^ 17 + 1 \<le> magnitude a \<longleftrightarrow> 10 ^ 17 < n"
    proof
      assume "10 ^ 17 + 1 \<le> magnitude a"
      then have "real (10 ^ 17) < real n" using n(2) by simp
      then show "10 ^ 17 < n" by (simp only: of_nat_less_iff)
    next
      assume "10 ^ 17 < n"
      then have "10 ^ 17 + 1 \<le> n" by simp
      then have "real (10 ^ 17 + 1) \<le> real n" by (simp only: of_nat_le_iff)
      then show "10 ^ 17 + 1 \<le> magnitude a" using n(1) by simp
    qed
    moreover have "magnitude b = real n" using c(2) by (simp add: b_def magnitude_def unsigned_of_nat take_bit_nat_eq_self)
    ultimately show ?thesis using native c(1) n by (auto simp: b_def)
  next
    case issued
    then show ?thesis using canonicalize_issued [OF issued(2,1)] by simp
  qed
qed

theorem canonicalize_truncates_witness:
  "\<exists>b. canonicalize \<lparr>mIssue = noIssue, mValue = 12345678901234567, mOffset = 0, mIsNative = False,
       mIsNegative = True\<rparr> = Inr b \<and> canonical b \<and> mIsNegative b \<and>
     magnitude b \<le> 12345678901234567 \<and> 12345678901234567 < magnitude b + 10 powi mOffset b"
proof -
  define a where "a = \<lparr>mIssue = noIssue, mValue = 12345678901234567, mOffset = 0, mIsNative = False,
    mIsNegative = True\<rparr>"
  have m: "magnitude a = 12345678901234567" by (simp add: a_def magnitude_def)
  have a: "\<not> isSWT_amount a" "mValue a \<noteq> 0"
    by (simp_all add: a_def isSWT_amount_def isSWT_def noIssue_def noCurrency_def)
  from canonicalize_truncates [of a] a show ?thesis
    by (auto simp: m power_int_minus a_def [symmetric]) (auto simp: a_def)
qed

text \<open>An amount in canonical form is a fixed point of canonicalize: normalisation is idempotent
and every canonical amount, native or issued, zero or not, is its own representative.\<close>

theorem canonicalize_idempotent:
  assumes "canonical a"
  shows "canonicalize a = Inr a"
  using assms by (rule canonical_fix)

theorem canonicalize_idempotent_witness:
  "canonicalize \<lparr>mIssue = noIssue, mValue = 1000000000000000, mOffset = -15, mIsNative = False,
     mIsNegative = False\<rparr> =
   Inr \<lparr>mIssue = noIssue, mValue = 1000000000000000, mOffset = -15, mIsNative = False,
     mIsNegative = False\<rparr>"
  by (rule canonicalize_idempotent)
    (simp add: canonical_def isSWT_amount_def isSWT_def noIssue_def noCurrency_def amount_consts)

text \<open>C8: Every canonical amount (a native one with the default issue, an issued one with a nonzero
issuer) that STAmount::add serializes is read back unchanged by the deserializing constructor,
which consumes exactly the bytes written.\<close>

theorem amount_wire_roundtrip:
  assumes "wire_amount a"
  shows "\<exists>it. STAmount_sit (SerialIter (mData (STAmount_add a \<lparr>mData = []\<rparr>) @ post)) = Inr (a, it) \<and>
    sit_rest it = post"
  using camount.get_fresh [OF assms, of post] by (simp add: amount_bytes_def)

theorem amount_wire_roundtrip_witness:
  "\<exists>it. STAmount_sit (SerialIter (mData (STAmount_add \<lparr>mIssue = \<lparr>currency = 5, account = 7\<rparr>,
      mValue = 1234567890123456, mOffset = -20, mIsNative = False, mIsNegative = True\<rparr> \<lparr>mData = []\<rparr>) @ [9])) =
    Inr (\<lparr>mIssue = \<lparr>currency = 5, account = 7\<rparr>, mValue = 1234567890123456, mOffset = -20,
      mIsNative = False, mIsNegative = True\<rparr>, it) \<and> sit_rest it = [9]"
  by (rule amount_wire_roundtrip)
    (simp add: wire_amount_def canonical_def isSWT_amount_def isSWT_def amount_consts)

text \<open>C29: The deserializing constructor accepts only well-formed amounts, and the wire form is not
malleable: whatever bytes it accepts are exactly those STAmount::add writes for the amount it
returns.\<close>

theorem amount_wire_canonical:
  assumes it: "sit_ok it" and res: "STAmount_sit it = Inr (a, it')"
  shows "(native_wire a \<or> wire_amount a) \<and>
    sit_rest it = mData (STAmount_add a \<lparr>mData = []\<rparr>) @ sit_rest it'"
proof -
  obtain val it1 where g: "sit_get64 it = Inr (val, it1)"
    using res by (auto simp: STAmount_sit_def bindE_eq_Inr)
  show ?thesis
    using STAmount_sit_native_InrD [OF it g _ res] STAmount_sit_issued_InrD [OF it g _ res]
    by (cases "val AND cNotNative = 0") (auto simp: amount_bytes_def)
qed

theorem amount_wire_canonical_witness:
  "STAmount_sit (SerialIter [0x40, 0, 0, 0, 0, 0, 0, 5]) =
     Inr (STAmount_u64 5 False, sit_advance 8 (SerialIter [0x40, 0, 0, 0, 0, 0, 0, 5])) \<and>
   mData (STAmount_add (STAmount_u64 5 False) \<lparr>mData = []\<rparr>) = [0x40, 0, 0, 0, 0, 0, 0, 5]"
proof -
  have r: "STAmount_sit (SerialIter [0x40, 0, 0, 0, 0, 0, 0, 5]) =
      Inr (STAmount_u64 5 False, sit_advance 8 (SerialIter [0x40, 0, 0, 0, 0, 0, 0, 5]))"
    by code_simp
  from amount_wire_canonical [OF sit_ok_SerialIter(1) r] r show ?thesis by simp
qed

end
