(* ===== verification/AmountArith.thy ===== *)
theory AmountArith
  imports Amount
begin

text \<open>
  Comparison, sums, products, quotients and rates of amounts, from
  \<open>protocol/impl/STAmount.cpp\<close>. Sums align the two mantissas by truncating division.
  Products and quotients go through a bignum, whose word operations are the parameter
  \<open>bn\<close>: each returns the success code and the new value, as OpenSSL's do.
\<close>

subsection \<open>Bignum words\<close>

record bn_ops =
  bn_add_word :: "nat \<Rightarrow> u64 \<Rightarrow> bool \<times> nat"
  bn_mul_word :: "nat \<Rightarrow> u64 \<Rightarrow> bool \<times> nat"
  bn_div_word :: "nat \<Rightarrow> u64 \<Rightarrow> u64 \<times> nat"
  bn_get_word :: "nat \<Rightarrow> u64"

definition BN_add_word64 :: "bn_ops \<Rightarrow> nat \<Rightarrow> u64 \<Rightarrow> bool \<times> nat" where
  "BN_add_word64 bn v w = bn_add_word bn v w"

definition BN_mul_word64 :: "bn_ops \<Rightarrow> nat \<Rightarrow> u64 \<Rightarrow> bool \<times> nat" where
  "BN_mul_word64 bn v w = bn_mul_word bn v w"

definition BN_div_word64 :: "bn_ops \<Rightarrow> nat \<Rightarrow> u64 \<Rightarrow> u64 \<times> nat" where
  "BN_div_word64 bn v w = bn_div_word bn v w"

definition getuint64 :: "bn_ops \<Rightarrow> nat \<Rightarrow> u64" where
  "getuint64 bn v = bn_get_word bn v"

subsection \<open>Native values\<close>

definition getSNValue :: "stamount \<Rightarrow> int result" where
  "getSNValue a =
     (if \<not> mIsNative a then Inl (RuntimeError ''amount is not native!'')
      else let ret = s64 (uint (mValue a))
           in Inr (if mIsNegative a then s64 (- ret) else ret))"

definition getNValue :: "stamount \<Rightarrow> u64 result" where
  "getNValue a =
     (if \<not> mIsNative a then Inl (RuntimeError ''amount is not native!'')
      else if mIsNegative a then Inl (RuntimeError ''amount is negative!'')
      else Inr (mValue a))"

subsection \<open>Comparison\<close>

definition isComparable :: "stamount \<Rightarrow> stamount \<Rightarrow> bool" where
  "isComparable a t =
     (if mIsNative a then mIsNative t
      else if mIsNative t then False
      else currency (mIssue a) = currency (mIssue t))"

definition throwComparable :: "stamount \<Rightarrow> stamount \<Rightarrow> unit result" where
  "throwComparable a t =
     (if \<not> isComparable a t then Inl (RuntimeError ''amounts are not comparable'') else Inr ())"

definition compare_amount :: "stamount \<Rightarrow> stamount \<Rightarrow> int" where
  "compare_amount lhs rhs =
     (if mIsNegative lhs \<noteq> mIsNegative rhs then (if mIsNegative lhs then -1 else 1)
      else if mValue lhs = 0 then
        (if mIsNegative rhs then 1 else if mValue rhs \<noteq> 0 then -1 else 0)
      else if mValue rhs = 0 then 1
      else if mOffset lhs > mOffset rhs then (if mIsNegative lhs then -1 else 1)
      else if mOffset lhs < mOffset rhs then (if mIsNegative lhs then 1 else -1)
      else if mValue lhs > mValue rhs then (if mIsNegative lhs then -1 else 1)
      else if mValue lhs < mValue rhs then (if mIsNegative lhs then 1 else -1)
      else 0)"

definition amount_eq :: "stamount \<Rightarrow> stamount \<Rightarrow> bool" where
  "amount_eq lhs rhs =
     (isComparable lhs rhs \<and> mIsNegative lhs = mIsNegative rhs \<and>
      mOffset lhs = mOffset rhs \<and> mValue lhs = mValue rhs)"

definition amount_neq :: "stamount \<Rightarrow> stamount \<Rightarrow> bool" where
  "amount_neq lhs rhs =
     (mOffset lhs \<noteq> mOffset rhs \<or> mValue lhs \<noteq> mValue rhs \<or>
      mIsNegative lhs \<noteq> mIsNegative rhs \<or> \<not> isComparable lhs rhs)"

definition amount_less :: "stamount \<Rightarrow> stamount \<Rightarrow> bool result" where
  "amount_less lhs rhs = bindE (throwComparable lhs rhs) (\<lambda>_. Inr (compare_amount lhs rhs < 0))"

definition amount_greater :: "stamount \<Rightarrow> stamount \<Rightarrow> bool result" where
  "amount_greater lhs rhs = bindE (throwComparable lhs rhs) (\<lambda>_. Inr (compare_amount lhs rhs > 0))"

definition amount_le :: "stamount \<Rightarrow> stamount \<Rightarrow> bool result" where
  "amount_le lhs rhs = bindE (throwComparable lhs rhs) (\<lambda>_. Inr (compare_amount lhs rhs \<le> 0))"

definition amount_ge :: "stamount \<Rightarrow> stamount \<Rightarrow> bool result" where
  "amount_ge lhs rhs = bindE (throwComparable lhs rhs) (\<lambda>_. Inr (compare_amount lhs rhs \<ge> 0))"

definition amount_less_u64 :: "stamount \<Rightarrow> u64 \<Rightarrow> bool result" where
  "amount_less_u64 lhs rhs = bindE (getSNValue lhs) (\<lambda>v. Inr (v < s64 (uint rhs)))"

definition amount_greater_u64 :: "stamount \<Rightarrow> u64 \<Rightarrow> bool result" where
  "amount_greater_u64 lhs rhs = bindE (getSNValue lhs) (\<lambda>v. Inr (v > s64 (uint rhs)))"

definition amount_le_u64 :: "stamount \<Rightarrow> u64 \<Rightarrow> bool result" where
  "amount_le_u64 lhs rhs = bindE (getSNValue lhs) (\<lambda>v. Inr (v \<le> s64 (uint rhs)))"

definition amount_ge_u64 :: "stamount \<Rightarrow> u64 \<Rightarrow> bool result" where
  "amount_ge_u64 lhs rhs = bindE (getSNValue lhs) (\<lambda>v. Inr (v \<ge> s64 (uint rhs)))"

definition amount_add_u64 :: "stamount \<Rightarrow> u64 \<Rightarrow> stamount result" where
  "amount_add_u64 lhs rhs =
     bindE (getSNValue lhs) (\<lambda>v. Inr (STAmount_int64 (s64 (v + s64 (uint rhs)))))"

definition amount_sub_u64 :: "stamount \<Rightarrow> u64 \<Rightarrow> stamount result" where
  "amount_sub_u64 lhs rhs =
     bindE (getSNValue lhs) (\<lambda>v. Inr (STAmount_int64 (s64 (v - s64 (uint rhs)))))"

definition amount_uminus :: "stamount \<Rightarrow> stamount" where
  "amount_uminus v =
     (if mValue v = 0 then v
      else STAmount_unchecked (mIssue v) (mValue v) (mOffset v) (mIsNative v) (\<not> mIsNegative v))"

subsection \<open>Sums\<close>

text \<open>The two alignment loops: divide the mantissa of the smaller exponent until it is the other one.\<close>

function align_loop :: "int \<Rightarrow> int \<Rightarrow> int \<Rightarrow> int \<times> int" where
  "align_loop vv ov target = (if ov < target then align_loop (vv sdiv 10) (ov + 1) target else (vv, ov))"
  by auto
termination by (relation "measure (\<lambda>(vv, ov, target). nat (target - ov))") auto

declare align_loop.simps [simp del]

definition signed_mantissa :: "stamount \<Rightarrow> int" where
  "signed_mantissa a =
     (let vv = s64 (uint (mValue a)) in if mIsNegative a then s64 (- vv) else vv)"

definition amount_of_int64 :: "issue \<Rightarrow> int \<Rightarrow> int \<Rightarrow> stamount result" where
  "amount_of_int64 iss fv ov =
     (if fv \<ge> -10 \<and> fv \<le> 10 then STAmount_issue iss 0 0 False
      else if fv \<ge> 0 then STAmount_issue iss (word_of_int fv) ov False
      else STAmount_issue iss (word_of_int (- fv)) ov True)"

definition amount_add :: "stamount \<Rightarrow> stamount \<Rightarrow> stamount result" where
  "amount_add v1 v2 =
     bindE (throwComparable v1 v2) (\<lambda>_.
       if is_zero v2 then Inr v1
       else if is_zero v1 then
         STAmount_issue (mIssue v1) (mValue v2) (mOffset v2) (mIsNegative v2)
       else if mIsNative v1 then
         bindE (getSNValue v1) (\<lambda>x. bindE (getSNValue v2) (\<lambda>y.
           Inr (STAmount_int64 (s64 (x + y)))))
       else
         let (vv1, ov1) = align_loop (signed_mantissa v1) (mOffset v1) (mOffset v2);
             (vv2, ov2) = align_loop (signed_mantissa v2) (mOffset v2) ov1
         in amount_of_int64 (mIssue v1) (s64 (vv1 + vv2)) ov1)"

definition amount_sub :: "stamount \<Rightarrow> stamount \<Rightarrow> stamount result" where
  "amount_sub v1 v2 =
     bindE (throwComparable v1 v2) (\<lambda>_.
       if is_zero v2 then Inr v1
       else if mIsNative v2 then
         bindE (getSNValue v1) (\<lambda>x. bindE (getSNValue v2) (\<lambda>y.
           Inr (createFromInt64 (s64 (x - y)))))
       else
         let (vv1, ov1) = align_loop (signed_mantissa v1) (mOffset v1) (mOffset v2);
             (vv2, ov2) = align_loop (signed_mantissa v2) (mOffset v2) ov1
         in amount_of_int64 (mIssue v1) (s64 (vv1 - vv2)) ov1)"

subsection \<open>Products and quotients\<close>

text \<open>
  The loop that brings a native mantissa into the range of the issued ones. On zero it
  would not end; every caller returns before when an operand is zero.
\<close>

function range_loop :: "u64 \<Rightarrow> int \<Rightarrow> u64 \<times> int" where
  "range_loop v off =
     (if v < cMinValue \<and> v \<noteq> 0 then range_loop (v * 10) (off - 1) else (v, off))"
  by auto
termination
proof (relation "measure (\<lambda>(v, off). nat (10 ^ 16 - uint v))", simp)
  fix v :: u64 and off :: int
  assume a: "v < cMinValue \<and> v \<noteq> 0"
  then have "uint v < 10 ^ 15" by (simp add: word_less_def cMinValue_def)
  moreover have "0 < uint v" using a by (simp add: word_neq_0_conv word_less_def)
  moreover from calculation have "uint (v * 10) = uint v * 10"
    by (simp add: uint_word_ariths)
  ultimately show "((v * 10, off - 1), v, off) \<in> measure (\<lambda>(v, off). nat (10 ^ 16 - uint v))"
    by simp
qed

declare range_loop.simps [simp del]

definition native_range :: "stamount \<Rightarrow> u64 \<times> int" where
  "native_range a =
     (if mIsNative a then range_loop (mValue a) (mOffset a) else (mValue a, mOffset a))"

definition bn_error :: cxx_error where
  "bn_error = RuntimeError ''internal bn error''"

definition STAmount_divide :: "bn_ops \<Rightarrow> stamount \<Rightarrow> stamount \<Rightarrow> issue \<Rightarrow> stamount result" where
  "STAmount_divide bn num den iss =
     (if is_zero den then Inl (RuntimeError ''division by zero'')
      else if is_zero num then STAmount_issue iss 0 0 False
      else
        let (numVal, numOffset) = native_range num;
            (denVal, denOffset) = native_range den;
            (ok1, v) = BN_add_word64 bn 0 numVal;
            (ok2, v) = BN_mul_word64 bn v tenTo17;
            (rem, v) = BN_div_word64 bn v denVal
        in if \<not> ok1 \<or> \<not> ok2 \<or> rem = -1 then Inl bn_error
           else STAmount_issue iss (getuint64 bn v + 5) (numOffset - denOffset - 17)
                  (mIsNegative num \<noteq> mIsNegative den))"

text \<open>The product of two native amounts, with the guards against overflow.\<close>

definition native_product :: "stamount \<Rightarrow> stamount \<Rightarrow> stamount result" where
  "native_product v1 v2 =
     bindE (getSNValue v1) (\<lambda>x. bindE (getSNValue v2) (\<lambda>y.
       let minV = (word_of_int (if x < y then x else y) :: u64);
           maxV = (word_of_int (if x < y then y else x) :: u64)
       in if minV > 3000000000 then Inl (RuntimeError ''Native value overflow'')
          else if drop_bit 32 maxV * minV > 2095475792
          then Inl (RuntimeError ''Native value overflow'')
          else Inr (STAmount_named (minV * maxV) False)))"

definition multiply :: "bn_ops \<Rightarrow> stamount \<Rightarrow> stamount \<Rightarrow> issue \<Rightarrow> stamount result" where
  "multiply bn v1 v2 iss =
     (if is_zero v1 \<or> is_zero v2 then STAmount_issue iss 0 0 False
      else if mIsNative v1 \<and> mIsNative v2 \<and> isSWT (currency iss) then native_product v1 v2
      else
        let (value1, offset1) = native_range v1;
            (value2, offset2) = native_range v2;
            (ok1, v) = BN_add_word64 bn 0 value1;
            (ok2, v) = BN_mul_word64 bn v value2;
            (rem, v) = BN_div_word64 bn v tenTo14
        in if \<not> ok1 \<or> \<not> ok2 \<or> rem = -1 then Inl bn_error
           else STAmount_issue iss (getuint64 bn v + 7) (offset1 + offset2 + 14)
                  (mIsNegative v1 \<noteq> mIsNegative v2))"

function round_native_loop :: "u64 \<Rightarrow> int \<Rightarrow> int \<Rightarrow> u64 \<times> int \<times> int" where
  "round_native_loop v off loops =
     (if off < -1 then round_native_loop (v div 10) (off + 1) (loops + 1) else (v, off, loops))"
  by auto
termination by (relation "measure (\<lambda>(v, off, loops). nat (- off))") auto

function round_iou_loop :: "u64 \<Rightarrow> int \<Rightarrow> u64 \<times> int" where
  "round_iou_loop v off =
     (if v > 10 * cMaxValue then round_iou_loop (v div 10) (off + 1) else (v, off))"
  by auto
termination
proof (relation "measure (\<lambda>(v, off). unat v)", simp)
  fix v :: u64 and off :: int
  assume "10 * cMaxValue < v"
  then have "0 < unat v" by (simp add: word_less_nat_alt)
  then show "((v div 10, off + 1), v, off) \<in> measure (\<lambda>(v, off). unat v)"
    by (simp add: unat_div)
qed

declare round_native_loop.simps [simp del] round_iou_loop.simps [simp del]

definition canonicalizeRound :: "bool \<Rightarrow> u64 \<Rightarrow> int \<Rightarrow> bool \<Rightarrow> u64 \<times> int" where
  "canonicalizeRound native val offset roundUp =
     (if \<not> roundUp then (val, offset)
      else if native then
        if offset < 0 then
          let (val, offset, loops) = round_native_loop val offset 0;
              val = val + (if loops \<ge> 2 then 9 else 10);
              val = val div 10
          in (val, offset + 1)
        else (val, offset)
      else if val > cMaxValue then
        let (val, offset) = round_iou_loop val offset;
            val = val + 9;
            val = val div 10
        in (val, offset + 1)
      else (val, offset))"

definition mulRound :: "bn_ops \<Rightarrow> stamount \<Rightarrow> stamount \<Rightarrow> issue \<Rightarrow> bool \<Rightarrow> stamount result" where
  "mulRound bn v1 v2 iss roundUp =
     (if is_zero v1 \<or> is_zero v2 then STAmount_issue iss 0 0 False
      else if mIsNative v1 \<and> mIsNative v2 \<and> isSWT (currency iss) then native_product v1 v2
      else
        let (value1, offset1) = native_range v1;
            (value2, offset2) = native_range v2;
            resultNegative = (mIsNegative v1 \<noteq> mIsNegative v2);
            (ok1, v) = BN_add_word64 bn 0 value1;
            (ok2, v) = BN_mul_word64 bn v value2
        in if \<not> ok1 \<or> \<not> ok2 then Inl bn_error
           else
             let v = (if resultNegative \<noteq> roundUp then snd (BN_add_word64 bn v tenTo14m1) else v);
                 (rem, v) = BN_div_word64 bn v tenTo14
             in if rem = -1 then Inl bn_error
                else
                  let (amount, offset) =
                        canonicalizeRound (isSWT (currency iss)) (getuint64 bn v)
                          (offset1 + offset2 + 14) (resultNegative \<noteq> roundUp)
                  in STAmount_issue iss amount offset resultNegative)"

definition divRound :: "bn_ops \<Rightarrow> stamount \<Rightarrow> stamount \<Rightarrow> issue \<Rightarrow> bool \<Rightarrow> stamount result" where
  "divRound bn num den iss roundUp =
     (if is_zero den then Inl (RuntimeError ''division by zero'')
      else if is_zero num then STAmount_issue iss 0 0 False
      else
        let (numVal, numOffset) = native_range num;
            (denVal, denOffset) = native_range den;
            resultNegative = (mIsNegative num \<noteq> mIsNegative den);
            (ok1, v) = BN_add_word64 bn 0 numVal;
            (ok2, v) = BN_mul_word64 bn v tenTo17
        in if \<not> ok1 \<or> \<not> ok2 then Inl bn_error
           else
             let v = (if resultNegative \<noteq> roundUp then snd (BN_add_word64 bn v (denVal - 1)) else v);
                 (rem, v) = BN_div_word64 bn v denVal
             in if rem = -1 then Inl bn_error
                else
                  let (amount, offset) =
                        canonicalizeRound (isSWT (currency iss)) (getuint64 bn v)
                          (numOffset - denOffset - 17) (resultNegative \<noteq> roundUp)
                  in STAmount_issue iss amount offset resultNegative)"

subsection \<open>Rates\<close>

definition getRate :: "bn_ops \<Rightarrow> stamount \<Rightarrow> stamount \<Rightarrow> u64" where
  "getRate bn offerOut offerIn =
     (if is_zero offerOut then 0
      else case STAmount_divide bn offerIn offerOut noIssue of
             Inl _ \<Rightarrow> 0
           | Inr r \<Rightarrow>
               if is_zero r then 0
               else let ret = (word_of_int (mOffset r + 100) :: u64)
                    in push_bit 56 ret OR mValue r)"

definition uRateOne :: "bn_ops \<Rightarrow> u64" where
  "uRateOne bn = getRate bn (STAmount_u64 1 False) (STAmount_u64 1 False)"

definition amountFromRate :: "u64 \<Rightarrow> stamount result" where
  "amountFromRate uRate = STAmount_issue noIssue uRate (-9) False"

definition amountFromQuality :: "u64 \<Rightarrow> stamount result" where
  "amountFromQuality rate =
     (if rate = 0 then STAmount_issue noIssue 0 0 False
      else let mantissa = rate AND NOT (push_bit 56 255);
               exponent = uint (drop_bit 56 rate) - 100
           in STAmount_issue noIssue mantissa exponent False)"

definition isUserTum :: "Currency \<Rightarrow> bool" where
  "isUserTum cur = (compare_uint cur 0x8000000000000000000000000000000000000000 \<ge> 0)"

definition bn_exact :: "bn_ops \<Rightarrow> bool" where
  "bn_exact bn \<longleftrightarrow>
     (\<forall>v w. bn_add_word bn v w = (True, v + unat w)) \<and>
     (\<forall>v w. bn_mul_word bn v w = (True, v * unat w)) \<and>
     (\<forall>v w. w \<noteq> 0 \<longrightarrow> bn_div_word bn v w = (word_of_nat (v mod unat w), v div unat w)) \<and>
     (\<forall>v. v < 2 ^ 64 \<longrightarrow> bn_get_word bn v = word_of_nat v)"

definition sign_of :: "stamount \<Rightarrow> int" where
  "sign_of a = (if mIsNegative a then -1 else 1)"

definition native_small :: "stamount \<Rightarrow> bool" where
  "native_small a = (mIsNative a \<and> isSWT_amount a \<and> mOffset a = 0 \<and> unat (mValue a) < 2 ^ 62)"

definition aligned :: "stamount \<Rightarrow> int \<Rightarrow> nat" where
  "aligned a m = unat (mValue a) div 10 ^ nat (m - mOffset a)"

definition rate_word :: "stamount \<Rightarrow> u64" where
  "rate_word r = push_bit 56 (word_of_int (mOffset r + 100)) OR mValue r"

definition bn_nat :: bn_ops where
  "bn_nat = \<lparr>bn_add_word = (\<lambda>v w. (True, v + unat w)), bn_mul_word = (\<lambda>v w. (True, v * unat w)),
     bn_div_word = (\<lambda>v w. (word_of_nat (v mod unat w), v div unat w)), bn_get_word = word_of_nat\<rparr>"

declare of_nat_unat [simp del]

lemma magnitude_zero_iff [simp]: "magnitude a = 0 \<longleftrightarrow> mValue a = 0"
  unfolding magnitude_def mult_eq_0_iff of_nat_eq_0_iff by (simp add: unat_eq_0)

lemma is_zero_iff [simp]: "is_zero a \<longleftrightarrow> mValue a = 0"
  by (simp add: is_zero_def signum_def)

lemma amount_value_zero_iff [simp]: "amount_value a = 0 \<longleftrightarrow> mValue a = 0"
  by (simp add: amount_value_def)

lemma canonical_issuedD:
  assumes "canonical a" "\<not> mIsNative a" "mValue a \<noteq> 0"
  shows "10 ^ 15 \<le> unat (mValue a)" "unat (mValue a) < 10 ^ 16" "-96 \<le> mOffset a" "mOffset a \<le> 80"
  using assms by (auto simp: canonical_def const_unat cMinOffset_def cMaxOffset_def split: if_splits)

lemma canonical_nativeD:
  assumes "canonical a" "mIsNative a"
  shows "isSWT_amount a" "mOffset a = 0" "unat (mValue a) \<le> 10 ^ 17" "mValue a = 0 \<Longrightarrow> \<not> mIsNegative a"
  using assms by (auto simp: canonical_def const_unat split: if_splits)

lemma canonical_zero: "canonical a \<Longrightarrow> mValue a = 0 \<Longrightarrow> \<not> mIsNegative a"
  by (auto simp: canonical_def split: if_splits)

lemma native_iff_SWT: "canonical a \<Longrightarrow> mIsNative a = isSWT_amount a"
  by (auto simp: canonical_def split: if_splits)

lemma isComparable_native: "isComparable a b \<Longrightarrow> mIsNative a = mIsNative b"
  by (auto simp: isComparable_def split: if_splits)

lemma magnitude_exponent_less:
  assumes a: "canonical a" "\<not> mIsNative a" "mValue a \<noteq> 0"
    and b: "canonical b" "\<not> mIsNative b" "mValue b \<noteq> 0" and lt: "mOffset a < mOffset b"
  shows "magnitude a < magnitude b"
proof -
  have "magnitude a < real (10 ^ 16) * 10 powi mOffset a"
    unfolding magnitude_def using canonical_issuedD [OF a] by (intro nat_mag_less) simp_all
  also have "\<dots> = real (10 ^ 15) * 10 powi (mOffset a + 1)"
    by (simp add: power_int_add)
  also have "\<dots> \<le> magnitude b"
    unfolding magnitude_def using canonical_issuedD [OF b] lt by (intro nat_mag_bounds) simp_all
  finally show ?thesis .
qed

lemma magnitude_mantissa_less:
  "mOffset a = mOffset b \<Longrightarrow> mValue a < mValue b \<Longrightarrow> magnitude a < magnitude b"
  unfolding magnitude_def by (simp only: word_less_nat_alt) (intro nat_mag_less, simp_all)

lemma compare_same_sign:
  assumes "canonical a" "canonical b" "isComparable a b" "mIsNegative a = mIsNegative b"
    "mValue a \<noteq> 0" "mValue b \<noteq> 0"
  shows "compare_amount a b =
    (if magnitude a < magnitude b then if mIsNegative a then 1 else -1
     else if magnitude b < magnitude a then if mIsNegative a then -1 else 1 else 0)"
proof -
  have nat: "mIsNative a = mIsNative b" using assms(3) by (rule isComparable_native)
  consider "mOffset a < mOffset b" | "mOffset b < mOffset a" | "mOffset a = mOffset b" by linarith
  then show ?thesis
  proof cases
    case 1
    then have "\<not> mIsNative a" using assms nat canonical_nativeD(2) by force
    with 1 magnitude_exponent_less [of a b] assms nat show ?thesis by (auto simp: compare_amount_def)
  next
    case 2
    then have "\<not> mIsNative a" using assms nat canonical_nativeD(2) by force
    with 2 magnitude_exponent_less [of b a] assms nat show ?thesis by (auto simp: compare_amount_def)
  next
    case 3
    show ?thesis
    proof (cases "mValue a = mValue b")
      case True
      with 3 have "magnitude a = magnitude b" by (simp only: magnitude_def)
      with 3 True assms(4-6) show ?thesis by (simp add: compare_amount_def)
    next
      case False
      have "mValue a < mValue b \<and> \<not> mValue b < mValue a \<and> magnitude a < magnitude b \<or>
          mValue b < mValue a \<and> \<not> mValue a < mValue b \<and> magnitude b < magnitude a"
        using False 3 magnitude_mantissa_less [of a b] magnitude_mantissa_less [of b a]
          less_linear [of "mValue a" "mValue b"] less_asym [of "mValue a" "mValue b"] by metis
      with 3 assms(4-6) show ?thesis by (elim disjE) (simp_all add: compare_amount_def)
    qed
  qed
qed

lemma compare_amount_value:
  assumes "canonical a" "canonical b" "isComparable a b"
  shows "compare_amount a b =
    (if amount_value a < amount_value b then -1 else if amount_value b < amount_value a then 1 else 0)"
proof (cases "mIsNegative a = mIsNegative b \<and> mValue a \<noteq> 0 \<and> mValue b \<noteq> 0")
  case True
  with compare_same_sign [OF assms] show ?thesis by (auto simp: amount_value_def)
next
  case False
  have pos: "0 < magnitude c \<longleftrightarrow> mValue c \<noteq> 0" for c
    using magnitude_nonneg [of c] magnitude_zero_iff [of c] by linarith
  have z: "mValue c = 0 \<Longrightarrow> magnitude c = 0" for c by simp
  show ?thesis
    using False canonical_zero [OF assms(1)] canonical_zero [OF assms(2)] pos [of a] pos [of b]
    by (auto simp: compare_amount_def amount_value_def z not_less)
qed

lemma sdiv_sign_nat:
  "\<bar>s\<bar> = 1 \<Longrightarrow> (s * int n) sdiv 10 = s * int (n div 10)"
  by (cases "n = 0") (auto simp: signed_divide_int_def sgn_mult abs_mult zdiv_int abs_if split: if_splits)

lemma align_loop_spec:
  assumes "\<bar>s\<bar> = 1"
  shows "align_loop (s * int n) ov t = (s * int (n div 10 ^ nat (t - ov)), max ov t)"
proof (induction k \<equiv> "nat (t - ov)" arbitrary: n ov)
  case 0
  then show ?case by (subst align_loop.simps) (simp add: max_def)
next
  case (Suc k)
  then have lt: "ov < t" "nat (t - (ov + 1)) = k" by simp_all
  have "nat (t - ov) = Suc k" using Suc(2) by simp
  moreover have "n div 10 ^ Suc k = n div 10 div 10 ^ k" by (simp add: div_mult2_eq)
  ultimately show ?case
    using lt Suc(1) [of "ov + 1" "n div 10"] assms
    by (subst align_loop.simps) (simp add: sdiv_sign_nat max_def)
qed

lemma sign_of_abs [simp]: "\<bar>sign_of a\<bar> = 1"
  by (simp add: sign_of_def)

lemma s64_nat: "n < 2 ^ 63 \<Longrightarrow> s64 (int n) = int n" "n < 2 ^ 63 \<Longrightarrow> s64 (- int n) = - int n"
  by (intro s64_id; simp)+

lemma signed_mantissa_eq:
  assumes "unat (mValue a) < 2 ^ 63"
  shows "signed_mantissa a = sign_of a * int (unat (mValue a))"
  unfolding signed_mantissa_def uint_nat s64_nat [OF assms] Let_def sign_of_def by simp

lemma amount_value_signed: "amount_value a = of_int (sign_of a) * real (unat (mValue a)) * 10 powi mOffset a"
  by (simp add: amount_value_def magnitude_def sign_of_def)

lemma canonical_small: "canonical a \<Longrightarrow> unat (mValue a) < 2 ^ 62"
  by (cases "mIsNative a"; cases "mValue a = 0")
    (auto dest: canonical_nativeD canonical_issuedD)

lemma getSNValue_eq:
  assumes "canonical a" "mIsNative a"
  shows "getSNValue a = Inr (sign_of a * int (unat (mValue a)))"
proof -
  have "unat (mValue a) < 2 ^ 63" using canonical_small [OF assms(1)] by simp
  from signed_mantissa_eq [OF this] assms(2) show ?thesis
    by (simp only: getSNValue_def signed_mantissa_def Let_def) simp
qed

lemma native_value: "canonical a \<Longrightarrow> mIsNative a \<Longrightarrow> amount_value a = of_int (sign_of a * int (unat (mValue a)))"
  by (simp add: amount_value_signed canonical_nativeD)

lemma int64_amounts:
  assumes "\<bar>z\<bar> < 2 ^ 63"
  shows "amount_value (STAmount_int64 z) = of_int z" "amount_value (createFromInt64 z) = of_int z"
    "mIsNative (STAmount_int64 z)" "mIsNative (createFromInt64 z)"
proof -
  have "unat (word_of_int z :: u64) = nat z" if "0 \<le> z"
    using assms that by (simp add: unsigned_of_int take_bit_int_eq_self)
  moreover have "unat (word_of_int w :: u64) = nat w" if "0 \<le> w" "w < 2 ^ 63" for w
    using that by (simp add: unsigned_of_int take_bit_int_eq_self)
  note this [of "- z"]
  ultimately show "amount_value (STAmount_int64 z) = of_int z" "amount_value (createFromInt64 z) = of_int z"
    using assms
    by (auto simp: amount_value_signed sign_of_def STAmount_int64_def createFromInt64_def STAmount_named_def
        set_int64_def)
qed (simp_all add: STAmount_int64_def createFromInt64_def STAmount_named_def set_int64_def)

lemma native_sum_bound:
  "canonical a \<Longrightarrow> mIsNative a \<Longrightarrow> \<bar>sign_of a * int (unat (mValue a))\<bar> \<le> 10 ^ 17"
  using canonical_nativeD(3) [of a] by (simp add: abs_mult)

lemma STAmount_issue_canonical:
  assumes "canonical \<lparr>mIssue = iss, mValue = v, mOffset = e, mIsNative = isSWT (currency iss), mIsNegative = neg\<rparr>"
  shows "STAmount_issue iss v e neg =
    Inr \<lparr>mIssue = iss, mValue = v, mOffset = e, mIsNative = isSWT (currency iss), mIsNegative = neg\<rparr>"
  using canonical_fix [OF assms]
  by (auto simp: STAmount_issue_def canonicalize_def isSWT_amount_def Let_def)

lemma canonical_reissue:
  assumes "canonical b" "isSWT (currency iss) = mIsNative b"
  shows "STAmount_issue iss (mValue b) (mOffset b) (mIsNegative b) = Inr (b\<lparr>mIssue := iss\<rparr>)"
proof -
  have "canonical \<lparr>mIssue = iss, mValue = mValue b, mOffset = mOffset b, mIsNative = isSWT (currency iss),
      mIsNegative = mIsNegative b\<rparr>"
    using assms native_iff_SWT [OF assms(1)] by (auto simp: canonical_def isSWT_amount_def split: if_splits)
  from STAmount_issue_canonical [OF this] assms(2) show ?thesis by (cases b) simp
qed

lemma amount_value_reissue [simp]: "amount_value (b\<lparr>mIssue := iss\<rparr>) = amount_value b"
  by (simp add: amount_value_def magnitude_def)

lemma native_small_value:
  assumes "native_small a"
  shows "getSNValue a = Inr (sign_of a * int (unat (mValue a)))" "amount_value a = of_int (sign_of a * int (unat (mValue a)))"
    "\<bar>sign_of a * int (unat (mValue a))\<bar> < 2 ^ 62"
proof -
  have u: "unat (mValue a) < 2 ^ 63" "unat (mValue a) < 2 ^ 62" using assms by (simp_all add: native_small_def)
  show "getSNValue a = Inr (sign_of a * int (unat (mValue a)))"
    using signed_mantissa_eq [OF u(1)] assms by (simp only: getSNValue_def signed_mantissa_def Let_def native_small_def) simp
  show "amount_value a = of_int (sign_of a * int (unat (mValue a)))"
    using assms by (simp add: amount_value_signed native_small_def)
  show "\<bar>sign_of a * int (unat (mValue a))\<bar> < 2 ^ 62" using u(2) by (simp add: abs_mult)
qed

lemma canonical_native_small: "canonical a \<Longrightarrow> mIsNative a \<Longrightarrow> native_small a"
  using canonical_nativeD [of a] by (simp add: native_small_def)

lemma native_small_add:
  assumes "native_small a" "native_small b"
  shows "if mValue a = 0 \<and> cMaxNativeN < mValue b
    then amount_add a b = Inl (RuntimeError ''Native currency amount out of range'')
    else \<exists>c. amount_add a b = Inr c \<and> mIsNative c \<and> amount_value c = amount_value a + amount_value b"
proof -
  define x y where "x = sign_of a * int (unat (mValue a))" and "y = sign_of b * int (unat (mValue b))"
  note a = native_small_value [OF assms(1), folded x_def] and b = native_small_value [OF assms(2), folded y_def]
  have bnd: "\<bar>x + y\<bar> < 2 ^ 63" using a(3) b(3) by simp
  then have s: "s64 (x + y) = x + y" by (simp add: s64_id)
  have n: "mIsNative a" "mIsNative b" "mOffset b = 0" "isSWT (currency (mIssue a))"
    using assms by (simp_all add: native_small_def isSWT_amount_def)
  have cmp: "throwComparable a b = Inr ()" using n by (simp add: throwComparable_def isComparable_def)
  consider "mValue b = 0" | "mValue b \<noteq> 0" "mValue a = 0" | "mValue b \<noteq> 0" "mValue a \<noteq> 0" by blast
  then show ?thesis
  proof cases
    case 1
    then have "amount_value b = 0" by simp
    with 1 cmp n show ?thesis by (simp add: amount_add_def)
  next
    case 2
    then have "amount_value a = 0" by simp
    moreover have "STAmount_issue (mIssue a) (mValue b) 0 (mIsNegative b) =
        (if cMaxNativeN < mValue b then Inl (RuntimeError ''Native currency amount out of range'')
         else Inr \<lparr>mIssue = mIssue a, mValue = mValue b, mOffset = 0, mIsNative = True, mIsNegative = mIsNegative b\<rparr>)"
      using 2 n(4) by (simp add: STAmount_issue_def canonicalize_def isSWT_amount_def native_div_loop.simps native_mul_loop.simps Let_def)
    moreover have "amount_value \<lparr>mIssue = i, mValue = mValue b, mOffset = 0, mIsNative = True, mIsNegative = mIsNegative b\<rparr> =
        amount_value b" for i
      using n(3) by (simp add: amount_value_def magnitude_def)
    ultimately show ?thesis using 2 cmp n(3) by (simp add: amount_add_def)
  next
    case 3
    with cmp a(1) b(1) n s have "amount_add a b = Inr (STAmount_int64 (x + y))" by (simp add: amount_add_def)
    with int64_amounts [OF bnd] a(2) b(2) 3 show ?thesis by simp
  qed
qed

lemma native_small_sub:
  assumes "native_small a" "native_small b"
  shows "\<exists>c. amount_sub a b = Inr c \<and> mIsNative c \<and> amount_value c = amount_value a - amount_value b"
proof -
  define x y where "x = sign_of a * int (unat (mValue a))" and "y = sign_of b * int (unat (mValue b))"
  note a = native_small_value [OF assms(1), folded x_def] and b = native_small_value [OF assms(2), folded y_def]
  have bnd: "\<bar>x - y\<bar> < 2 ^ 63" using a(3) b(3) by simp
  then have s: "s64 (x - y) = x - y" by (simp add: s64_id)
  have n: "mIsNative a" "mIsNative b" using assms by (simp_all add: native_small_def)
  have cmp: "throwComparable a b = Inr ()" using n by (simp add: throwComparable_def isComparable_def)
  show ?thesis
  proof (cases "mValue b = 0")
    case True
    then have "amount_value b = 0" by simp
    with True cmp n show ?thesis by (simp add: amount_sub_def)
  next
    case False
    with cmp a(1) b(1) n s have "amount_sub a b = Inr (createFromInt64 (x - y))" by (simp add: amount_sub_def)
    with int64_amounts [OF bnd] a(2) b(2) show ?thesis by simp
  qed
qed

lemma native_add:
  assumes "canonical a" "mIsNative a" "canonical b" "mIsNative b"
  shows "\<exists>c. amount_add a b = Inr c \<and> mIsNative c \<and> amount_value c = amount_value a + amount_value b"
proof -
  have "\<not> cMaxNativeN < mValue b" using canonical_nativeD(3) [OF assms(3,4)] by (simp add: word_less_nat_alt cMaxNativeN_def)
  then show ?thesis
    using native_small_add [OF canonical_native_small [OF assms(1,2)] canonical_native_small [OF assms(3,4)]] by simp
qed

lemma native_sub:
  assumes "canonical a" "mIsNative a" "canonical b" "mIsNative b"
  shows "\<exists>c. amount_sub a b = Inr c \<and> mIsNative c \<and> amount_value c = amount_value a - amount_value b"
  by (rule native_small_sub) (simp_all add: assms canonical_native_small)

lemma amount_of_int64_spec:
  assumes iss: "\<not> isSWT (currency iss)" and fv: "\<bar>fv\<bar> < 2 ^ 63"
  shows "if \<bar>fv\<bar> \<le> 10 then \<exists>c. amount_of_int64 iss fv ov = Inr c \<and> mValue c = 0 \<and> canonical c
    else if 10 powi 96 \<le> real_of_int \<bar>fv\<bar> * 10 powi ov
    then amount_of_int64 iss fv ov = Inl (RuntimeError ''value overflow'')
    else \<exists>c. amount_of_int64 iss fv ov = Inr c \<and> \<not> mIsNative c \<and> mIssue c = iss \<and>
      mIsNegative c = (fv < 0) \<and>
      (if real_of_int \<bar>fv\<bar> * 10 powi ov < 10 powi - 81 then mValue c = 0
       else canonical c \<and> magnitude c \<le> real_of_int \<bar>fv\<bar> * 10 powi ov \<and>
         real_of_int \<bar>fv\<bar> * 10 powi ov < magnitude c + 10 powi mOffset c)"
proof (cases "\<bar>fv\<bar> \<le> 10")
  case True
  then have "fv \<ge> -10" "fv \<le> 10" by simp_all
  then show ?thesis
    using iss True
    by (simp add: amount_of_int64_def STAmount_issue_def canonicalize_def isSWT_amount_def canonical_def)
next
  case False
  define a where "a = \<lparr>mIssue = iss, mValue = (word_of_int \<bar>fv\<bar> :: u64), mOffset = ov, mIsNative = False,
    mIsNegative = (fv < 0)\<rparr>"
  have u: "unat (word_of_int \<bar>fv\<bar> :: u64) = nat \<bar>fv\<bar>"
    using fv by (simp add: unsigned_of_int take_bit_int_eq_self)
  have m: "magnitude a = real_of_int \<bar>fv\<bar> * 10 powi ov" by (simp add: a_def magnitude_def u)
  have eq: "amount_of_int64 iss fv ov = canonicalize a"
    using False by (auto simp: amount_of_int64_def STAmount_issue_def a_def)
  have "unat (mValue a) \<noteq> 0" using u False by (simp add: a_def)
  then have nz: "mValue a \<noteq> 0" by auto
  have "\<not> isSWT_amount a" using iss by (simp add: a_def isSWT_amount_def)
  from canonicalize_issued [OF this nz] False show ?thesis
    unfolding eq m by (auto simp: a_def split: if_splits)
qed

lemma align_amount:
  assumes "canonical a"
  shows "align_loop (signed_mantissa a) (mOffset a) t = (sign_of a * int (aligned a t), max (mOffset a) t)"
proof -
  have "unat (mValue a) < 2 ^ 63" using canonical_small [OF assms] by simp
  then show ?thesis by (simp add: signed_mantissa_eq align_loop_spec aligned_def)
qed

lemma aligned_max: "aligned a (max (mOffset a) t) = aligned a t"
  by (simp add: aligned_def max_def)

lemma aligned_le: "aligned a m \<le> unat (mValue a)"
  by (simp add: aligned_def div_le_dividend)

lemma aligned_bounds:
  assumes "mOffset a \<le> m"
  shows "real (aligned a m) * 10 powi m \<le> magnitude a" "magnitude a < real (aligned a m + 1) * 10 powi m"
  using mag_scale_down [where n = "unat (mValue a)" and k = "nat (m - mOffset a)" and e = "mOffset a"] assms
  by (simp_all add: aligned_def magnitude_def)

lemma aligned_exact: "mOffset a = m \<Longrightarrow> real (aligned a m) * 10 powi m = magnitude a"
  by (simp add: aligned_def magnitude_def)

lemma issued_mantissa_less: "canonical a \<Longrightarrow> \<not> mIsNative a \<Longrightarrow> unat (mValue a) < 10 ^ 16"
  using canonical_issuedD(2) [of a] by (cases "mValue a = 0") simp_all

lemma s64_aligned_sum:
  assumes "canonical a" "\<not> mIsNative a" "canonical b" "\<not> mIsNative b" "\<bar>s\<bar> = 1" "\<bar>t\<bar> = 1"
  shows "\<bar>s * int (aligned a m) + t * int (aligned b m)\<bar> < 2 * 10 ^ 16"
    "s64 (s * int (aligned a m) + t * int (aligned b m)) = s * int (aligned a m) + t * int (aligned b m)"
proof -
  have "aligned a m < 10 ^ 16" "aligned b m < 10 ^ 16"
    using aligned_le issued_mantissa_less assms by (meson le_less_trans)+
  then have "\<bar>s * int (aligned a m)\<bar> < 10 ^ 16" "\<bar>t * int (aligned b m)\<bar> < 10 ^ 16"
    using assms(5,6) by (simp_all add: abs_mult)
  then show *: "\<bar>s * int (aligned a m) + t * int (aligned b m)\<bar> < 2 * 10 ^ 16" by linarith
  show "s64 (s * int (aligned a m) + t * int (aligned b m)) = s * int (aligned a m) + t * int (aligned b m)"
    using * by (intro s64_id) simp_all
qed

lemma issued_add_eq:
  assumes a: "canonical a" "\<not> mIsNative a" "mValue a \<noteq> 0" and b: "canonical b" "\<not> mIsNative b" "mValue b \<noteq> 0"
    and cmp: "isComparable a b" and m: "m = max (mOffset a) (mOffset b)"
  shows "amount_add a b = amount_of_int64 (mIssue a) (sign_of a * int (aligned a m) + sign_of b * int (aligned b m)) m"
    "amount_sub a b = amount_of_int64 (mIssue a) (sign_of a * int (aligned a m) - sign_of b * int (aligned b m)) m"
proof -
  have e: "align_loop (signed_mantissa a) (mOffset a) (mOffset b) = (sign_of a * int (aligned a m), m)"
    using align_amount [OF a(1), of "mOffset b"] aligned_max [of a "mOffset b"] by (simp add: m)
  have f: "align_loop (signed_mantissa b) (mOffset b) m = (sign_of b * int (aligned b m), m)"
    using align_amount [OF b(1), of m] by (simp add: m max.absorb2)
  note s = s64_aligned_sum [OF a(1,2) b(1,2)]
  show "amount_add a b = amount_of_int64 (mIssue a) (sign_of a * int (aligned a m) + sign_of b * int (aligned b m)) m"
    using a b cmp e f s(2) [of "sign_of a" "sign_of b"] by (simp add: amount_add_def throwComparable_def)
  show "amount_sub a b = amount_of_int64 (mIssue a) (sign_of a * int (aligned a m) - sign_of b * int (aligned b m)) m"
    using a b cmp e f s(2) [of "sign_of a" "- sign_of b"] by (simp add: amount_sub_def throwComparable_def)
qed

lemma magnitude_lt_max:
  assumes "canonical a" "\<not> mIsNative a"
  shows "magnitude a < 10 powi 96"
proof (cases "mValue a = 0")
  case True
  then show ?thesis by (simp add: magnitude_def)
next
  case False
  have "magnitude a < real (10 ^ 16) * 10 powi 80"
    unfolding magnitude_def using canonical_issuedD [OF assms False] by (intro nat_mag_less) simp_all
  then show ?thesis by simp
qed

lemma nonneg_sign:
  assumes "canonical a" "0 \<le> amount_value a"
  shows "sign_of a = 1 \<and> magnitude a = amount_value a"
proof -
  have "\<not> mIsNegative a"
  proof
    assume neg: "mIsNegative a"
    then have "magnitude a = 0" using assms(2) magnitude_nonneg [of a] by (simp add: amount_value_def)
    then show False using canonical_zero [OF assms(1)] neg by simp
  qed
  then show ?thesis by (simp add: sign_of_def amount_value_def)
qed

lemma issued_sub_nonneg:
  assumes a: "canonical a" "\<not> mIsNative a" and b: "canonical b" "\<not> mIsNative b"
    and cmp: "isComparable a b" and le: "0 \<le> amount_value b" "amount_value b \<le> amount_value a"
  shows "\<exists>c. amount_sub a b = Inr c \<and> 0 \<le> amount_value c \<and> amount_value c \<le> amount_value a"
proof (cases "mValue b = 0")
  case True
  with cmp le show ?thesis by (simp add: amount_sub_def throwComparable_def)
next
  case nz: False
  have sb: "sign_of b = 1" "magnitude b = amount_value b" and sa: "sign_of a = 1" "magnitude a = amount_value a"
    using nonneg_sign a(1) b(1) le by auto
  have "amount_value b \<noteq> 0" using nz by simp
  then have "amount_value a \<noteq> 0" using le by linarith
  then have anz: "mValue a \<noteq> 0" by simp
  define m where "m = max (mOffset a) (mOffset b)"
  define fv where "fv = int (aligned a m) - int (aligned b m)"
  have eq: "amount_sub a b = amount_of_int64 (mIssue a) fv m"
    using issued_add_eq(2) [OF a anz b nz cmp m_def] sa sb by (simp add: fv_def)
  have ab: "mOffset a \<le> m" "mOffset b \<le> m" by (simp_all add: m_def)
  have "real (aligned b m) * 10 powi m < real (aligned a m + 1) * 10 powi m"
    using aligned_bounds(1) [OF ab(2)] aligned_bounds(2) [OF ab(1)] sa(2) sb(2) le(2) by linarith
  then have "real (aligned b m) < real (aligned a m + 1)" by (simp only: mult_less_cancel_right_pos powi_pos)
  then have fv0: "0 \<le> fv" by (simp add: fv_def)
  have "aligned a m \<le> unat (mValue a)" by (rule aligned_le)
  then have fvb: "\<bar>fv\<bar> < 2 ^ 63" using fv0 issued_mantissa_less [OF a] by (simp add: fv_def)
  have "real_of_int fv * 10 powi m \<le> real (aligned a m) * 10 powi m"
    by (intro mult_right_mono) (simp_all add: fv_def less_imp_le)
  then have x: "real_of_int \<bar>fv\<bar> * 10 powi m \<le> amount_value a" using aligned_bounds(1) [OF ab(1)] sa(2) fv0 by linarith
  moreover have "amount_value a < 10 powi 96" using magnitude_lt_max [OF a] sa(2) by simp
  ultimately have nov: "\<not> 10 powi 96 \<le> real_of_int \<bar>fv\<bar> * 10 powi m" by linarith
  have iss: "\<not> isSWT (currency (mIssue a))" using native_iff_SWT [OF a(1)] a(2) by (simp add: isSWT_amount_def)
  have va: "0 \<le> amount_value a" using le by linarith
  note spec = amount_of_int64_spec [OF iss fvb, of m, folded eq]
  have zero: "amount_value c = 0" if "mValue c = 0" for c using that by simp
  show ?thesis
  proof (cases "\<bar>fv\<bar> \<le> 10")
    case True
    with spec obtain c where c: "amount_sub a b = Inr c" "mValue c = 0" by auto
    have "0 \<le> amount_value c" "amount_value c \<le> amount_value a" using zero [OF c(2)] va by linarith+
    with c(1) show ?thesis by blast
  next
    case False
    with spec nov obtain c where c: "amount_sub a b = Inr c" "mIsNegative c = (fv < 0)"
      "mValue c = 0 \<or> magnitude c \<le> real_of_int \<bar>fv\<bar> * 10 powi m" by (auto split: if_splits)
    have "amount_value c = magnitude c" using c(2) fv0 by (simp add: amount_value_def)
    with c x va zero magnitude_nonneg [of c] show ?thesis by (metis order_trans)
  qed
qed

lemma issued_add_accuracy:
  assumes a: "canonical a" "\<not> mIsNative a" "mValue a \<noteq> 0" and b: "canonical b" "\<not> mIsNative b" "mValue b \<noteq> 0"
    and cmp: "isComparable a b" and m: "m = max (mOffset a) (mOffset b)" and add: "amount_add a b = Inr c"
  shows "\<bar>amount_value c - (amount_value a + amount_value b)\<bar> < 11 * 10 powi m \<or>
    mValue c = 0 \<and> \<bar>amount_value a + amount_value b\<bar> < 10 powi - 81 + 10 powi m"
proof -
  define fv where "fv = sign_of a * int (aligned a m) + sign_of b * int (aligned b m)"
  define X where "X = real_of_int fv * 10 powi m"
  have eq: "amount_of_int64 (mIssue a) fv m = Inr c"
    using issued_add_eq(1) [OF a b cmp m] add by (simp add: fv_def)
  have fvb: "\<bar>fv\<bar> < 2 * 10 ^ 16" unfolding fv_def by (rule s64_aligned_sum) (use a b in simp_all)
  have part: "\<bar>real_of_int (sign_of d) * real (aligned d m) * 10 powi m - amount_value d\<bar> < 10 powi m"
    if "mOffset d \<le> m" for d
    using aligned_bounds [OF that] by (auto simp: sign_of_def amount_value_def algebra_simps)
  have exact: "real_of_int (sign_of d) * real (aligned d m) * 10 powi m = amount_value d"
    if "mOffset d = m" for d
    using aligned_exact [OF that] by (auto simp: sign_of_def amount_value_def)
  have "X = real_of_int (sign_of a) * real (aligned a m) * 10 powi m +
      real_of_int (sign_of b) * real (aligned b m) * 10 powi m"
    by (simp add: X_def fv_def algebra_simps)
  moreover have "mOffset a = m \<and> mOffset b \<le> m \<or> mOffset b = m \<and> mOffset a \<le> m" using m by (auto simp: max_def)
  ultimately have err: "\<bar>X - (amount_value a + amount_value b)\<bar> < 10 powi m"
    using part [of a] part [of b] exact [of a] exact [of b] by auto
  have iss: "\<not> isSWT (currency (mIssue a))" using native_iff_SWT [OF a(1)] a(2) by (simp add: isSWT_amount_def)
  have fvb': "\<bar>fv\<bar> < 2 ^ 63" using fvb by simp
  have aX: "real_of_int \<bar>fv\<bar> * 10 powi m = \<bar>X\<bar>" by (simp add: X_def abs_mult)
  note spec = amount_of_int64_spec [OF iss fvb', of m, unfolded eq aX]
  show ?thesis
  proof (cases "\<bar>fv\<bar> \<le> 10")
    case True
    then have "\<bar>X\<bar> \<le> 10 * 10 powi m" unfolding aX [symmetric] by (intro mult_right_mono) (simp_all add: less_imp_le)
    moreover have "amount_value c = 0" using spec True by simp
    ultimately show ?thesis using err by linarith
  next
    case False
    then have big: "\<not> 10 powi 96 \<le> \<bar>X\<bar>" "mIsNegative c = (fv < 0)" using spec by (auto split: if_splits)
    show ?thesis
    proof (cases "\<bar>X\<bar> < 10 powi - 81")
      case True
      then have "mValue c = 0" using spec False big by simp
      with True err show ?thesis by linarith
    next
      case ge: False
      then have c: "canonical c" "magnitude c \<le> \<bar>X\<bar>" "\<bar>X\<bar> < magnitude c + 10 powi mOffset c" "\<not> mIsNative c"
        using spec False big by simp_all
      have "0 < \<bar>X\<bar>" using ge powi_pos [of "- 81"] by linarith
      have cnz: "mValue c \<noteq> 0"
      proof
        assume z: "mValue c = 0"
        then have "magnitude c = 0" and e: "mOffset c = -100"
          using c(1,4) by (auto simp: canonical_def split: if_splits)
        then have "\<bar>X\<bar> < 10 powi - 100" using c(3) unfolding e by linarith
        moreover have "(10::real) powi - 100 \<le> 10 powi - 81" by (rule powi_mono) simp
        ultimately show False using ge by linarith
      qed
      have "mOffset c \<le> m + 1"
      proof (rule ccontr)
        assume "\<not> mOffset c \<le> m + 1"
        then have "real (10 ^ 15) * 10 powi (m + 2) \<le> magnitude c"
          unfolding magnitude_def using canonical_issuedD [OF c(1,4) cnz] by (intro nat_mag_bounds) simp_all
        moreover have "real (10 ^ 15) * 10 powi (m + 2) = 10 ^ 17 * 10 powi m" by (simp add: power_int_add)
        moreover have "\<bar>X\<bar> < 2 * 10 ^ 16 * 10 powi m"
          unfolding aX [symmetric] using fvb by (intro mult_strict_right_mono) simp_all
        moreover have "2 * 10 ^ 16 * (10::real) powi m < 10 ^ 17 * 10 powi m" by simp
        ultimately show False using c(2) by linarith
      qed
      then have "(10::real) powi mOffset c \<le> 10 powi (m + 1)" by (rule powi_mono)
      then have "10 powi mOffset c \<le> 10 * (10::real) powi m" by (simp add: power_int_add)
      moreover have "X < 0 \<longleftrightarrow> fv < 0" using mult_less_cancel_right_pos [OF powi_pos [of m], of "real_of_int fv" 0] by (simp add: X_def)
      then have "\<bar>amount_value c - X\<bar> = \<bar>X\<bar> - magnitude c"
        using c(2) big(2) magnitude_nonneg [of c] by (auto simp: amount_value_def)
      ultimately show ?thesis using c(3) err by linarith
    qed
  qed
qed

lemma range_loop_spec:
  assumes "v \<noteq> 0" and "range_loop v off = (v', off')"
  shows "\<exists>k. off' = off - int k \<and> unat v' = unat v * 10 ^ k \<and> 10 ^ 15 \<le> unat v' \<and> (0 < k \<longrightarrow> unat v' < 10 ^ 16)"
  using assms
proof (induction v off rule: range_loop.induct)
  case (1 v off)
  show ?case
  proof (cases "v < cMinValue")
    case True
    then have v: "unat v < 10 ^ 15" by (simp add: const_unat)
    have m: "unat (v * 10) = unat v * 10" using v by (intro unat_mul10) simp
    have "unat v \<noteq> 0" using 1(2) by (simp add: unat_eq_0)
    then have nz: "v * 10 \<noteq> 0" using m by (metis mult_is_0 unsigned_0 zero_neq_numeral)
    have eq: "range_loop (v * 10) (off - 1) = (v', off')"
      using 1(2,3) True by (subst (asm) range_loop.simps) simp
    from 1(1) [OF _ nz eq] True 1(2) obtain k where k: "off' = off - 1 - int k"
      "unat v' = unat (v * 10) * 10 ^ k" "10 ^ 15 \<le> unat v'" "0 < k \<longrightarrow> unat v' < 10 ^ 16" by blast
    show ?thesis using k m v by (intro exI [of _ "Suc k"]) (cases "k = 0"; simp)
  next
    case False
    then have "v' = v" "off' = off" using 1(3) by (subst (asm) range_loop.simps, simp)+
    with False show ?thesis by (intro exI [of _ 0]) (simp add: const_unat not_less)
  qed
qed

lemma native_range_spec:
  assumes can: "canonical a" and nz: "mValue a \<noteq> 0"
  obtains v off where "native_range a = (v, off)" "real (unat v) * 10 powi off = magnitude a"
    "10 ^ 15 \<le> unat v" "unat v \<le> 10 ^ 17" "\<not> mIsNative a \<Longrightarrow> unat v < 10 ^ 16"
proof -
  obtain v off where r: "native_range a = (v, off)" by fastforce
  show thesis
  proof (cases "mIsNative a")
    case True
    then have "range_loop (mValue a) (mOffset a) = (v, off)" using r by (simp add: native_range_def)
    from range_loop_spec [OF nz this] obtain k where k: "off = mOffset a - int k"
      "unat v = unat (mValue a) * 10 ^ k" "10 ^ 15 \<le> unat v" "0 < k \<longrightarrow> unat v < 10 ^ 16" by blast
    have "unat v \<le> 10 ^ 17" using k canonical_nativeD(3) [OF can True] by (cases "k = 0") auto
    moreover have "real (unat v) * 10 powi off = magnitude a"
      unfolding magnitude_def k(1,2) by (rule mag_scale_up)
    ultimately show thesis using that r k(3) True by blast
  next
    case False
    then have "v = mValue a" "off = mOffset a" using r by (simp_all add: native_range_def)
    with False canonical_issuedD [OF can False nz] show thesis
      by (intro that [OF r]) (simp_all add: magnitude_def)
  qed
qed

lemma bn_exactD:
  assumes "bn_exact bn"
  shows "BN_add_word64 bn v w = (True, v + unat w)" "BN_mul_word64 bn v w = (True, v * unat w)"
    "w \<noteq> 0 \<Longrightarrow> BN_div_word64 bn v w = (word_of_nat (v mod unat w), v div unat w)"
    "v < 2 ^ 64 \<Longrightarrow> getuint64 bn v = word_of_nat v"
  using assms by (simp_all add: bn_exact_def BN_add_word64_def BN_mul_word64_def BN_div_word64_def getuint64_def)

lemma remainder_not_error:
  assumes "(w :: u64) \<noteq> 0"
  shows "(word_of_nat (v mod unat w) :: u64) \<noteq> - 1"
proof
  have w: "0 < unat w" using assms by (simp add: unat_gt_0)
  have lt: "v mod unat w < unat w" using w by simp
  have ub: "unat w < 2 ^ 64" using unsigned_less [of w, where ?'a = nat] by simp
  assume "(word_of_nat (v mod unat w) :: u64) = - 1"
  then have "unat (word_of_nat (v mod unat w) :: u64) = unat (- 1 :: u64)" by simp
  moreover have "unat (word_of_nat (v mod unat w) :: u64) = v mod unat w"
    using lt ub by (simp add: unsigned_of_nat take_bit_nat_eq_self)
  moreover have "unat (- 1 :: u64) = 2 ^ 64 - 1" by (simp add: unsigned_minus_1_eq_mask mask_eq_exp_minus_1)
  ultimately show False using lt ub by simp
qed

lemma divide_eq:
  assumes bn: "bn_exact bn" and num: "canonical num" "mValue num \<noteq> 0" and den: "canonical den" "mValue den \<noteq> 0"
  obtains n no d do where "native_range num = (n, no)" "native_range den = (d, do)"
    "STAmount_divide bn num den iss = STAmount_issue iss (word_of_nat (unat n * 10 ^ 17 div unat d + 5)) (no - do - 17)
       (mIsNegative num \<noteq> mIsNegative den)"
    "unat n * 10 ^ 17 div unat d + 5 < 2 ^ 64" "10 ^ 15 \<le> unat n * 10 ^ 17 div unat d"
proof -
  obtain n no where n: "native_range num = (n, no)" "10 ^ 15 \<le> unat n" "unat n \<le> 10 ^ 17"
    using native_range_spec [OF num] by metis
  obtain d do where d: "native_range den = (d, do)" "10 ^ 15 \<le> unat d" "unat d \<le> 10 ^ 17"
    using native_range_spec [OF den] by metis
  have d0: "d \<noteq> 0" using d(2) by (metis unsigned_0 not_numeral_le_zero power_eq_0_iff le_zero_eq zero_neq_numeral)
  define q where "q = unat n * 10 ^ 17 div unat d"
  have "q \<le> unat n * 10 ^ 17 div 10 ^ 15" unfolding q_def using d(2) by (intro div_le_mono2) simp_all
  also have "\<dots> \<le> 10 ^ 17 * 10 ^ 17 div 10 ^ 15" using n(3) by (intro div_le_mono mult_right_mono) simp_all
  finally have q: "q \<le> 10 ^ 19" by simp
  have "(10::nat) ^ 15 = 10 ^ 15 * 10 ^ 17 div 10 ^ 17" by simp
  also have "\<dots> \<le> unat n * 10 ^ 17 div 10 ^ 17" using n(2) by (intro div_le_mono mult_right_mono) simp_all
  also have "\<dots> \<le> q" unfolding q_def using d by (intro div_le_mono2) simp_all
  finally have ql: "10 ^ 15 \<le> q" .
  have g: "getuint64 bn q = word_of_nat q" using bn_exactD(4) [OF bn, of q] q by simp
  have t: "unat tenTo17 = 10 ^ 17" by (simp add: tenTo17_def tenTo14_def)
  have "STAmount_divide bn num den iss = STAmount_issue iss (word_of_nat q + 5) (no - do - 17)
      (mIsNegative num \<noteq> mIsNegative den)"
    using num(2) den(2) n(1) d(1) remainder_not_error [OF d0] g d0
    by (simp add: STAmount_divide_def bn_exactD(1-3) [OF bn] t q_def)
  moreover have "(word_of_nat q + 5 :: u64) = word_of_nat (q + 5)" by simp
  ultimately show thesis using that [OF n(1) d(1)] q ql by (simp only: q_def) simp
qed

lemma STAmount_issue_truncates:
  assumes iou: "\<not> isSWT (currency iss)" and x: "0 < x" "x < 2 ^ 64"
    and res: "STAmount_issue iss (word_of_nat x) e neg = Inr c"
  shows "mIssue c = iss \<and> \<not> mIsNative c \<and> mIsNegative c = neg \<and> magnitude c \<le> real x * 10 powi e \<and>
    (mValue c = 0 \<and> real x * 10 powi e < 10 powi - 81 \<or>
     canonical c \<and> mValue c \<noteq> 0 \<and> real x * 10 powi e < magnitude c + 10 powi mOffset c)"
proof -
  define a where "a = \<lparr>mIssue = iss, mValue = (word_of_nat x :: u64), mOffset = e, mIsNative = False, mIsNegative = neg\<rparr>"
  have u: "unat (mValue a) = x" using x(2) by (simp add: a_def unsigned_of_nat take_bit_nat_eq_self)
  then have nz: "mValue a \<noteq> 0" using x(1) by auto
  have m: "magnitude a = real x * 10 powi e" unfolding magnitude_def u by (simp add: a_def)
  have swt: "\<not> isSWT_amount a" using iou by (simp add: a_def isSWT_amount_def)
  have can: "canonicalize a = Inr c" using res by (simp add: STAmount_issue_def a_def)
  have z: "magnitude c \<le> real x * 10 powi e" if "mValue c = 0"
  proof -
    have "magnitude c = 0" using that by simp
    then show ?thesis using m magnitude_nonneg [of a] by linarith
  qed
  show ?thesis
    using canonicalize_issued [OF swt nz] can z unfolding m
    by (auto simp: a_def split: if_splits)
qed

lemma rate_fields:
  fixes m e :: u64
  assumes m: "unat m < 2 ^ 56" and e: "unat e < 2 ^ 8"
  shows "drop_bit 56 (push_bit 56 e OR m) = e" "(push_bit 56 e OR m) AND NOT (push_bit 56 255) = m"
    "unat (push_bit 56 e OR m) = unat e * 2 ^ 56 + unat m"
proof -
  note hm = high_bits_clear [OF m] and he = high_bits_clear [OF e]
  have c: "(255 :: u64) = mask 8" by (simp add: mask_eq_exp_minus_1)
  show "drop_bit 56 (push_bit 56 e OR m) = e"
    by (rule bit_word_eqI) (use he in \<open>auto simp: bit_simps dest: hm\<close>)
  show "(push_bit 56 e OR m) AND NOT (push_bit 56 255) = m"
    unfolding c by (rule bit_word_eqI) (use he in \<open>auto simp: bit_simps dest: hm\<close>)
  have "push_bit 56 e OR m = push_bit 56 e + m"
    by (rule disjunctive_add [symmetric]) (auto simp: bit_simps dest: hm)
  moreover have "unat (push_bit 56 e) = unat e * 2 ^ 56"
  proof -
    have "unat e * 2 ^ 56 < 2 ^ 64" using e by simp
    then show ?thesis by (simp add: push_bit_eq_mult unat_word_ariths)
  qed
  moreover have "unat e * 2 ^ 56 + unat m < 2 ^ 64" using e m by simp
  ultimately show "unat (push_bit 56 e OR m) = unat e * 2 ^ 56 + unat m"
    by (simp add: unat_word_ariths)
qed

lemma rate_word_canonical:
  assumes "canonical r" "\<not> mIsNative r" "mValue r \<noteq> 0"
  shows "uint (drop_bit 56 (rate_word r)) = mOffset r + 100"
    "rate_word r AND NOT (push_bit 56 255) = mValue r" "rate_word r \<noteq> 0"
    "unat (rate_word r) = nat (mOffset r + 100) * 2 ^ 56 + unat (mValue r)"
proof -
  note c = canonical_issuedD [OF assms]
  have u: "uint (word_of_int (mOffset r + 100) :: u64) = mOffset r + 100"
    by (rule uint_of_int_u64) (use c in simp_all)
  then have un: "unat (word_of_int (mOffset r + 100) :: u64) = nat (mOffset r + 100)" by (metis nat_uint_eq)
  have e: "unat (word_of_int (mOffset r + 100) :: u64) < 2 ^ 8" unfolding un using c by simp
  have m: "unat (mValue r) < 2 ^ 56" using c by simp
  note f = rate_fields [OF m e, folded rate_word_def]
  show "uint (drop_bit 56 (rate_word r)) = mOffset r + 100" unfolding f(1) by (rule u)
  show "rate_word r AND NOT (push_bit 56 255) = mValue r" by (rule f(2))
  show s: "unat (rate_word r) = nat (mOffset r + 100) * 2 ^ 56 + unat (mValue r)" using f(3) unfolding un .
  have "0 < unat (rate_word r)" unfolding s using c by simp
  then show "rate_word r \<noteq> 0" by auto
qed

lemma rate_word_amount:
  assumes "canonical r" "\<not> mIsNative r" "mValue r \<noteq> 0" "\<not> mIsNegative r" "mIssue r = noIssue"
  shows "amountFromQuality (rate_word r) = Inr r"
proof -
  note w = rate_word_canonical [OF assms(1-3)]
  have "amountFromQuality (rate_word r) = STAmount_issue noIssue (mValue r) (mOffset r) False"
    unfolding amountFromQuality_def Let_def w(1,2) using w(3) by simp
  also have "\<dots> = Inr (r\<lparr>mIssue := noIssue\<rparr>)"
    using canonical_reissue [OF assms(1), of noIssue] assms by (simp add: noIssue_def noCurrency_def isSWT_def)
  finally show ?thesis using assms(5) by (cases r) simp
qed

lemma rate_word_less:
  assumes "canonical r" "\<not> mIsNative r" "mValue r \<noteq> 0" and "canonical s" "\<not> mIsNative s" "mValue s \<noteq> 0"
  shows "rate_word r < rate_word s \<longleftrightarrow> magnitude r < magnitude s"
proof -
  note r = rate_word_canonical(4) [OF assms(1-3)] canonical_issuedD [OF assms(1-3)]
  note s = rate_word_canonical(4) [OF assms(4-6)] canonical_issuedD [OF assms(4-6)]
  have step: "unat (rate_word x) < unat (rate_word y)"
    if "nat (mOffset x + 100) < nat (mOffset y + 100)" "unat (mValue x) < 2 ^ 56"
      "unat (rate_word x) = nat (mOffset x + 100) * 2 ^ 56 + unat (mValue x)"
      "unat (rate_word y) = nat (mOffset y + 100) * 2 ^ 56 + unat (mValue y)" for x y
  proof -
    have "unat (rate_word x) < (nat (mOffset x + 100) + 1) * 2 ^ 56" using that by simp
    also have "\<dots> \<le> nat (mOffset y + 100) * 2 ^ 56" by (rule mult_right_mono) (use that(1) in linarith, simp)
    finally show ?thesis using that(4) by simp
  qed
  consider "mOffset r < mOffset s" | "mOffset s < mOffset r" | "mOffset r = mOffset s" by linarith
  then show ?thesis
  proof cases
    case 1
    then have "unat (rate_word r) < unat (rate_word s)" using r s by (intro step) simp_all
    with 1 magnitude_exponent_less [OF assms] show ?thesis by (simp add: word_less_nat_alt)
  next
    case 2
    then have "unat (rate_word s) < unat (rate_word r)" using r s by (intro step) simp_all
    with 2 magnitude_exponent_less [OF assms(4-6,1-3)] show ?thesis by (simp add: word_less_nat_alt)
  next
    case 3
    then have "rate_word r < rate_word s \<longleftrightarrow> unat (mValue r) < unat (mValue s)"
      using r(1) s(1) by (simp add: word_less_nat_alt)
    also have "\<dots> \<longleftrightarrow> magnitude r < magnitude s"
      using 3 by (simp add: magnitude_def mult_less_cancel_right_pos)
    finally show ?thesis .
  qed
qed

lemma getRate_cases:
  assumes bn: "bn_exact bn" and out: "canonical offerOut" and inp: "canonical offerIn"
    and sign: "mIsNegative offerIn = mIsNegative offerOut" and nz: "getRate bn offerOut offerIn \<noteq> 0"
  obtains r where "STAmount_divide bn offerIn offerOut noIssue = Inr r" "getRate bn offerOut offerIn = rate_word r"
    "canonical r" "\<not> mIsNative r" "mValue r \<noteq> 0" "\<not> mIsNegative r" "mIssue r = noIssue"
proof -
  have onz: "mValue offerOut \<noteq> 0" using nz by (auto simp: getRate_def)
  obtain r where r: "STAmount_divide bn offerIn offerOut noIssue = Inr r" "mValue r \<noteq> 0"
      "getRate bn offerOut offerIn = rate_word r"
    using nz onz by (auto simp: getRate_def rate_word_def Let_def split: sum.splits if_splits)
  have inz: "mValue offerIn \<noteq> 0"
  proof
    assume "mValue offerIn = 0"
    then have "STAmount_divide bn offerIn offerOut noIssue = STAmount_issue noIssue 0 0 False"
      using onz by (simp add: STAmount_divide_def)
    with r(1,2) show False
      by (auto simp: STAmount_issue_def canonicalize_def isSWT_amount_def noIssue_def noCurrency_def isSWT_def)
  qed
  obtain n d :: u64 and no do where q: "STAmount_divide bn offerIn offerOut noIssue =
      STAmount_issue noIssue (word_of_nat (unat n * 10 ^ 17 div unat d + 5)) (no - do - 17)
       (mIsNegative offerIn \<noteq> mIsNegative offerOut)"
    "unat n * 10 ^ 17 div unat d + 5 < 2 ^ 64"
    by (rule divide_eq [OF bn inp inz out onz, of noIssue])
  have iou: "\<not> isSWT (currency noIssue)" by (simp add: isSWT_def noIssue_def noCurrency_def)
  have "STAmount_issue noIssue (word_of_nat (unat n * 10 ^ 17 div unat d + 5)) (no - do - 17) False = Inr r"
    using r(1) q(1) sign by simp
  from STAmount_issue_truncates [OF iou _ q(2) this] r that show thesis by auto
qed

lemma bn_nat_exact [simp]: "bn_exact bn_nat"
  by (simp add: bn_exact_def bn_nat_def)

lemma unat_tenTo14: "unat tenTo14 = 10 ^ 14" "tenTo14 \<noteq> 0"
  by (simp_all add: tenTo14_def)

lemma mulRound_down_eq:
  assumes bn: "bn_exact bn" and a: "canonical v1" "mValue v1 \<noteq> 0" and b: "canonical v2" "mValue v2 \<noteq> 0"
    and sgn: "mIsNegative v1 = mIsNegative v2" and iou: "\<not> isSWT (currency iss)"
    and mixed: "\<not> (mIsNative v1 \<and> mIsNative v2)"
  obtains x e where "mulRound bn v1 v2 iss False = STAmount_issue iss (word_of_nat x) e False"
    "x < 2 ^ 64" "10 ^ 16 \<le> x" "real x * 10 powi e \<le> magnitude v1 * magnitude v2"
    "magnitude v1 * magnitude v2 < real (x + 1) * 10 powi e"
proof -
  obtain n1 o1 where n1: "native_range v1 = (n1, o1)" "real (unat n1) * 10 powi o1 = magnitude v1"
    "10 ^ 15 \<le> unat n1" "unat n1 \<le> 10 ^ 17" "\<not> mIsNative v1 \<Longrightarrow> unat n1 < 10 ^ 16"
    using native_range_spec [OF a] by metis
  obtain n2 o2 where n2: "native_range v2 = (n2, o2)" "real (unat n2) * 10 powi o2 = magnitude v2"
    "10 ^ 15 \<le> unat n2" "unat n2 \<le> 10 ^ 17" "\<not> mIsNative v2 \<Longrightarrow> unat n2 < 10 ^ 16"
    using native_range_spec [OF b] by metis
  define p where "p = unat n1 * unat n2"
  define x where "x = p div 10 ^ 14"
  have "p \<le> 10 ^ 16 * 10 ^ 17"
  proof (cases "mIsNative v1")
    case True
    then have "unat n2 \<le> 10 ^ 16" using mixed n2(5) by simp
    then have "p \<le> 10 ^ 17 * 10 ^ 16" unfolding p_def using n1(4) by (intro mult_mono) simp_all
    then show ?thesis by simp
  next
    case False
    then show ?thesis unfolding p_def using n1(5) n2(4) by (intro mult_mono) simp_all
  qed
  then have "x \<le> 10 ^ 16 * 10 ^ 17 div 10 ^ 14" unfolding x_def by (rule div_le_mono)
  then have x1: "x \<le> 10 ^ 19" by simp
  have "10 ^ 15 * 10 ^ 15 \<le> p" unfolding p_def using n1(3) n2(3) by (intro mult_mono) simp_all
  then have "10 ^ 15 * 10 ^ 15 div 10 ^ 14 \<le> x" unfolding x_def by (rule div_le_mono)
  then have x2: "10 ^ 16 \<le> x" by simp
  have g: "getuint64 bn x = word_of_nat x" using bn_exactD(4) [OF bn, of x] x1 by simp
  have "BN_div_word64 bn p tenTo14 = (word_of_nat (p mod 10 ^ 14), x)"
    using bn_exactD(3) [OF bn unat_tenTo14(2), of p] by (simp add: unat_tenTo14 x_def)
  moreover have "(word_of_nat (p mod 10 ^ 14) :: u64) \<noteq> - 1"
    using remainder_not_error [OF unat_tenTo14(2), of p] by (simp add: unat_tenTo14)
  ultimately have eq: "mulRound bn v1 v2 iss False = STAmount_issue iss (word_of_nat x) (o1 + o2 + 14) False"
    using a(2) b(2) sgn iou n1(1) n2(1) g
    by (simp add: mulRound_def bn_exactD(1,2) [OF bn] canonicalizeRound_def p_def)
  have prod: "magnitude v1 * magnitude v2 = real p * 10 powi (o1 + o2)"
    unfolding n1(2) [symmetric] n2(2) [symmetric] p_def by (simp add: power_int_add)
  have e: "o1 + o2 + 14 = o1 + o2 + int 14" by simp
  show thesis
  proof (rule that)
    show "mulRound bn v1 v2 iss False = STAmount_issue iss (word_of_nat x) (o1 + o2 + 14) False" by (rule eq)
    show "x < 2 ^ 64" using x1 by simp
    show "10 ^ 16 \<le> x" by (rule x2)
    show "real x * 10 powi (o1 + o2 + 14) \<le> magnitude v1 * magnitude v2"
      unfolding prod x_def e by (rule mag_scale_down)
    show "magnitude v1 * magnitude v2 < real (x + 1) * 10 powi (o1 + o2 + 14)"
      unfolding prod x_def e by (rule mag_scale_down)
  qed
qed

lemma unit_slack:
  assumes c: "canonical c" "\<not> mIsNative c" and nz: "mValue c \<noteq> 0" and x: "10 ^ 16 \<le> x" "p < real (x + 1) * 10 powi e"
    and slack: "real x * 10 powi e < magnitude c + 10 powi mOffset c"
  shows "p < magnitude c + 2 * 10 powi mOffset c"
proof -
  have "unat (mValue c) + 1 \<le> 10 ^ 16" using canonical_issuedD [OF c nz] by simp
  then have "real (unat (mValue c) + 1) \<le> 10 ^ 16" by (metis of_nat_le_iff of_nat_numeral of_nat_power)
  then have "real (unat (mValue c) + 1) * 10 powi mOffset c \<le> 10 ^ 16 * 10 powi mOffset c"
    by (rule mult_right_mono) (simp add: less_imp_le)
  then have "magnitude c + 10 powi mOffset c \<le> 10 ^ 16 * 10 powi mOffset c"
    by (simp add: magnitude_def distrib_right)
  moreover have "10 ^ 16 * 10 powi e \<le> real x * 10 powi e"
    by (rule mult_right_mono) (use x(1) in \<open>auto simp: less_imp_le simp flip: of_nat_le_iff\<close>)
  ultimately have "10 ^ 16 * 10 powi e < (10 ^ 16 * 10 powi mOffset c :: real)" using slack by linarith
  then have "10 powi e \<le> (10 powi mOffset c :: real)" by simp
  then show ?thesis using slack x(2) by (simp add: distrib_right)
qed

definition iou_amount :: "u64 \<Rightarrow> int \<Rightarrow> stamount" where
  "iou_amount m e = \<lparr>mIssue = noIssue, mValue = m, mOffset = e, mIsNative = False, mIsNegative = False\<rparr>"

definition native_amount :: "u64 \<Rightarrow> stamount" where
  "native_amount m = \<lparr>mIssue = xrpIssue, mValue = m, mOffset = 0, mIsNative = True, mIsNegative = False\<rparr>"

lemma product_guard:
  fixes x y :: nat
  assumes "x \<le> 3000000000" and "y div 2 ^ 32 * x \<le> 2095475792"
  shows "x * y < 2 ^ 64"
proof (cases "y < 2 ^ 32")
  case True
  have "x * y \<le> 3000000000 * 2 ^ 32" using assms(1) True by (intro mult_mono) simp_all
  then show ?thesis by simp
next
  case False
  define h where "h = y div 2 ^ 32"
  have "1 = 2 ^ 32 div (2 ^ 32 :: nat)" by simp
  also have "\<dots> \<le> h" unfolding h_def using False by (intro div_le_mono) simp
  finally have h: "1 \<le> h" .
  have "y < (h + 1) * 2 ^ 32"
    unfolding h_def using dividend_less_times_div [of "2 ^ 32" y] by simp
  then have "x * y \<le> x * ((h + 1) * 2 ^ 32)" by (intro mult_left_mono) simp_all
  also have "\<dots> \<le> (2 * (h * x)) * 2 ^ 32" using h by (cases h) (simp_all add: algebra_simps)
  also have "\<dots> \<le> (2 * 2095475792) * 2 ^ 32" using assms(2) by (intro mult_right_mono) (simp_all add: h_def mult.commute)
  finally show ?thesis by simp
qed

lemma native_product_spec:
  assumes a: "canonical a" "mIsNative a" "\<not> mIsNegative a" and b: "canonical b" "mIsNative b" "\<not> mIsNegative b"
    and res: "native_product a b = Inr c"
  shows "amount_value c = amount_value a * amount_value b \<and> mIsNative c"
proof -
  define x y where "x = unat (mValue a)" and "y = unat (mValue b)"
  have ga: "getSNValue a = Inr (int x)" "getSNValue b = Inr (int y)"
    using getSNValue_eq a b by (simp_all add: x_def y_def sign_of_def)
  have va: "amount_value a = real x" "amount_value b = real y"
    using native_value a b by (simp_all add: x_def y_def sign_of_def)
  have bnd: "x < 2 ^ 62" "y < 2 ^ 62" using canonical_small a b by (simp_all add: x_def y_def)
  define mn mx where "mn = min x y" and "mx = max x y"
  have u: "unat (word_of_nat k :: u64) = k" if "k < 2 ^ 62" for k
    using that by (simp add: unsigned_of_nat take_bit_nat_eq_self)
  have um: "unat (word_of_nat mn :: u64) = mn" "unat (word_of_nat mx :: u64) = mx"
    using bnd by (auto intro!: u simp: mn_def mx_def)
  have e: "(word_of_int (if int x < int y then int x else int y) :: u64) = word_of_nat mn"
    "(word_of_int (if int x < int y then int y else int x) :: u64) = word_of_nat mx"
    by (simp_all add: mn_def mx_def min_def max_def)
  have g: "\<not> (word_of_nat mn :: u64) > 3000000000"
    "\<not> drop_bit 32 (word_of_nat mx :: u64) * word_of_nat mn > 2095475792"
    and c: "c = STAmount_named (word_of_nat mn * word_of_nat mx) False"
    using res by (auto simp: native_product_def ga Let_def mn_def mx_def min_def max_def split: if_splits)
  have g1: "mn \<le> 3000000000" using g(1) by (simp add: word_less_nat_alt um)
  have dm: "unat (drop_bit 32 (word_of_nat mx :: u64)) = mx div 2 ^ 32" by (simp only: unat_drop_bit_div um)
  have mx: "mx < 2 ^ 62" using bnd by (simp add: mx_def)
  have "mx div 2 ^ 32 \<le> 2 ^ 62 div 2 ^ 32" using mx by (intro div_le_mono) simp
  then have "mx div 2 ^ 32 * mn \<le> 2 ^ 30 * 3000000000" using g1 by (intro mult_mono) simp_all
  then have "unat (drop_bit 32 (word_of_nat mx :: u64) * word_of_nat mn) = mx div 2 ^ 32 * mn"
    by (simp add: unat_word_ariths dm um)
  then have "mx div 2 ^ 32 * mn \<le> 2095475792" using g(2) by (simp add: word_less_nat_alt)
  from product_guard [OF g1 this] have "unat (word_of_nat mn * word_of_nat mx :: u64) = mn * mx"
    by (simp add: unat_word_ariths um)
  then have "amount_value c = real (mn * mx)"
    unfolding c amount_value_def magnitude_def by (simp add: STAmount_named_def)
  moreover have "mn * mx = x * y" by (simp add: mn_def mx_def min_def max_def)
  ultimately show ?thesis using va c by (simp add: STAmount_named_def)
qed

lemma issued_add_commute:
  assumes a: "canonical a" and b: "canonical b" and iss: "mIssue a = mIssue b"
  shows "amount_add a b = amount_add b a"
proof -
  have nat: "mIsNative a = mIsNative b" using a b iss by (simp add: native_iff_SWT isSWT_amount_def)
  have cmp: "isComparable a b" "isComparable b a" using nat iss by (auto simp: isComparable_def)
  have swt: "isSWT (currency (mIssue a)) = mIsNative a" using native_iff_SWT [OF a] by (simp add: isSWT_amount_def)
  consider "mValue a = 0" "mValue b = 0" | "mValue a = 0" "mValue b \<noteq> 0" | "mValue a \<noteq> 0" "mValue b = 0"
    | "mValue a \<noteq> 0" "mValue b \<noteq> 0" by blast
  then show ?thesis
  proof cases
    case 1
    then have "a = b" using a b iss nat swt
      by (cases a; cases b) (auto simp: canonical_def isSWT_amount_def split: if_splits)
    then show ?thesis by simp
  next
    case 2
    then show ?thesis
      using cmp canonical_reissue [OF b, of "mIssue a"] swt nat iss
      by (cases b) (simp add: amount_add_def throwComparable_def)
  next
    case 3
    then show ?thesis
      using cmp canonical_reissue [OF a, of "mIssue b"] swt nat iss
      by (cases a) (simp add: amount_add_def throwComparable_def)
  next
    case 4
    show ?thesis
    proof (cases "mIsNative a")
      case True
      with 4 nat cmp getSNValue_eq [OF a] getSNValue_eq [OF b] show ?thesis
        by (simp add: amount_add_def throwComparable_def add.commute)
    next
      case False
      with 4 nat cmp a b iss show ?thesis
        using issued_add_eq(1) [OF a False 4(1) b _ 4(2) cmp(1) refl]
          issued_add_eq(1) [OF b _ 4(2) a False 4(1) cmp(2) refl]
        by (simp add: max.commute add.commute)
    qed
  qed
qed

lemma sub_between:
  assumes a: "canonical a" and b: "canonical b" and cmp: "isComparable a b"
    and le: "0 \<le> amount_value b" "amount_value b \<le> amount_value a"
  shows "\<exists>c. amount_sub a b = Inr c \<and> 0 \<le> amount_value c \<and> amount_value c \<le> amount_value a"
proof (cases "mIsNative a")
  case True
  with isComparable_native [OF cmp] native_sub [OF a _ b] le show ?thesis by fastforce
next
  case False
  with isComparable_native [OF cmp] issued_sub_nonneg [OF a _ b _ cmp le] show ?thesis by simp
qed

lemma noIssue_not_SWT [simp]: "\<not> isSWT (currency noIssue)"
  by (simp add: noIssue_def noCurrency_def isSWT_def)

lemma iou_amount_sel [simp]:
  "mIssue (iou_amount m e) = noIssue" "mValue (iou_amount m e) = m" "mOffset (iou_amount m e) = e"
  "\<not> mIsNative (iou_amount m e)" "\<not> mIsNegative (iou_amount m e)"
  by (simp_all add: iou_amount_def)

lemma native_amount_sel [simp]:
  "mIssue (native_amount m) = xrpIssue" "mValue (native_amount m) = m" "mOffset (native_amount m) = 0"
  "mIsNative (native_amount m)" "\<not> mIsNegative (native_amount m)"
  by (simp_all add: native_amount_def)

lemma iou_amount_issue:
  "cMinValue \<le> m \<Longrightarrow> m \<le> cMaxValue \<Longrightarrow> -96 \<le> e \<Longrightarrow> e \<le> 80 \<Longrightarrow>
     canonical (iou_amount m e) \<and> STAmount_issue noIssue m e False = Inr (iou_amount m e)"
  using STAmount_issue_canonical [of noIssue m e False]
  by (auto simp: iou_amount_def canonical_def isSWT_amount_def cMinOffset_def cMaxOffset_def const_unat)

lemma native_amount_canonical: "m \<le> cMaxNativeN \<Longrightarrow> canonical (native_amount m)"
  by (simp add: canonical_def isSWT_amount_def native_amount_def xrpIssue_def isSWT_def xrpCurrency_def)

lemma iou_amount_value: "amount_value (iou_amount m e) = real (unat m) * 10 powi e"
  by (simp add: amount_value_def magnitude_def)

lemma native_amount_value: "amount_value (native_amount m) = real (unat m)"
  by (simp add: amount_value_def magnitude_def)

lemma comparable_amounts [simp]: "isComparable (iou_amount m e) (iou_amount n f)"
  "isComparable (native_amount k) (native_amount l)"
  by (simp_all add: isComparable_def)

lemmas bn_nat_eval = native_range_def bn_nat_def BN_add_word64_def BN_mul_word64_def BN_div_word64_def
  getuint64_def canonicalizeRound_def round_iou_loop.simps cMaxValue_def tenTo14_def tenTo14m1_def
  tenTo17_def is_zero_def

text \<open>C16: for canonical amounts of the same currency, the three-way comparison of the code agrees
  with the order of the values they stand for.\<close>

theorem compare_is_value_order:
  assumes "canonical a" "canonical b" "isComparable a b"
  shows "compare_amount a b =
    (if amount_value a < amount_value b then -1 else if amount_value b < amount_value a then 1 else 0)"
  by (rule compare_amount_value [OF assms])

theorem compare_is_value_order_witness:
  "compare_amount (iou_amount 9999999999999999 0) (iou_amount 1000000000000000 1) = -1"
  using compare_is_value_order [of "iou_amount 9999999999999999 0" "iou_amount 1000000000000000 1"]
    iou_amount_issue [of 9999999999999999 0] iou_amount_issue [of 1000000000000000 1]
  by (simp add: cMinValue_def cMaxValue_def iou_amount_value)

text \<open>C31: sums and differences of two native amounts of less than 2^62 units, which is what the wire form can hold,
  are exact: the 64-bit signed intermediate values never wrap. Differences are always returned. A sum is returned unless
  the first amount is zero and the second above 10^17: only then it goes through \<open>canonicalize\<close>, which throws.\<close>

theorem native_sums_exact:
  assumes "native_small a" "native_small b"
  shows "(if mValue a = 0 \<and> cMaxNativeN < mValue b
      then amount_add a b = Inl (RuntimeError ''Native currency amount out of range'')
      else \<exists>c. amount_add a b = Inr c \<and> mIsNative c \<and> amount_value c = amount_value a + amount_value b) \<and>
    (\<exists>d. amount_sub a b = Inr d \<and> mIsNative d \<and> amount_value d = amount_value a - amount_value b)"
  using native_small_add [OF assms] native_small_sub [OF assms] by (rule conjI)

theorem native_sums_exact_witness:
  "\<exists>c d. amount_add (native_amount 3) (native_amount 5) = Inr c \<and> amount_value c = 8 \<and>
     amount_sub (native_amount 3) (native_amount 5) = Inr d \<and> amount_value d = -2"
  using native_sums_exact [of "native_amount 3" "native_amount 5"]
    native_amount_canonical [of 3] native_amount_canonical [of 5]
  by (auto simp: native_amount_value const_unat canonical_native_small)

text \<open>C15: subtracting from a balance an amount between zero and that balance always returns, and the
  result lies between zero and the balance: aligning the mantissas never creates or overdraws value.\<close>

theorem sub_within_balance:
  assumes "canonical a" "canonical b" "isComparable a b" "0 \<le> amount_value b" "amount_value b \<le> amount_value a"
  shows "\<exists>c. amount_sub a b = Inr c \<and> 0 \<le> amount_value c \<and> amount_value c \<le> amount_value a"
  by (rule sub_between [OF assms])

theorem sub_within_balance_witness:
  "\<exists>c. amount_sub (iou_amount 1000000000000000 3) (iou_amount 9999999999999999 0) = Inr c \<and>
     0 \<le> amount_value c \<and> amount_value c \<le> 10 ^ 18"
  using sub_within_balance [of "iou_amount 1000000000000000 3" "iou_amount 9999999999999999 0"]
    iou_amount_issue [of 9999999999999999 0] iou_amount_issue [of 1000000000000000 3]
  by (simp add: cMinValue_def cMaxValue_def iou_amount_value)

text \<open>Addition of canonical amounts of one issue is commutative, errors included.\<close>

theorem add_commutes:
  assumes "canonical a" "canonical b" "mIssue a = mIssue b"
  shows "amount_add a b = amount_add b a"
  by (rule issued_add_commute [OF assms])

theorem add_commutes_witness:
  "amount_add (iou_amount 1000000000000000 3) (iou_amount 9999999999999999 0) =
   amount_add (iou_amount 9999999999999999 0) (iou_amount 1000000000000000 3)"
  using add_commutes [of "iou_amount 1000000000000000 3" "iou_amount 9999999999999999 0"]
    iou_amount_issue [of 9999999999999999 0] iou_amount_issue [of 1000000000000000 3]
  by (simp add: cMinValue_def cMaxValue_def)

text \<open>C32: the sum of two non-zero issued amounts differs from the exact sum by less than eleven units of
  the larger exponent, or is zero for an exact sum below the smallest representable magnitude.\<close>

theorem add_error_bound:
  assumes "canonical a" "\<not> mIsNative a" "mValue a \<noteq> 0" "canonical b" "\<not> mIsNative b" "mValue b \<noteq> 0"
    "isComparable a b" "m = max (mOffset a) (mOffset b)" "amount_add a b = Inr c"
  shows "\<bar>amount_value c - (amount_value a + amount_value b)\<bar> < 11 * 10 powi m \<or>
    mValue c = 0 \<and> \<bar>amount_value a + amount_value b\<bar> < 10 powi - 81 + 10 powi m"
  by (rule issued_add_accuracy [OF assms])

lemma add_example: "amount_add (iou_amount 2000000000000000 1) (iou_amount 3000000000000005 0) =
    Inr (iou_amount 2300000000000000 1)"
  by (simp add: amount_add_def throwComparable_def align_loop.simps signed_mantissa_def amount_of_int64_def
      iou_amount_issue s64_id is_zero_def cMinValue_def cMaxValue_def s64_def)

theorem add_error_bound_witness:
  "\<bar>amount_value (iou_amount 2300000000000000 1) - (amount_value (iou_amount 2000000000000000 1) +
     amount_value (iou_amount 3000000000000005 0))\<bar> < 11 * 10 powi 1"
  using add_error_bound [OF _ _ _ _ _ _ _ _ add_example, of 1]
    iou_amount_issue [of 2000000000000000 1] iou_amount_issue [of 3000000000000005 0]
  by (simp add: cMinValue_def cMaxValue_def)

text \<open>C17: the rate word of an offer orders as the price it encodes, and decoding it gives back the
  quotient the code computed. Offer books are sorted by this word.\<close>

theorem rate_encodes_price:
  assumes "bn_exact bn" "canonical out1" "canonical in1" "canonical out2" "canonical in2"
    "mIsNegative in1 = mIsNegative out1" "mIsNegative in2 = mIsNegative out2"
    "getRate bn out1 in1 \<noteq> 0" "getRate bn out2 in2 \<noteq> 0"
  shows "\<exists>p1 p2. STAmount_divide bn in1 out1 noIssue = Inr p1 \<and> amountFromQuality (getRate bn out1 in1) = Inr p1 \<and>
    STAmount_divide bn in2 out2 noIssue = Inr p2 \<and> amountFromQuality (getRate bn out2 in2) = Inr p2 \<and>
    (getRate bn out1 in1 < getRate bn out2 in2 \<longleftrightarrow> amount_value p1 < amount_value p2)"
proof -
  obtain r where r: "STAmount_divide bn in1 out1 noIssue = Inr r" "getRate bn out1 in1 = rate_word r"
    "canonical r" "\<not> mIsNative r" "mValue r \<noteq> 0" "\<not> mIsNegative r" "mIssue r = noIssue"
    by (rule getRate_cases [OF assms(1,2,3,6,8)])
  obtain s where s: "STAmount_divide bn in2 out2 noIssue = Inr s" "getRate bn out2 in2 = rate_word s"
    "canonical s" "\<not> mIsNative s" "mValue s \<noteq> 0" "\<not> mIsNegative s" "mIssue s = noIssue"
    by (rule getRate_cases [OF assms(1,4,5,7,9)])
  have "rate_word r < rate_word s \<longleftrightarrow> amount_value r < amount_value s"
    using rate_word_less [OF r(3-5) s(3-5)] r(6) s(6) by (simp add: amount_value_def)
  with r(1,2) s(1,2) rate_word_amount [OF r(3-7)] rate_word_amount [OF s(3-7)] show ?thesis by auto
qed

lemma rate_examples:
  "getRate bn_nat (iou_amount 1000000000000000 0) (iou_amount 2000000000000000 0) \<noteq> 0"
  "getRate bn_nat (iou_amount 1000000000000000 0) (iou_amount 3000000000000000 0) \<noteq> 0"
  by (simp_all add: getRate_def STAmount_divide_def bn_nat_eval STAmount_issue_def canonicalize_def
      isSWT_amount_def Let_def scale_up_loop.simps scale_down_loop.simps amount_consts)

theorem rate_encodes_price_witness:
  "\<exists>p1 p2. STAmount_divide bn_nat (iou_amount 2000000000000000 0) (iou_amount 1000000000000000 0) noIssue = Inr p1 \<and>
     STAmount_divide bn_nat (iou_amount 3000000000000000 0) (iou_amount 1000000000000000 0) noIssue = Inr p2 \<and>
     (getRate bn_nat (iou_amount 1000000000000000 0) (iou_amount 2000000000000000 0) <
      getRate bn_nat (iou_amount 1000000000000000 0) (iou_amount 3000000000000000 0) \<longleftrightarrow>
      amount_value p1 < amount_value p2)"
  using rate_encodes_price [OF bn_nat_exact _ _ _ _ _ _ rate_examples]
    iou_amount_issue [of 1000000000000000 0] iou_amount_issue [of 2000000000000000 0]
    iou_amount_issue [of 3000000000000000 0]
  by (auto simp: cMinValue_def cMaxValue_def)

text \<open>C19: multiplication rounding down of two amounts of the same sign, not both native, into an issued
  currency: whatever it returns is at least zero and at most the exact product. A non-zero result falls short of the
  product by less than two units in its last place, and a zero result means the product was below 2 * 10^-81.\<close>

theorem mulRound_down_bounds:
  assumes bn: "bn_exact bn" and a: "canonical v1" and b: "canonical v2"
    and sgn: "mIsNegative v1 = mIsNegative v2" and iou: "\<not> isSWT (currency iss)"
    and mixed: "\<not> (mIsNative v1 \<and> mIsNative v2)" and res: "mulRound bn v1 v2 iss False = Inr c"
  shows "0 \<le> amount_value c \<and> amount_value c \<le> amount_value v1 * amount_value v2 \<and>
    amount_value v1 * amount_value v2 <
      (if mValue c = 0 then 2 * 10 powi -81 else amount_value c + 2 * 10 powi mOffset c)"
proof (cases "mValue v1 = 0 \<or> mValue v2 = 0")
  case True
  then have "mValue c = 0" "amount_value v1 * amount_value v2 = 0"
    using res iou by (auto simp: mulRound_def STAmount_issue_def canonicalize_def isSWT_amount_def)
  moreover from this have "amount_value c = 0" by simp
  ultimately show ?thesis by (simp del: amount_value_zero_iff mult_eq_0_iff)
next
  case False
  then have nz: "mValue v1 \<noteq> 0" "mValue v2 \<noteq> 0" by simp_all
  obtain x e where x: "mulRound bn v1 v2 iss False = STAmount_issue iss (word_of_nat x) e False"
    "x < 2 ^ 64" "10 ^ 16 \<le> x" "real x * 10 powi e \<le> magnitude v1 * magnitude v2"
    "magnitude v1 * magnitude v2 < real (x + 1) * 10 powi e"
    by (rule mulRound_down_eq [OF bn a nz(1) b nz(2) sgn iou mixed])
  have x0: "0 < x" using x(3) by simp
  note t = STAmount_issue_truncates [OF iou x0 x(2) x(1) [symmetric, unfolded res]]
  have v: "amount_value v1 * amount_value v2 = magnitude v1 * magnitude v2" "amount_value c = magnitude c"
    using sgn t by (simp_all add: amount_value_def)
  have "magnitude v1 * magnitude v2 < magnitude c + 2 * 10 powi mOffset c" if nz: "mValue c \<noteq> 0"
    using t nz by (intro unit_slack [OF _ _ nz x(3,5)]) auto
  moreover have "magnitude v1 * magnitude v2 < 2 * 10 powi -81" if z: "mValue c = 0"
  proof -
    have "real x * 10 powi e < 10 powi -81" using t z by auto
    moreover have "real (x + 1) * 10 powi e \<le> 2 * (real x * 10 powi e)"
      using x0 by (simp add: distrib_right)
    ultimately show ?thesis using x(5) by linarith
  qed
  ultimately show ?thesis using v t x(4) by auto
qed

lemma mulRound_example:
  "mulRound bn_nat (iou_amount 2000000000000000 0) (iou_amount 3000000000000000 0) noIssue False =
   Inr (iou_amount 6000000000000000 15)"
  by (simp add: mulRound_def bn_nat_eval STAmount_issue_def canonicalize_def
      isSWT_amount_def Let_def scale_up_loop.simps scale_down_loop.simps amount_consts iou_amount_def)

theorem mulRound_down_bounds_witness:
  "amount_value (iou_amount 6000000000000000 15) \<le>
     amount_value (iou_amount 2000000000000000 0) * amount_value (iou_amount 3000000000000000 0)"
  using mulRound_down_bounds [OF bn_nat_exact _ _ _ _ _ mulRound_example]
    iou_amount_issue [of 2000000000000000 0] iou_amount_issue [of 3000000000000000 0]
  by (auto simp: cMinValue_def cMaxValue_def)

text \<open>When the product of two non-negative native amounts is returned, the two overflow guards
  have made sure the 64-bit product is the exact one.\<close>

theorem native_product_no_wrap:
  assumes "canonical a" "mIsNative a" "\<not> mIsNegative a" "canonical b" "mIsNative b" "\<not> mIsNegative b"
    "native_product a b = Inr c"
  shows "amount_value c = amount_value a * amount_value b \<and> mIsNative c"
  by (rule native_product_spec [OF assms])

lemma native_product_example:
  "native_product (native_amount 3) (native_amount 5) = Inr (STAmount_named 15 False)"
  by (simp add: native_product_def getSNValue_def s64_def)

theorem native_product_no_wrap_witness: "amount_value (STAmount_named 15 False) = 15"
  using native_product_no_wrap [OF _ _ _ _ _ _ native_product_example]
    native_amount_canonical [of 3] native_amount_canonical [of 5]
  by (simp add: const_unat native_amount_value)

text \<open>Rounding up can return less than the exact product or quotient: the digits dropped while
  the mantissa is above ten times the largest one are lost before the last digit is rounded.\<close>

theorem round_up_falls_short:
  "\<exists>a b c d e f. canonical a \<and> canonical b \<and> mulRound bn_nat a b noIssue True = Inr c \<and>
     amount_value c < amount_value a * amount_value b \<and>
     canonical d \<and> canonical e \<and> divRound bn_nat d e noIssue True = Inr f \<and>
     amount_value f < amount_value d / amount_value e"
proof -
  have "mulRound bn_nat (iou_amount 2246913578024694 0) (iou_amount 4450549454951088 0) noIssue True =
      Inr (iou_amount 1000000000000000 16)"
    "divRound bn_nat (iou_amount 6749034957182413 0) (iou_amount 1919305400802436 0) noIssue True =
      Inr (iou_amount 3516394501031848 (-15))"
    by (simp_all add: mulRound_def divRound_def bn_nat_eval cMinValue_def iou_amount_issue)
  moreover have "amount_value (iou_amount 1000000000000000 16) <
      amount_value (iou_amount 2246913578024694 0) * amount_value (iou_amount 4450549454951088 0)"
    "amount_value (iou_amount 3516394501031848 (-15)) <
      amount_value (iou_amount 6749034957182413 0) / amount_value (iou_amount 1919305400802436 0)"
    unfolding iou_amount_value by (simp_all add: power_int_minus)
  moreover have "canonical (iou_amount 2246913578024694 0)" "canonical (iou_amount 4450549454951088 0)"
    "canonical (iou_amount 6749034957182413 0)" "canonical (iou_amount 1919305400802436 0)"
    by (simp_all add: iou_amount_issue cMinValue_def cMaxValue_def)
  ultimately show ?thesis by blast
qed

text \<open>A negative issued amount below the smallest magnitude canonicalizes to a zero that keeps its
  sign and has exponent 0, and which the comparison places below the proper zero.\<close>

theorem underflow_negative_zero:
  "canonicalize ((iou_amount 1000000000000000 (-97))\<lparr>mIsNegative := True\<rparr>) =
     Inr ((iou_amount 0 0)\<lparr>mIsNegative := True\<rparr>) \<and>
   compare_amount ((iou_amount 0 0)\<lparr>mIsNegative := True\<rparr>) (iou_amount 0 (-100)) = -1"
  by code_simp

text \<open>An unscaled native amount is scaled up with a wrapping multiplication: one unit with
  exponent 64 becomes zero and no error is raised.\<close>

theorem native_scaling_wraps:
  "canonicalize ((native_amount 1)\<lparr>mOffset := 64\<rparr>) = Inr (native_amount 0)"
  by code_simp

end
