(* ===== verification/LedgerFormat.thy ===== *)
theory LedgerFormat
  imports AmountArith
begin

text \<open>
  Ledger entries as field-indexed objects: the fields of \<open>protocol/impl/SField.cpp\<close>, the templates
  of \<open>protocol/impl/LedgerFormats.cpp\<close>, the accessors of \<open>protocol/STObject.h\<close> with the
  exceptions they throw, and the result codes of \<open>protocol/TER.h\<close>.
\<close>

named_theorems sfields \<open>the codes of the fields\<close>
named_theorems ters \<open>the numbers of the result codes\<close>

subsection \<open>Fields\<close>

datatype SerializedTypeID =
    STI_UINT16 | STI_UINT32 | STI_UINT64 | STI_HASH128 | STI_HASH256 | STI_AMOUNT | STI_VL
  | STI_ACCOUNT | STI_ARRAY | STI_HASH160 | STI_PATHSET | STI_VECTOR256

datatype sfield = SField (fieldType: SerializedTypeID) (fieldValue: nat)

definition sfLedgerEntryType :: sfield where [sfields]: "sfLedgerEntryType = SField STI_UINT16 1"
definition sfMasterWeight :: sfield where [sfields]: "sfMasterWeight = SField STI_UINT16 3"
definition sfFlags :: sfield where [sfields]: "sfFlags = SField STI_UINT32 2"
definition sfSequence :: sfield where [sfields]: "sfSequence = SField STI_UINT32 4"
definition sfPreviousTxnLgrSeq :: sfield where [sfields]: "sfPreviousTxnLgrSeq = SField STI_UINT32 5"
definition sfExpiration :: sfield where [sfields]: "sfExpiration = SField STI_UINT32 10"
definition sfTransferRate :: sfield where [sfields]: "sfTransferRate = SField STI_UINT32 11"
definition sfWalletSize :: sfield where [sfields]: "sfWalletSize = SField STI_UINT32 12"
definition sfOwnerCount :: sfield where [sfields]: "sfOwnerCount = SField STI_UINT32 13"
definition sfHighQualityIn :: sfield where [sfields]: "sfHighQualityIn = SField STI_UINT32 16"
definition sfHighQualityOut :: sfield where [sfields]: "sfHighQualityOut = SField STI_UINT32 17"
definition sfLowQualityIn :: sfield where [sfields]: "sfLowQualityIn = SField STI_UINT32 18"
definition sfLowQualityOut :: sfield where [sfields]: "sfLowQualityOut = SField STI_UINT32 19"
definition sfFirstLedgerSequence :: sfield where [sfields]: "sfFirstLedgerSequence = SField STI_UINT32 26"
definition sfLastLedgerSequence :: sfield where [sfields]: "sfLastLedgerSequence = SField STI_UINT32 27"
definition sfReferenceFeeUnits :: sfield where [sfields]: "sfReferenceFeeUnits = SField STI_UINT32 30"
definition sfReserveBase :: sfield where [sfields]: "sfReserveBase = SField STI_UINT32 31"
definition sfReserveIncrement :: sfield where [sfields]: "sfReserveIncrement = SField STI_UINT32 32"
definition sfRelationType :: sfield where [sfields]: "sfRelationType = SField STI_UINT32 35"
definition sfQuorum :: sfield where [sfields]: "sfQuorum = SField STI_UINT32 36"
definition sfQuorumHigh :: sfield where [sfields]: "sfQuorumHigh = SField STI_UINT32 37"
definition sfIndexNext :: sfield where [sfields]: "sfIndexNext = SField STI_UINT64 1"
definition sfIndexPrevious :: sfield where [sfields]: "sfIndexPrevious = SField STI_UINT64 2"
definition sfBookNode :: sfield where [sfields]: "sfBookNode = SField STI_UINT64 3"
definition sfOwnerNode :: sfield where [sfields]: "sfOwnerNode = SField STI_UINT64 4"
definition sfBaseFee :: sfield where [sfields]: "sfBaseFee = SField STI_UINT64 5"
definition sfExchangeRate :: sfield where [sfields]: "sfExchangeRate = SField STI_UINT64 6"
definition sfLowNode :: sfield where [sfields]: "sfLowNode = SField STI_UINT64 7"
definition sfHighNode :: sfield where [sfields]: "sfHighNode = SField STI_UINT64 8"
definition sfEmailHash :: sfield where [sfields]: "sfEmailHash = SField STI_HASH128 1"
definition sfPreviousTxnID :: sfield where [sfields]: "sfPreviousTxnID = SField STI_HASH256 5"
definition sfLedgerIndex :: sfield where [sfields]: "sfLedgerIndex = SField STI_HASH256 6"
definition sfWalletLocator :: sfield where [sfields]: "sfWalletLocator = SField STI_HASH256 7"
definition sfRootIndex :: sfield where [sfields]: "sfRootIndex = SField STI_HASH256 8"
definition sfAccountTxnID :: sfield where [sfields]: "sfAccountTxnID = SField STI_HASH256 9"
definition sfBookDirectory :: sfield where [sfields]: "sfBookDirectory = SField STI_HASH256 16"
definition sfTakerPaysCurrency :: sfield where [sfields]: "sfTakerPaysCurrency = SField STI_HASH160 1"
definition sfTakerPaysIssuer :: sfield where [sfields]: "sfTakerPaysIssuer = SField STI_HASH160 2"
definition sfTakerGetsCurrency :: sfield where [sfields]: "sfTakerGetsCurrency = SField STI_HASH160 3"
definition sfTakerGetsIssuer :: sfield where [sfields]: "sfTakerGetsIssuer = SField STI_HASH160 4"
definition sfAmount :: sfield where [sfields]: "sfAmount = SField STI_AMOUNT 1"
definition sfBalance :: sfield where [sfields]: "sfBalance = SField STI_AMOUNT 2"
definition sfTakerPays :: sfield where [sfields]: "sfTakerPays = SField STI_AMOUNT 4"
definition sfTakerGets :: sfield where [sfields]: "sfTakerGets = SField STI_AMOUNT 5"
definition sfLowLimit :: sfield where [sfields]: "sfLowLimit = SField STI_AMOUNT 6"
definition sfHighLimit :: sfield where [sfields]: "sfHighLimit = SField STI_AMOUNT 7"
definition sfFee :: sfield where [sfields]: "sfFee = SField STI_AMOUNT 8"
definition sfMessageKey :: sfield where [sfields]: "sfMessageKey = SField STI_VL 2"
definition sfDomain :: sfield where [sfields]: "sfDomain = SField STI_VL 7"
definition sfNickname :: sfield where [sfields]: "sfNickname = SField STI_VL 15"
definition sfAccount :: sfield where [sfields]: "sfAccount = SField STI_ACCOUNT 1"
definition sfOwner :: sfield where [sfields]: "sfOwner = SField STI_ACCOUNT 2"
definition sfTarget :: sfield where [sfields]: "sfTarget = SField STI_ACCOUNT 7"
definition sfRegularKey :: sfield where [sfields]: "sfRegularKey = SField STI_ACCOUNT 8"
definition sfFeeAccountID :: sfield where [sfields]: "sfFeeAccountID = SField STI_ACCOUNT 9"
definition sfBlackListAccountID :: sfield where [sfields]: "sfBlackListAccountID = SField STI_ACCOUNT 10"
definition sfIssuerAccountID :: sfield where [sfields]: "sfIssuerAccountID = SField STI_ACCOUNT 11"
definition sfIndexes :: sfield where [sfields]: "sfIndexes = SField STI_VECTOR256 1"
definition sfHashes :: sfield where [sfields]: "sfHashes = SField STI_VECTOR256 2"
definition sfAmendments :: sfield where [sfields]: "sfAmendments = SField STI_VECTOR256 3"
definition sfSignerEntries :: sfield where [sfields]: "sfSignerEntries = SField STI_ARRAY 12"
definition sfCurrencyRates :: sfield where [sfields]: "sfCurrencyRates = SField STI_ARRAY 13"

subsection \<open>Result codes\<close>

type_synonym TER = int

definition telLOCAL_ERROR :: TER where [ters]: "telLOCAL_ERROR = -399"
definition telFAILED_PROCESSING :: TER where [ters]: "telFAILED_PROCESSING = -395"
definition telINSUF_FEE_P :: TER where [ters]: "telINSUF_FEE_P = -394"
definition telBLKLIST :: TER where [ters]: "telBLKLIST = -392"
definition telINSUF_FUND :: TER where [ters]: "telINSUF_FUND = -391"
definition temMALFORMED :: TER where [ters]: "temMALFORMED = -299"
definition temBAD_AMOUNT :: TER where [ters]: "temBAD_AMOUNT = -298"
definition temBAD_AUTH_MASTER :: TER where [ters]: "temBAD_AUTH_MASTER = -297"
definition temBAD_FEE :: TER where [ters]: "temBAD_FEE = -294"
definition temBAD_SRC_ACCOUNT :: TER where [ters]: "temBAD_SRC_ACCOUNT = -279"
definition temINVALID :: TER where [ters]: "temINVALID = -275"
definition temINVALID_FLAG :: TER where [ters]: "temINVALID_FLAG = -274"
definition temUNKNOWN :: TER where [ters]: "temUNKNOWN = -268"
definition tefFAILURE :: TER where [ters]: "tefFAILURE = -199"
definition tefALREADY :: TER where [ters]: "tefALREADY = -198"
definition tefBAD_AUTH :: TER where [ters]: "tefBAD_AUTH = -196"
definition tefBAD_LEDGER :: TER where [ters]: "tefBAD_LEDGER = -195"
definition tefINTERNAL :: TER where [ters]: "tefINTERNAL = -192"
definition tefPAST_SEQ :: TER where [ters]: "tefPAST_SEQ = -190"
definition tefWRONG_PRIOR :: TER where [ters]: "tefWRONG_PRIOR = -189"
definition tefMASTER_DISABLED :: TER where [ters]: "tefMASTER_DISABLED = -188"
definition tefMAX_LEDGER :: TER where [ters]: "tefMAX_LEDGER = -187"
definition terRETRY :: TER where [ters]: "terRETRY = -99"
definition terINSUF_FEE_B :: TER where [ters]: "terINSUF_FEE_B = -97"
definition terNO_ACCOUNT :: TER where [ters]: "terNO_ACCOUNT = -96"
definition terPRE_SEQ :: TER where [ters]: "terPRE_SEQ = -92"
definition tesSUCCESS :: TER where [ters]: "tesSUCCESS = 0"
definition tecCLAIM :: TER where [ters]: "tecCLAIM = 100"
definition tecFAILED_PROCESSING :: TER where [ters]: "tecFAILED_PROCESSING = 105"
definition tecDIR_FULL :: TER where [ters]: "tecDIR_FULL = 121"
definition tecINSUFF_FEE :: TER where [ters]: "tecINSUFF_FEE = 136"

definition isTelLocal :: "TER \<Rightarrow> bool" where
  "isTelLocal x = (x \<ge> telLOCAL_ERROR \<and> x < temMALFORMED)"

definition isTemMalformed :: "TER \<Rightarrow> bool" where
  "isTemMalformed x = (x \<ge> temMALFORMED \<and> x < tefFAILURE)"

definition isTefFailure :: "TER \<Rightarrow> bool" where
  "isTefFailure x = (x \<ge> tefFAILURE \<and> x < terRETRY)"

definition isTerRetry :: "TER \<Rightarrow> bool" where
  "isTerRetry x = (x \<ge> terRETRY \<and> x < tesSUCCESS)"

definition isTesSuccess :: "TER \<Rightarrow> bool" where
  "isTesSuccess x = (x = tesSUCCESS)"

definition isTecClaim :: "TER \<Rightarrow> bool" where
  "isTecClaim x = (x \<ge> tecCLAIM)"

subsection \<open>Entry types, flags and templates\<close>

datatype LedgerEntryType =
    ltINVALID | ltACCOUNT_ROOT | ltDIR_NODE | ltSKYWELL_STATE | ltTrust_STATE | ltTICKET | ltMANAGE_FEE
  | ltMANAGE_ISSUER | ltBLACKLIST | ltOFFER | ltLEDGER_HASHES | ltAMENDMENTS | ltFEE_SETTINGS | ltNICKNAME
  | ltNotUsed01 | ltSIGNER_LIST

text \<open>The characters the source gives the entry types, as 16-bit numbers.\<close>

fun entry_code :: "LedgerEntryType \<Rightarrow> u16" where
  "entry_code ltINVALID = -1"
| "entry_code ltACCOUNT_ROOT = 97"
| "entry_code ltDIR_NODE = 100"
| "entry_code ltSKYWELL_STATE = 114"
| "entry_code ltTrust_STATE = 116"
| "entry_code ltTICKET = 84"
| "entry_code ltMANAGE_FEE = 109"
| "entry_code ltMANAGE_ISSUER = 105"
| "entry_code ltBLACKLIST = 108"
| "entry_code ltOFFER = 111"
| "entry_code ltLEDGER_HASHES = 104"
| "entry_code ltAMENDMENTS = 102"
| "entry_code ltFEE_SETTINGS = 115"
| "entry_code ltNICKNAME = 110"
| "entry_code ltNotUsed01 = 99"
| "entry_code ltSIGNER_LIST = 83"

definition lsfRequireDestTag :: u32 where "lsfRequireDestTag = 0x00020000"
definition lsfDisableMaster :: u32 where "lsfDisableMaster = 0x00100000"
definition lsfGlobalFreeze :: u32 where "lsfGlobalFreeze = 0x00400000"
definition lsfDefaultSkywell :: u32 where "lsfDefaultSkywell = 0x00800000"
definition lsfLowReserve :: u32 where "lsfLowReserve = 0x00010000"
definition lsfHighReserve :: u32 where "lsfHighReserve = 0x00020000"
definition lsfLowAuth :: u32 where "lsfLowAuth = 0x00040000"
definition lsfHighAuth :: u32 where "lsfHighAuth = 0x00080000"
definition lsfLowNoSkywell :: u32 where "lsfLowNoSkywell = 0x00100000"
definition lsfHighNoSkywell :: u32 where "lsfHighNoSkywell = 0x00200000"
definition lsfLowFreeze :: u32 where "lsfLowFreeze = 0x00400000"
definition lsfHighFreeze :: u32 where "lsfHighFreeze = 0x00800000"

datatype SOE_Flags = SOE_REQUIRED | SOE_OPTIONAL | SOE_DEFAULT

fun format_elements :: "LedgerEntryType \<Rightarrow> (sfield \<times> SOE_Flags) list option" where
  "format_elements ltACCOUNT_ROOT = Some
     [(sfAccount, SOE_REQUIRED), (sfSequence, SOE_REQUIRED), (sfBalance, SOE_REQUIRED),
      (sfOwnerCount, SOE_REQUIRED), (sfPreviousTxnID, SOE_REQUIRED), (sfPreviousTxnLgrSeq, SOE_REQUIRED),
      (sfAccountTxnID, SOE_OPTIONAL), (sfRegularKey, SOE_OPTIONAL), (sfEmailHash, SOE_OPTIONAL),
      (sfWalletLocator, SOE_OPTIONAL), (sfWalletSize, SOE_OPTIONAL), (sfMessageKey, SOE_OPTIONAL),
      (sfTransferRate, SOE_OPTIONAL), (sfDomain, SOE_OPTIONAL), (sfNickname, SOE_OPTIONAL),
      (sfCurrencyRates, SOE_OPTIONAL)]"
| "format_elements ltDIR_NODE = Some
     [(sfOwner, SOE_OPTIONAL), (sfTakerPaysCurrency, SOE_OPTIONAL), (sfTakerPaysIssuer, SOE_OPTIONAL),
      (sfTakerGetsCurrency, SOE_OPTIONAL), (sfTakerGetsIssuer, SOE_OPTIONAL), (sfExchangeRate, SOE_OPTIONAL),
      (sfIndexes, SOE_REQUIRED), (sfRootIndex, SOE_REQUIRED), (sfIndexNext, SOE_OPTIONAL),
      (sfIndexPrevious, SOE_OPTIONAL)]"
| "format_elements ltOFFER = Some
     [(sfAccount, SOE_REQUIRED), (sfSequence, SOE_REQUIRED), (sfTakerPays, SOE_REQUIRED),
      (sfTakerGets, SOE_REQUIRED), (sfBookDirectory, SOE_REQUIRED), (sfBookNode, SOE_REQUIRED),
      (sfOwnerNode, SOE_REQUIRED), (sfPreviousTxnID, SOE_REQUIRED), (sfPreviousTxnLgrSeq, SOE_REQUIRED),
      (sfExpiration, SOE_OPTIONAL)]"
| "format_elements ltSKYWELL_STATE = Some
     [(sfBalance, SOE_REQUIRED), (sfLowLimit, SOE_REQUIRED), (sfHighLimit, SOE_REQUIRED),
      (sfPreviousTxnID, SOE_REQUIRED), (sfPreviousTxnLgrSeq, SOE_REQUIRED), (sfLowNode, SOE_OPTIONAL),
      (sfLowQualityIn, SOE_OPTIONAL), (sfLowQualityOut, SOE_OPTIONAL), (sfHighNode, SOE_OPTIONAL),
      (sfHighQualityIn, SOE_OPTIONAL), (sfHighQualityOut, SOE_OPTIONAL)]"
| "format_elements ltTrust_STATE = Some
     [(sfBalance, SOE_REQUIRED), (sfRelationType, SOE_OPTIONAL), (sfLowLimit, SOE_REQUIRED),
      (sfHighLimit, SOE_REQUIRED), (sfLowNode, SOE_OPTIONAL), (sfLowQualityIn, SOE_OPTIONAL),
      (sfLowQualityOut, SOE_OPTIONAL), (sfHighNode, SOE_OPTIONAL), (sfHighQualityIn, SOE_OPTIONAL),
      (sfHighQualityOut, SOE_OPTIONAL)]"
| "format_elements ltLEDGER_HASHES = Some
     [(sfFirstLedgerSequence, SOE_OPTIONAL), (sfLastLedgerSequence, SOE_OPTIONAL), (sfHashes, SOE_REQUIRED)]"
| "format_elements ltAMENDMENTS = Some [(sfAmendments, SOE_REQUIRED)]"
| "format_elements ltFEE_SETTINGS = Some
     [(sfBaseFee, SOE_REQUIRED), (sfReferenceFeeUnits, SOE_REQUIRED), (sfReserveBase, SOE_REQUIRED),
      (sfReserveIncrement, SOE_REQUIRED)]"
| "format_elements ltTICKET = Some
     [(sfAccount, SOE_REQUIRED), (sfSequence, SOE_REQUIRED), (sfOwnerNode, SOE_REQUIRED),
      (sfTarget, SOE_OPTIONAL), (sfExpiration, SOE_OPTIONAL)]"
| "format_elements ltMANAGE_FEE = Some [(sfFeeAccountID, SOE_REQUIRED)]"
| "format_elements ltMANAGE_ISSUER = Some [(sfIssuerAccountID, SOE_REQUIRED)]"
| "format_elements ltBLACKLIST = Some [(sfBlackListAccountID, SOE_REQUIRED)]"
| "format_elements ltSIGNER_LIST = Some
     [(sfAccount, SOE_REQUIRED), (sfMasterWeight, SOE_REQUIRED), (sfQuorum, SOE_REQUIRED),
      (sfQuorumHigh, SOE_REQUIRED), (sfSignerEntries, SOE_REQUIRED)]"
| "format_elements ltNICKNAME = Some
     [(sfAccount, SOE_REQUIRED), (sfDomain, SOE_OPTIONAL), (sfNickname, SOE_OPTIONAL)]"
| "format_elements ltINVALID = None"
| "format_elements ltNotUsed01 = None"

definition addCommonFields :: "(sfield \<times> SOE_Flags) list \<Rightarrow> (sfield \<times> SOE_Flags) list" where
  "addCommonFields es =
     [(sfLedgerIndex, SOE_OPTIONAL), (sfLedgerEntryType, SOE_REQUIRED), (sfFlags, SOE_REQUIRED)] @ es"

definition findByType :: "LedgerEntryType \<Rightarrow> (sfield \<times> SOE_Flags) list option" where
  "findByType t = map_option addCommonFields (format_elements t)"

subsection \<open>Objects\<close>

text \<open>The steps of a payment path, and the paths of a payment.\<close>

record path_element =
  peType :: u32
  peAccountID :: Account
  peCurrencyID :: Currency
  peIssuerID :: Account

type_synonym path_set = "path_element list list"

text \<open>
  The value of a field. An account value is \<open>None\<close> when its bytes are not the 20 of an account,
  as in a freshly created entry; an array holds objects as lists of fields.
\<close>

datatype stvar =
    STUInt16 u16 | STUInt32 u32 | STUInt64 u64 | STHash128 u128 | STHash160 u160 | STHash256 u256
  | STAmount stamount | STBlob blob | STAccount "u160 option" | STVector256 "u256 list"
  | STArray "(sfield \<times> stvar) list list" | STPathSet path_set

fun stype :: "stvar \<Rightarrow> SerializedTypeID" where
  "stype (STUInt16 _) = STI_UINT16"
| "stype (STUInt32 _) = STI_UINT32"
| "stype (STUInt64 _) = STI_UINT64"
| "stype (STHash128 _) = STI_HASH128"
| "stype (STHash160 _) = STI_HASH160"
| "stype (STHash256 _) = STI_HASH256"
| "stype (STAmount _) = STI_AMOUNT"
| "stype (STBlob _) = STI_VL"
| "stype (STAccount _) = STI_ACCOUNT"
| "stype (STVector256 _) = STI_VECTOR256"
| "stype (STArray _) = STI_ARRAY"
| "stype (STPathSet _) = STI_PATHSET"

fun defaultObject :: "SerializedTypeID \<Rightarrow> stvar" where
  "defaultObject STI_UINT16 = STUInt16 0"
| "defaultObject STI_UINT32 = STUInt32 0"
| "defaultObject STI_UINT64 = STUInt64 0"
| "defaultObject STI_HASH128 = STHash128 0"
| "defaultObject STI_HASH160 = STHash160 0"
| "defaultObject STI_HASH256 = STHash256 0"
| "defaultObject STI_AMOUNT = STAmount (STAmount_named 0 False)"
| "defaultObject STI_VL = STBlob []"
| "defaultObject STI_ACCOUNT = STAccount None"
| "defaultObject STI_VECTOR256 = STVector256 []"
| "defaultObject STI_ARRAY = STArray []"
| "defaultObject STI_PATHSET = STPathSet []"

text \<open>
  A ledger entry: its key, its type and the values of the fields that are present. The template of
  its type decides which fields it can have at all.
\<close>

record sle =
  sleIndex :: u256
  sleType :: LedgerEntryType
  sleFields :: "sfield \<rightharpoonup> stvar"

definition hasField :: "sfield \<Rightarrow> sle \<Rightarrow> bool" where
  "hasField f e = (case findByType (sleType e) of None \<Rightarrow> False | Some es \<Rightarrow> f \<in> fst ` set es)"

definition isFieldPresent :: "sfield \<Rightarrow> sle \<Rightarrow> bool" where
  "isFieldPresent f e = (hasField f e \<and> sleFields e f \<noteq> None)"

text \<open>\<open>getFieldByValue\<close> and \<open>getFieldByConstRef\<close>; the cast yields \<open>None\<close> on the wrong type.\<close>

definition getFieldBy :: "(stvar \<Rightarrow> 'a option) \<Rightarrow> 'a \<Rightarrow> sfield \<Rightarrow> sle \<Rightarrow> 'a result" where
  "getFieldBy cast dflt f e =
     (if \<not> hasField f e then Inl (RuntimeError ''Field not found'')
      else case sleFields e f of
             None \<Rightarrow> Inr dflt
           | Some v \<Rightarrow> (case cast v of None \<Rightarrow> Inl (RuntimeError ''Wrong field type'') | Some x \<Rightarrow> Inr x))"

definition getFieldU16 :: "sfield \<Rightarrow> sle \<Rightarrow> u16 result" where
  "getFieldU16 = getFieldBy (\<lambda>v. case v of STUInt16 x \<Rightarrow> Some x | _ \<Rightarrow> None) 0"

definition getFieldU32 :: "sfield \<Rightarrow> sle \<Rightarrow> u32 result" where
  "getFieldU32 = getFieldBy (\<lambda>v. case v of STUInt32 x \<Rightarrow> Some x | _ \<Rightarrow> None) 0"

definition getFieldU64 :: "sfield \<Rightarrow> sle \<Rightarrow> u64 result" where
  "getFieldU64 = getFieldBy (\<lambda>v. case v of STUInt64 x \<Rightarrow> Some x | _ \<Rightarrow> None) 0"

definition getFieldH256 :: "sfield \<Rightarrow> sle \<Rightarrow> u256 result" where
  "getFieldH256 = getFieldBy (\<lambda>v. case v of STHash256 x \<Rightarrow> Some x | _ \<Rightarrow> None) 0"

definition getFieldAccount160 :: "sfield \<Rightarrow> sle \<Rightarrow> u160 result" where
  "getFieldAccount160 =
     getFieldBy (\<lambda>v. case v of STAccount (Some x) \<Rightarrow> Some x | STAccount None \<Rightarrow> Some 0 | _ \<Rightarrow> None) 0"

definition getFieldAmount :: "sfield \<Rightarrow> sle \<Rightarrow> stamount result" where
  "getFieldAmount = getFieldBy (\<lambda>v. case v of STAmount x \<Rightarrow> Some x | _ \<Rightarrow> None) (STAmount_u64 0 False)"

definition getFieldV256 :: "sfield \<Rightarrow> sle \<Rightarrow> u256 list result" where
  "getFieldV256 = getFieldBy (\<lambda>v. case v of STVector256 x \<Rightarrow> Some x | _ \<Rightarrow> None) []"

definition getFieldArray :: "sfield \<Rightarrow> sle \<Rightarrow> (sfield \<times> stvar) list list result" where
  "getFieldArray = getFieldBy (\<lambda>v. case v of STArray x \<Rightarrow> Some x | _ \<Rightarrow> None) []"

definition getFieldH128 :: "sfield \<Rightarrow> sle \<Rightarrow> u128 result" where
  "getFieldH128 = getFieldBy (\<lambda>v. case v of STHash128 x \<Rightarrow> Some x | _ \<Rightarrow> None) 0"

definition getFieldVL :: "sfield \<Rightarrow> sle \<Rightarrow> blob result" where
  "getFieldVL = getFieldBy (\<lambda>v. case v of STBlob x \<Rightarrow> Some x | _ \<Rightarrow> None) []"

text \<open>Flags are zero where the entry has none: \<open>getFlags\<close> does not throw.\<close>

definition getFlags :: "sle \<Rightarrow> u32" where
  "getFlags e =
     (if hasField sfFlags e then case sleFields e sfFlags of Some (STUInt32 x) \<Rightarrow> x | _ \<Rightarrow> 0 else 0)"

definition isFlag :: "u32 \<Rightarrow> sle \<Rightarrow> bool" where
  "isFlag f e = (getFlags e AND f = f)"

text \<open>
  The setters: an absent field is first made present with the default of its declared type, and
  the value is then assigned to it if it has the type of the setter.
\<close>

definition setField :: "sfield \<Rightarrow> stvar \<Rightarrow> sle \<Rightarrow> sle result" where
  "setField f v e =
     (if \<not> hasField f e then Inl (RuntimeError ''Field not found'')
      else let cur = (case sleFields e f of None \<Rightarrow> defaultObject (fieldType f) | Some c \<Rightarrow> c)
           in if stype cur = stype v then Inr (e\<lparr>sleFields := (sleFields e)(f \<mapsto> v)\<rparr>)
              else Inl (RuntimeError ''Wrong field type''))"

definition setFieldU16 :: "sfield \<Rightarrow> u16 \<Rightarrow> sle \<Rightarrow> sle result" where
  "setFieldU16 f x = setField f (STUInt16 x)"

definition setFieldU32 :: "sfield \<Rightarrow> u32 \<Rightarrow> sle \<Rightarrow> sle result" where
  "setFieldU32 f x = setField f (STUInt32 x)"

definition setFieldU64 :: "sfield \<Rightarrow> u64 \<Rightarrow> sle \<Rightarrow> sle result" where
  "setFieldU64 f x = setField f (STUInt64 x)"

definition setFieldH160 :: "sfield \<Rightarrow> u160 \<Rightarrow> sle \<Rightarrow> sle result" where
  "setFieldH160 f x = setField f (STHash160 x)"

definition setFieldH256 :: "sfield \<Rightarrow> u256 \<Rightarrow> sle \<Rightarrow> sle result" where
  "setFieldH256 f x = setField f (STHash256 x)"

definition setFieldAccount :: "sfield \<Rightarrow> u160 \<Rightarrow> sle \<Rightarrow> sle result" where
  "setFieldAccount f x = setField f (STAccount (Some x))"

definition setFieldAmount :: "sfield \<Rightarrow> stamount \<Rightarrow> sle \<Rightarrow> sle result" where
  "setFieldAmount f x = setField f (STAmount x)"

definition setFieldV256 :: "sfield \<Rightarrow> u256 list \<Rightarrow> sle \<Rightarrow> sle result" where
  "setFieldV256 f x = setField f (STVector256 x)"

definition setFieldArray :: "sfield \<Rightarrow> (sfield \<times> stvar) list list \<Rightarrow> sle \<Rightarrow> sle result" where
  "setFieldArray f x = setField f (STArray x)"

definition setFieldH128 :: "sfield \<Rightarrow> u128 \<Rightarrow> sle \<Rightarrow> sle result" where
  "setFieldH128 f x = setField f (STHash128 x)"

definition setFieldVL :: "sfield \<Rightarrow> blob \<Rightarrow> sle \<Rightarrow> sle result" where
  "setFieldVL f x = setField f (STBlob x)"

text \<open>
  Making an optional field present with its default value or absent, and changing single flags;
  an entry that has no flags is left as it is.
\<close>

definition makeFieldPresent :: "sfield \<Rightarrow> sle \<Rightarrow> sle result" where
  "makeFieldPresent f e =
     (if \<not> hasField f e then Inl (RuntimeError ''Field not found'')
      else case sleFields e f of
             Some _ \<Rightarrow> Inr e
           | None \<Rightarrow> Inr (e\<lparr>sleFields := (sleFields e)(f \<mapsto> defaultObject (fieldType f))\<rparr>))"

definition makeFieldAbsent :: "sfield \<Rightarrow> sle \<Rightarrow> sle result" where
  "makeFieldAbsent f e =
     (if \<not> hasField f e then Inl (RuntimeError ''Field not found'')
      else Inr (e\<lparr>sleFields := (sleFields e)(f := None)\<rparr>))"

definition update_flags :: "(u32 \<Rightarrow> u32) \<Rightarrow> sle \<Rightarrow> sle" where
  "update_flags g e =
     (if hasField sfFlags e then
        case sleFields e sfFlags of
          Some (STUInt32 x) \<Rightarrow> e\<lparr>sleFields := (sleFields e)(sfFlags \<mapsto> STUInt32 (g x))\<rparr>
        | _ \<Rightarrow> e
      else e)"

definition setFlag :: "u32 \<Rightarrow> sle \<Rightarrow> sle" where
  "setFlag f = update_flags (\<lambda>x. x OR f)"

definition clearFlag :: "u32 \<Rightarrow> sle \<Rightarrow> sle" where
  "clearFlag f = update_flags (\<lambda>x. x AND NOT f)"

text \<open>An object set up from a template: required fields get their default, the others are absent.\<close>

definition set_template :: "(sfield \<times> SOE_Flags) list \<Rightarrow> sfield \<rightharpoonup> stvar" where
  "set_template es =
     map_of (map (\<lambda>(f, _). (f, defaultObject (fieldType f))) (filter (\<lambda>(_, r). r = SOE_REQUIRED) es))"

definition STLedgerEntry :: "LedgerEntryType \<Rightarrow> u256 \<Rightarrow> sle result" where
  "STLedgerEntry t index =
     (case findByType t of
        None \<Rightarrow> Inl (RuntimeError ''invalid ledger entry type'')
      | Some es \<Rightarrow>
          setFieldU16 sfLedgerEntryType (entry_code t)
            \<lparr>sleIndex = index, sleType = t, sleFields = set_template es\<rparr>)"

text \<open>
  Well-typed entries, and the values of their fields as total functions: in a well-typed entry the
  accessors do not throw on a field of its template.
\<close>

definition entry_ok :: "sle \<Rightarrow> bool" where
  "entry_ok e \<longleftrightarrow>
     (\<exists>es. findByType (sleType e) = Some es \<and>
       (\<forall>f v. sleFields e f = Some v \<longrightarrow> f \<in> fst ` set es \<and> stype v = fieldType f) \<and>
       (\<forall>f. (f, SOE_REQUIRED) \<in> set es \<longrightarrow> sleFields e f \<noteq> None))"

definition put :: "sfield \<Rightarrow> stvar \<Rightarrow> sle \<Rightarrow> sle" where
  "put f v e = e\<lparr>sleFields := (sleFields e)(f \<mapsto> v)\<rparr>"

definition valU32 :: "sfield \<Rightarrow> sle \<Rightarrow> u32" where
  "valU32 f e = (case sleFields e f of Some (STUInt32 x) \<Rightarrow> x | _ \<Rightarrow> 0)"

definition valU64 :: "sfield \<Rightarrow> sle \<Rightarrow> u64" where
  "valU64 f e = (case sleFields e f of Some (STUInt64 x) \<Rightarrow> x | _ \<Rightarrow> 0)"

definition valV256 :: "sfield \<Rightarrow> sle \<Rightarrow> u256 list" where
  "valV256 f e = (case sleFields e f of Some (STVector256 x) \<Rightarrow> x | _ \<Rightarrow> [])"

definition valAmount :: "sfield \<Rightarrow> sle \<Rightarrow> stamount" where
  "valAmount f e = (case sleFields e f of Some (STAmount x) \<Rightarrow> x | _ \<Rightarrow> STAmount_u64 0 False)"

definition read_fails :: "SerializedTypeID \<Rightarrow> sfield \<Rightarrow> sle \<Rightarrow> bool" where
  "read_fails t f e = (\<not> hasField f e \<or> isFieldPresent f e \<and> fieldType f \<noteq> t)"

lemma hasField_put [simp]: "hasField f (put g v e) = hasField f e"
  by (simp add: hasField_def put_def)

lemma put_sel [simp]: "sleIndex (put f v e) = sleIndex e" "sleType (put f v e) = sleType e"
  by (simp_all add: put_def)

lemma val_put_same [simp]:
  "valU32 f (put f (STUInt32 a) e) = a" "valU64 f (put f (STUInt64 b) e) = b"
  "valV256 f (put f (STVector256 c) e) = c" "valAmount f (put f (STAmount d) e) = d"
  by (simp_all add: put_def valU32_def valU64_def valV256_def valAmount_def)

lemma val_put_other [simp]:
  assumes "f \<noteq> g"
  shows "valU32 f (put g v e) = valU32 f e" "valU64 f (put g v e) = valU64 f e"
    "valV256 f (put g v e) = valV256 f e" "valAmount f (put g v e) = valAmount f e"
  using assms by (simp_all add: put_def valU32_def valU64_def valV256_def valAmount_def)

lemma entry_ok_stype: "entry_ok e \<Longrightarrow> sleFields e f = Some v \<Longrightarrow> stype v = fieldType f"
  by (auto simp: entry_ok_def)

lemma get_val:
  assumes "entry_ok e" "hasField f e"
  shows "fieldType f = STI_UINT32 \<Longrightarrow> getFieldU32 f e = Inr (valU32 f e)"
    "fieldType f = STI_UINT64 \<Longrightarrow> getFieldU64 f e = Inr (valU64 f e)"
    "fieldType f = STI_VECTOR256 \<Longrightarrow> getFieldV256 f e = Inr (valV256 f e)"
    "fieldType f = STI_AMOUNT \<Longrightarrow> getFieldAmount f e = Inr (valAmount f e)"
  using assms entry_ok_stype [OF assms(1), of f]
  by (auto simp: getFieldU32_def getFieldU64_def getFieldV256_def getFieldAmount_def getFieldBy_def
      valU32_def valU64_def valV256_def valAmount_def split: option.splits stvar.splits)

lemma stype_default [simp]: "stype (defaultObject t) = t"
  by (cases t) simp_all

lemma setField_put:
  assumes "entry_ok e" "hasField f e" "stype v = fieldType f"
  shows "setField f v e = Inr (put f v e)"
  using assms by (auto simp: setField_def put_def entry_ok_def Let_def split: option.splits)

lemmas set_put = setFieldU16_def setFieldU32_def setFieldU64_def setFieldH160_def setFieldH256_def
  setFieldAccount_def setFieldAmount_def setFieldV256_def setFieldArray_def setField_put

lemma entry_ok_put: "entry_ok e \<Longrightarrow> hasField f e \<Longrightarrow> stype v = fieldType f \<Longrightarrow> entry_ok (put f v e)"
  by (auto simp: entry_ok_def hasField_def put_def)

lemma setField_ok: "setField f v e = Inr e' \<Longrightarrow> entry_ok e \<Longrightarrow> entry_ok e' \<and> e' = put f v e"
proof -
  assume s: "setField f v e = Inr e'" and ok: "entry_ok e"
  then have h: "hasField f e" and e': "e' = put f v e"
    by (auto simp: setField_def put_def Let_def split: if_splits)
  have "stype v = fieldType f"
    using s ok by (fastforce simp: setField_def entry_ok_def Let_def split: if_splits option.splits)
  then show ?thesis using entry_ok_put [OF ok h] e' by simp
qed

lemmas template_defs = hasField_def findByType_def addCommonFields_def sfields

lemma hasField_dir:
  assumes "sleType e = ltDIR_NODE"
  shows "hasField sfIndexes e" "hasField sfRootIndex e" "hasField sfIndexNext e" "hasField sfIndexPrevious e"
    "hasField sfOwner e" "hasField sfTakerPaysCurrency e" "hasField sfTakerPaysIssuer e"
    "hasField sfTakerGetsCurrency e" "hasField sfTakerGetsIssuer e" "hasField sfExchangeRate e"
  using assms by (simp_all add: template_defs)

lemma hasField_account:
  assumes "sleType e = ltACCOUNT_ROOT"
  shows "hasField sfAccount e" "hasField sfSequence e" "hasField sfBalance e" "hasField sfOwnerCount e"
    "hasField sfFlags e"
  using assms by (simp_all add: template_defs)

lemma hasField_line:
  assumes "sleType e = ltSKYWELL_STATE"
  shows "hasField sfBalance e" "hasField sfLowLimit e" "hasField sfHighLimit e" "hasField sfLowNode e"
    "hasField sfHighNode e" "hasField sfLowQualityIn e" "hasField sfLowQualityOut e"
    "hasField sfHighQualityIn e" "hasField sfHighQualityOut e" "hasField sfFlags e"
  using assms by (simp_all add: template_defs)

lemma field_types [simp]:
  "fieldType sfIndexes = STI_VECTOR256" "fieldType sfRootIndex = STI_HASH256" "fieldType sfIndexNext = STI_UINT64"
  "fieldType sfIndexPrevious = STI_UINT64" "fieldType sfOwner = STI_ACCOUNT" "fieldType sfTakerPaysCurrency = STI_HASH160"
  "fieldType sfTakerPaysIssuer = STI_HASH160" "fieldType sfTakerGetsCurrency = STI_HASH160"
  "fieldType sfTakerGetsIssuer = STI_HASH160" "fieldType sfExchangeRate = STI_UINT64"
  "fieldType sfBalance = STI_AMOUNT" "fieldType sfLowLimit = STI_AMOUNT" "fieldType sfHighLimit = STI_AMOUNT"
  "fieldType sfLowNode = STI_UINT64" "fieldType sfHighNode = STI_UINT64" "fieldType sfFlags = STI_UINT32"
  "fieldType sfLowQualityIn = STI_UINT32" "fieldType sfLowQualityOut = STI_UINT32"
  "fieldType sfHighQualityIn = STI_UINT32" "fieldType sfHighQualityOut = STI_UINT32"
  "fieldType sfOwnerCount = STI_UINT32" "fieldType sfSequence = STI_UINT32" "fieldType sfAccount = STI_ACCOUNT"
  by (simp_all add: sfields)

lemma page_fields_distinct [simp]:
  "sfIndexes \<noteq> sfIndexNext" "sfIndexNext \<noteq> sfIndexes" "sfIndexes \<noteq> sfIndexPrevious" "sfIndexPrevious \<noteq> sfIndexes"
  "sfIndexNext \<noteq> sfIndexPrevious" "sfIndexPrevious \<noteq> sfIndexNext" "sfIndexes \<noteq> sfRootIndex"
  "sfIndexNext \<noteq> sfRootIndex" "sfIndexPrevious \<noteq> sfRootIndex" "sfIndexes \<noteq> sfOwner" "sfIndexNext \<noteq> sfOwner"
  "sfIndexPrevious \<noteq> sfOwner" "sfIndexes \<noteq> sfTakerPaysCurrency" "sfIndexNext \<noteq> sfTakerPaysCurrency"
  "sfIndexPrevious \<noteq> sfTakerPaysCurrency" "sfIndexes \<noteq> sfTakerPaysIssuer" "sfIndexNext \<noteq> sfTakerPaysIssuer"
  "sfIndexPrevious \<noteq> sfTakerPaysIssuer" "sfIndexes \<noteq> sfTakerGetsCurrency" "sfIndexNext \<noteq> sfTakerGetsCurrency"
  "sfIndexPrevious \<noteq> sfTakerGetsCurrency" "sfIndexes \<noteq> sfTakerGetsIssuer" "sfIndexNext \<noteq> sfTakerGetsIssuer"
  "sfIndexPrevious \<noteq> sfTakerGetsIssuer" "sfIndexes \<noteq> sfExchangeRate" "sfIndexNext \<noteq> sfExchangeRate"
  "sfIndexPrevious \<noteq> sfExchangeRate"
  by (simp_all add: sfields)

lemma templates_distinct: "findByType t = Some es \<Longrightarrow> distinct (map fst es)"
  by (cases t) (auto simp: findByType_def addCommonFields_def sfields)

lemma STLedgerEntry_spec:
  assumes "findByType t = Some es"
  shows "STLedgerEntry t i = Inr (put sfLedgerEntryType (STUInt16 (entry_code t))
    \<lparr>sleIndex = i, sleType = t, sleFields = set_template es\<rparr>)" (is "_ = Inr ?e")
    and "entry_ok (put sfLedgerEntryType (STUInt16 (entry_code t))
    \<lparr>sleIndex = i, sleType = t, sleFields = set_template es\<rparr>)"
proof -
  let ?b = "\<lparr>sleIndex = i, sleType = t, sleFields = set_template es\<rparr>"
  have some: "set_template es f = Some v \<Longrightarrow> f \<in> fst ` set es \<and> stype v = fieldType f" for f v
    by (auto simp: set_template_def dest!: map_of_SomeD) force
  have req: "(f, SOE_REQUIRED) \<in> set es \<Longrightarrow> set_template es f \<noteq> None" for f
    by (auto simp: set_template_def map_of_eq_None_iff) force
  have ok: "entry_ok ?b" using assms some req by (auto simp: entry_ok_def)
  have "hasField sfLedgerEntryType ?b"
    using assms by (auto simp: hasField_def findByType_def addCommonFields_def)
  with ok show "STLedgerEntry t i = Inr ?e" "entry_ok ?e"
    by (simp_all add: STLedgerEntry_def assms set_put entry_ok_put sfields)
qed

lemma setField_cases:
  assumes "entry_ok e"
  shows "if hasField f e \<and> stype v = fieldType f then setField f v e = Inr (put f v e) \<and> entry_ok (put f v e)
    else isl (setField f v e)"
proof (cases "hasField f e \<and> stype v = fieldType f")
  case True
  then show ?thesis using assms by (simp add: setField_put entry_ok_put)
next
  case False
  have "setField f v e \<noteq> Inr e'" for e'
  proof
    assume "setField f v e = Inr e'"
    then show False
      using False assms by (fastforce simp: setField_def entry_ok_def Let_def split: if_splits option.splits)
  qed
  then have "isl (setField f v e)" by (cases "setField f v e") auto
  then show ?thesis unfolding if_not_P [OF False] .
qed

lemma isl_getFieldBy:
  assumes "entry_ok e" and "\<And>v. (cast v = None) = (stype v \<noteq> t)"
  shows "isl (getFieldBy cast d f e) = read_fails t f e"
proof (cases "sleFields e f")
  case None
  then show ?thesis by (simp add: getFieldBy_def read_fails_def isFieldPresent_def)
next
  case (Some v)
  then show ?thesis
    using assms(2) [of v] entry_ok_stype [OF assms(1) Some]
    by (auto simp: getFieldBy_def read_fails_def isFieldPresent_def split: option.splits)
qed

lemma accessor_fails:
  assumes "entry_ok e"
  shows "isl (getFieldU16 f e) = read_fails STI_UINT16 f e" "isl (getFieldU32 f e) = read_fails STI_UINT32 f e"
    "isl (getFieldU64 f e) = read_fails STI_UINT64 f e" "isl (getFieldH128 f e) = read_fails STI_HASH128 f e"
    "isl (getFieldH256 f e) = read_fails STI_HASH256 f e" "isl (getFieldAccount160 f e) = read_fails STI_ACCOUNT f e"
    "isl (getFieldAmount f e) = read_fails STI_AMOUNT f e" "isl (getFieldV256 f e) = read_fails STI_VECTOR256 f e"
    "isl (getFieldArray f e) = read_fails STI_ARRAY f e" "isl (getFieldVL f e) = read_fails STI_VL f e"
  unfolding getFieldU16_def getFieldU32_def getFieldU64_def getFieldH128_def getFieldH256_def getFieldAccount160_def
    getFieldAmount_def getFieldV256_def getFieldArray_def getFieldVL_def
  by (rule isl_getFieldBy [OF assms]; simp split: stvar.split option.split)+

lemma update_flags_ok: "entry_ok e \<Longrightarrow> entry_ok (update_flags g e)"
  by (auto simp: update_flags_def split: option.splits stvar.splits)
    (auto simp: entry_ok_def sfields)

lemma STLedgerEntry_cases:
  "case STLedgerEntry t i of Inl _ \<Rightarrow> findByType t = None | Inr e \<Rightarrow> entry_ok e \<and> sleIndex e = i \<and> sleType e = t"
proof (cases "findByType t")
  case None
  then show ?thesis by (simp add: STLedgerEntry_def)
next
  case (Some es)
  then show ?thesis using STLedgerEntry_spec [OF Some, of i] by simp
qed



end
