(* ===== verification/StdMap.thy ===== *)
theory StdMap
  imports Prelude
begin

text \<open>
  Ordered maps as the sources use \<open>std::map\<close>: a list of key-value pairs in ascending key order,
  with insertion, removal, lookup and the first entry above a key. The interface the clients rely
  on is the locale \<open>ordered_map\<close>.
\<close>

type_synonym ('k, 'v) smap = "('k \<times> 'v) list"

fun smap_insert :: "'k::linorder \<Rightarrow> 'v \<Rightarrow> ('k, 'v) smap \<Rightarrow> ('k, 'v) smap" where
  "smap_insert k v [] = [(k, v)]"
| "smap_insert k v ((k', v') # m) =
     (if k < k' then (k, v) # (k', v') # m
      else if k = k' then (k, v) # m
      else (k', v') # smap_insert k v m)"

definition smap_erase :: "'k \<Rightarrow> ('k, 'v) smap \<Rightarrow> ('k, 'v) smap" where
  "smap_erase k m = filter (\<lambda>(k', _). k' \<noteq> k) m"

fun smap_upper_bound :: "'k::linorder \<Rightarrow> ('k, 'v) smap \<Rightarrow> ('k \<times> 'v) option" where
  "smap_upper_bound k [] = None"
| "smap_upper_bound k ((k', v') # m) = (if k < k' then Some (k', v') else smap_upper_bound k m)"

definition smap_valid :: "('k::linorder, 'v) smap \<Rightarrow> bool" where
  "smap_valid m = sorted_wrt (<) (map fst m)"

locale ordered_map =
  fixes valid :: "'m \<Rightarrow> bool"
    and new :: 'm
    and lookup :: "'m \<Rightarrow> 'k::linorder \<Rightarrow> 'v option"
    and insert :: "'k \<Rightarrow> 'v \<Rightarrow> 'm \<Rightarrow> 'm"
    and erase :: "'k \<Rightarrow> 'm \<Rightarrow> 'm"
    and upper_bound :: "'k \<Rightarrow> 'm \<Rightarrow> ('k \<times> 'v) option"
  assumes valid_new: "valid new"
    and lookup_new: "lookup new k = None"
    and valid_insert: "valid m \<Longrightarrow> valid (insert k v m)"
    and valid_erase: "valid m \<Longrightarrow> valid (erase k m)"
    and lookup_insert: "valid m \<Longrightarrow> lookup (insert k v m) = (lookup m)(k \<mapsto> v)"
    and lookup_erase: "valid m \<Longrightarrow> lookup (erase k m) = (lookup m)(k := None)"
    and upper_bound_Some: "valid m \<Longrightarrow> upper_bound k m = Some (k', v) \<Longrightarrow>
      k < k' \<and> lookup m k' = Some v \<and> (\<forall>j. k < j \<longrightarrow> j < k' \<longrightarrow> lookup m j = None)"
    and upper_bound_None: "valid m \<Longrightarrow> upper_bound k m = None \<Longrightarrow> k < j \<Longrightarrow> lookup m j = None"
begin

lemma upper_bound_iff:
  assumes "valid m"
  shows "upper_bound k m = Some (k', v) \<longleftrightarrow>
    k < k' \<and> lookup m k' = Some v \<and> (\<forall>j. k < j \<longrightarrow> j < k' \<longrightarrow> lookup m j = None)"
proof
  assume r: "k < k' \<and> lookup m k' = Some v \<and> (\<forall>j. k < j \<longrightarrow> j < k' \<longrightarrow> lookup m j = None)"
  then obtain j w where j: "upper_bound k m = Some (j, w)"
    using upper_bound_None [OF assms, of k k'] by (cases "upper_bound k m") auto
  note u = upper_bound_Some [OF assms j]
  have "j = k'" using u r by (cases j k' rule: linorder_cases) auto
  with j u r show "upper_bound k m = Some (k', v)" by simp
qed (use upper_bound_Some [OF assms] in blast)

lemma upper_bound_None_iff: "valid m \<Longrightarrow> upper_bound k m = None \<longleftrightarrow> (\<forall>j. k < j \<longrightarrow> lookup m j = None)"
  using upper_bound_None upper_bound_Some by (cases "upper_bound k m") fastforce+

lemma erase_insert: "valid m \<Longrightarrow> lookup m k = None \<Longrightarrow> lookup (erase k (insert k v m)) = lookup m"
  by (auto simp: valid_insert lookup_insert lookup_erase)

end

lemma smap_insert_keys: "fst ` set (smap_insert k v m) = insert k (fst ` set m)"
proof (induction m)
  case (Cons x m)
  obtain k' v' where "x = (k', v')" by (cases x)
  with Cons show ?case by (simp add: insert_commute)
qed simp

lemma set_smap_insert: "set (smap_insert k v m) \<subseteq> insert (k, v) (set m)"
  by (induction k v m rule: smap_insert.induct) auto

lemma smap_valid_Cons: "smap_valid ((k, v) # m) \<longleftrightarrow> smap_valid m \<and> (\<forall>j \<in> fst ` set m. k < j)"
  by (auto simp: smap_valid_def)

lemma smap_valid_insert: "smap_valid m \<Longrightarrow> smap_valid (smap_insert k v m)"
proof (induction m)
  case (Cons x m)
  obtain k' v' where "x = (k', v')" by (cases x)
  with Cons show ?case by (auto simp: smap_valid_Cons smap_insert_keys)
qed (simp add: smap_valid_def)

lemma map_of_above: "\<forall>j \<in> fst ` set m. k < j \<Longrightarrow> map_of m (k :: 'k::linorder) = None"
  by (induction m) auto

lemma smap_lookup_insert: "smap_valid m \<Longrightarrow> map_of (smap_insert k v m) = (map_of m)(k \<mapsto> v)"
  by (induction m) (auto simp: smap_valid_Cons fun_upd_twist)

lemma smap_valid_filter: "smap_valid m \<Longrightarrow> smap_valid (filter P m)"
  by (induction m) (auto simp: smap_valid_Cons)

lemma smap_valid_erase: "smap_valid m \<Longrightarrow> smap_valid (smap_erase k m)"
  by (simp add: smap_erase_def smap_valid_filter)

lemma smap_lookup_erase: "map_of (smap_erase k m) = (map_of m)(k := None)"
  by (induction m) (auto simp: smap_erase_def)

lemma smap_upper_bound_spec:
  "smap_valid m \<Longrightarrow>
    (case smap_upper_bound k m of
       None \<Rightarrow> \<forall>j. k < j \<longrightarrow> map_of m j = None
     | Some (k', v) \<Rightarrow> k < k' \<and> map_of m k' = Some v \<and> (\<forall>j. k < j \<longrightarrow> j < k' \<longrightarrow> map_of m j = None))"
proof (induction m)
  case (Cons x m)
  obtain k' v' where x: "x = (k', v')" by (cases x)
  have IH: "case smap_upper_bound k m of None \<Rightarrow> \<forall>j. k < j \<longrightarrow> map_of m j = None
      | Some (k', v) \<Rightarrow> k < k' \<and> map_of m k' = Some v \<and> (\<forall>j. k < j \<longrightarrow> j < k' \<longrightarrow> map_of m j = None)"
    and above: "\<forall>j \<in> fst ` set m. k' < j"
    using Cons x by (auto simp: smap_valid_Cons)
  have small: "map_of m j = None" if "j < k'" for j
    by (rule map_of_above) (use that above in auto)
  have "k' \<noteq> j" if "map_of m j = Some v" for j v
    using that above map_of_SomeD [OF that] by fastforce
  with IH small x show ?case by (auto split: option.splits)
qed simp

interpretation std: ordered_map smap_valid "[]" map_of smap_insert smap_erase smap_upper_bound
proof unfold_locales
  fix m :: "('k::linorder, 'v) smap" and k k' v
  assume "smap_valid m" "smap_upper_bound k m = Some (k', v)"
  then show "k < k' \<and> map_of m k' = Some v \<and> (\<forall>j. k < j \<longrightarrow> j < k' \<longrightarrow> map_of m j = None)"
    using smap_upper_bound_spec [of m k] by simp
next
  fix m :: "('k::linorder, 'v) smap" and k j
  assume "smap_valid m" "smap_upper_bound k m = None" "k < j"
  then show "map_of m j = None" using smap_upper_bound_spec [of m k] by simp
qed (simp_all add: smap_valid_insert smap_lookup_insert smap_lookup_erase smap_valid_erase,
    simp add: smap_valid_def)

end
