(* ===== verification/ObjectWire.thy ===== *)
theory ObjectWire
  imports LedgerFormat StdMap
begin

text \<open>
  The binary form of objects: \<open>STObject::add\<close> and \<open>STObject::set\<close> (\<open>protocol/impl/STObject.cpp\<close>),
  \<open>STArray\<close>, \<open>STPathSet\<close>, \<open>STVector256\<close>, \<open>STBlob\<close> and \<open>STAccount\<close>, and the choice of a reader by the type
  of the field (\<open>protocol/impl/STVar.cpp\<close>). It is what is hashed, signed, stored and sent.

  Here an object is the list of its fields, as in the program; a field is the pair of its type
  and its number. Objects and arrays nest, and accounts keep the bytes they were read from. Written objects are
  read back in the order of their field codes, and reading ends on every input.
\<close>

subsection \<open>Fields\<close>

type_synonym field = "int \<times> int"

definition fieldCode :: "field \<Rightarrow> int" where
  "fieldCode f = push_bit 16 (fst f) OR snd f"

text \<open>The fields that are left out of what is signed: \<open>sfTxnSignature\<close>, \<open>sfSigningKey\<close>,
  \<open>sfSignature\<close>, \<open>sfSign\<close>, \<open>sfTxnSignatures\<close> and \<open>sfSigns\<close>.\<close>

definition signingField :: "field \<Rightarrow> bool" where
  "signingField f \<longleftrightarrow> f \<notin> {(7, 4), (7, 5), (7, 6), (14, 12), (15, 3), (15, 11)}"

definition shouldInclude :: "bool \<Rightarrow> field \<Rightarrow> bool" where
  "shouldInclude withSigningField f \<longleftrightarrow> snd f < 256 \<and> (withSigningField \<or> signingField f)"

text \<open>
  The field with a type and a number; \<open>None\<close> is \<open>sfInvalid\<close>. The fields known at compile time are those of
  the types that can be extended, and a few with numbers above 255. The code 0 of \<open>sfGeneric\<close> is not asked for.
\<close>

definition getField :: "int \<Rightarrow> int \<Rightarrow> field option" where
  "getField type field =
     (if (type, field) \<in> {(5, 257), (5, 258), (10001, 257), (10002, 257), (10003, 257), (10004, 257)} then Some (type, field)
      else if field > 255 \<or> type < 0 then None
      else if type \<in> {1, 2, 3, 4, 5, 6, 7, 8, 14, 15, 16, 17, 18, 19} then Some (type, field)
      else None)"

subsection \<open>Values\<close>

datatype bvar =
    BNotPresent
  | BUInt8 u8 | BUInt16 u16 | BUInt32 u32 | BUInt64 u64 | BHash128 u128 | BHash160 u160 | BHash256 u256
  | BAmount stamount | BBlob blob | BAccount blob | BVector256 "u256 list" | BPathSet path_set
  | BObject "(field \<times> bvar) list" | BArray "(field \<times> (field \<times> bvar) list) list"

fun getSType :: "bvar \<Rightarrow> int" where
  "getSType BNotPresent = 0"
| "getSType (BUInt16 _) = 1"
| "getSType (BUInt32 _) = 2"
| "getSType (BUInt64 _) = 3"
| "getSType (BHash128 _) = 4"
| "getSType (BHash256 _) = 5"
| "getSType (BAmount _) = 6"
| "getSType (BBlob _) = 7"
| "getSType (BAccount _) = 8"
| "getSType (BObject _) = 14"
| "getSType (BArray _) = 15"
| "getSType (BUInt8 _) = 16"
| "getSType (BHash160 _) = 17"
| "getSType (BPathSet _) = 18"
| "getSType (BVector256 _) = 19"

subsection \<open>Paths\<close>

definition STPathElement :: "Account \<Rightarrow> Currency \<Rightarrow> Account \<Rightarrow> bool \<Rightarrow> path_element" where
  "STPathElement acc cur iss forceCurrency =
     \<lparr>peType = (if isSWT acc then 0 else 0x01) OR (if forceCurrency \<or> \<not> isSWT cur then 0x10 else 0) OR
        (if isSWT iss then 0 else 0x20),
      peAccountID = acc, peCurrencyID = cur, peIssuerID = iss\<rparr>"

definition add160_if :: "bool \<Rightarrow> u160 \<Rightarrow> serializer \<Rightarrow> serializer" where
  "add160_if b v s = (if b then snd (add160 v s) else s)"

definition element_add :: "path_element \<Rightarrow> serializer \<Rightarrow> serializer" where
  "element_add e s =
     (let iType = peType e; s = snd (add8 (ucast iType) s);
          s = add160_if (iType AND 0x01 \<noteq> 0) (peAccountID e) s;
          s = add160_if (iType AND 0x10 \<noteq> 0) (peCurrencyID e) s
      in add160_if (iType AND 0x20 \<noteq> 0) (peIssuerID e) s)"

fun paths_add :: "bool \<Rightarrow> path_set \<Rightarrow> serializer \<Rightarrow> serializer" where
  "paths_add first [] s = snd (add8 0 s)"
| "paths_add first (p # ps) s = paths_add False ps (fold element_add p (if first then s else snd (add8 0xFF s)))"

definition STPathSet_add :: "path_set \<Rightarrow> serializer \<Rightarrow> serializer" where
  "STPathSet_add ps s = paths_add True ps s"

definition sit_get160_if :: "bool \<Rightarrow> serialiter \<Rightarrow> (u160 \<times> serialiter) result" where
  "sit_get160_if b sit = (if b then sit_get160 sit else Inr (0, sit))"

lemma get8_remain: "sit_get8 it = Inr (b, it') \<Longrightarrow> sit_remain it' < sit_remain it"
  by (auto simp: sit_get8_def sit_advance_def split: if_splits)

lemma get160_if_remain: "sit_get160_if c it = Inr (b, it') \<Longrightarrow> sit_remain it' \<le> sit_remain it"
  by (auto simp: sit_get160_if_def sit_get160_def sit_getBitString_def sit_advance_def Let_def split: if_splits)

function paths_read :: "path_element list \<Rightarrow> path_set \<Rightarrow> serialiter \<Rightarrow> (path_set \<times> serialiter) result" where
  "paths_read path value sit =
     bindE (sit_get8 sit) (\<lambda>(iType, sit).
       if iType = 0 \<or> iType = 0xFF then
         if path = [] then Inl (RuntimeError ''empty path'')
         else if iType = 0 then Inr (value @ [path], sit)
         else paths_read [] (value @ [path]) sit
       else if iType AND NOT 0x31 \<noteq> 0 then Inl (RuntimeError ''bad path element'')
       else
         bindE (sit_get160_if (iType AND 0x01 \<noteq> 0) sit) (\<lambda>(acc, sit).
         bindE (sit_get160_if (iType AND 0x10 \<noteq> 0) sit) (\<lambda>(cur, sit).
         bindE (sit_get160_if (iType AND 0x20 \<noteq> 0) sit) (\<lambda>(iss, sit).
           paths_read (path @ [STPathElement acc cur iss (iType AND 0x10 \<noteq> 0)]) value sit))))"
  by pat_completeness auto

termination
proof (relation "measure (\<lambda>(_, _, it). sit_remain it)", goal_cases)
  case (3 path val it x a it1 y b it2 z c it3 w d it4)
  then have "sit_remain it1 < sit_remain it" "sit_remain it2 \<le> sit_remain it1" "sit_remain it3 \<le> sit_remain it2"
    "sit_remain it4 \<le> sit_remain it3"
    using get8_remain get160_if_remain by metis+
  then show ?case by simp
qed (auto dest: get8_remain)

definition STPathSet_sit :: "serialiter \<Rightarrow> (path_set \<times> serialiter) result" where
  "STPathSet_sit sit = paths_read [] [] sit"

subsection \<open>Writing\<close>

text \<open>\<open>std::map::insert\<close>: an element whose key is already there is not inserted.\<close>

definition map_insert :: "'k::linorder \<Rightarrow> 'v \<Rightarrow> ('k, 'v) smap \<Rightarrow> ('k, 'v) smap" where
  "map_insert k v m = (if map_of m k = None then smap_insert k v m else m)"

definition pick :: "bool \<Rightarrow> (field \<times> bvar) list \<Rightarrow> (int, field \<times> bvar) smap" where
  "pick withSigningFields v = fold (\<lambda>e fields.
     if snd e \<noteq> BNotPresent \<and> shouldInclude withSigningFields (fst e) then map_insert (fieldCode (fst e)) e fields
     else fields) v []"

definition sorted_fields :: "bool \<Rightarrow> (field \<times> bvar) list \<Rightarrow> (field \<times> bvar) list" where
  "sorted_fields withSigningFields v = map snd (pick withSigningFields v)"

fun foldE :: "('a \<Rightarrow> 's \<Rightarrow> 's result) \<Rightarrow> 'a list \<Rightarrow> 's \<Rightarrow> 's result" where
  "foldE f [] s = Inr s"
| "foldE f (x # xs) s = bindE (f x s) (foldE f xs)"

lemma foldE_cong [fundef_cong]:
  "xs = ys \<Longrightarrow> s = t \<Longrightarrow> (\<And>x s. x \<in> set ys \<Longrightarrow> f x s = g x s) \<Longrightarrow> foldE f xs s = foldE g ys t"
  by (induction xs arbitrary: ys s t) (auto intro!: bindE_cong)

definition putFieldID :: "field \<Rightarrow> serializer \<Rightarrow> serializer" where
  "putFieldID f s = snd (addFieldID (fst f) (snd f) s)"

text \<open>A field with its identifier; \<open>body\<close> writes the value. Arrays and objects are terminated.\<close>

definition field_add :: "field \<Rightarrow> bvar \<Rightarrow> (serializer \<Rightarrow> serializer result) \<Rightarrow> serializer \<Rightarrow> serializer result" where
  "field_add f v body s =
     bindE (body (putFieldID f s)) (\<lambda>s.
       Inr (case v of BArray _ \<Rightarrow> putFieldID (15, 1) s | BObject _ \<Rightarrow> putFieldID (14, 1) s | _ \<Rightarrow> s))"

lemma set_map_insert: "set (map_insert k v m) \<subseteq> insert (k, v) (set m)"
  using set_smap_insert [of k v m] by (auto simp: map_insert_def split: if_splits)

lemma set_pick: "set (pick b fs) \<subseteq> (\<lambda>e. (fieldCode (fst e), e)) ` set fs"
proof -
  have "set (fold (\<lambda>e m. if snd e \<noteq> BNotPresent \<and> shouldInclude b (fst e) then map_insert (fieldCode (fst e)) e m else m) fs m)
      \<subseteq> set m \<union> (\<lambda>e. (fieldCode (fst e), e)) ` set fs" for m
  proof (induction fs arbitrary: m)
    case (Cons e fs)
    show ?case using Cons.IH [of "map_insert (fieldCode (fst e)) e m"] Cons.IH [of m]
        set_map_insert [of "fieldCode (fst e)" e m] by auto
  qed simp
  then show ?thesis by (fastforce simp: pick_def)
qed

lemma sorted_fields_sub: "set (sorted_fields b fs) \<subseteq> set fs"
  using set_pick [of b fs] by (auto simp: sorted_fields_def)

lemma field_size: "(f, v) \<in> set (sorted_fields b fs) \<Longrightarrow> size v < size (BObject fs)"
proof -
  assume "(f, v) \<in> set (sorted_fields b fs)"
  then have "(f, v) \<in> set fs" using sorted_fields_sub by blast
  then have "size_prod (\<lambda>_. 0) size (f, v) < Suc (size_list (size_prod (\<lambda>_. 0) size) fs)"
    by (meson le_imp_less_Suc less_or_eq_imp_le size_list_estimation')
  then show ?thesis by simp
qed

lemma object_size: "(f, fs) \<in> set os \<Longrightarrow> size (BObject fs) < size (BArray os)"
proof -
  let ?h = "size_prod (\<lambda>_. 0) (size_list (size_prod (\<lambda>_. 0) size))"
  assume "(f, fs) \<in> set os"
  then have "?h (f, fs) \<le> size_list ?h os"
    by (meson less_or_eq_imp_le size_list_estimation')
  then show ?thesis by simp
qed

function (sequential) STBase_add :: "bvar \<Rightarrow> serializer \<Rightarrow> serializer result" where
  "STBase_add BNotPresent s = Inr s"
| "STBase_add (BUInt8 x) s = Inr (snd (add8 x s))"
| "STBase_add (BUInt16 x) s = Inr (snd (add16 x s))"
| "STBase_add (BUInt32 x) s = Inr (snd (add32 x s))"
| "STBase_add (BUInt64 x) s = Inr (snd (add64 x s))"
| "STBase_add (BHash128 x) s = Inr (snd (addBitString x s))"
| "STBase_add (BHash160 x) s = Inr (snd (addBitString x s))"
| "STBase_add (BHash256 x) s = Inr (snd (addBitString x s))"
| "STBase_add (BAmount a) s = Inr (STAmount_add a s)"
| "STBase_add (BBlob b) s = bindE (addVL_ptr b s) (\<lambda>(_, s). Inr s)"
| "STBase_add (BAccount b) s = bindE (addVL_ptr b s) (\<lambda>(_, s). Inr s)"
| "STBase_add (BVector256 xs) s = bindE (addVL_ptr (concat (map uint_bytes xs)) s) (\<lambda>(_, s). Inr s)"
| "STBase_add (BPathSet ps) s = Inr (STPathSet_add ps s)"
| "STBase_add (BObject fs) s = foldE (\<lambda>e. field_add (fst e) (snd e) (\<lambda>s. STBase_add (snd e) s)) (sorted_fields True fs) s"
| "STBase_add (BArray os) s =
     foldE (\<lambda>e s. bindE (STBase_add (BObject (snd e)) (putFieldID (fst e) s)) (\<lambda>s. Inr (putFieldID (14, 1) s))) os s"
  by pat_completeness auto
termination
  using field_size object_size by (relation "measure (\<lambda>(v, _). size v)") (fastforce simp del: bvar.size)+

definition STObject_add :: "bool \<Rightarrow> (field \<times> bvar) list \<Rightarrow> serializer \<Rightarrow> serializer result" where
  "STObject_add withSigningFields v s =
     foldE (\<lambda>e. field_add (fst e) (snd e) (\<lambda>s. STBase_add (snd e) s)) (sorted_fields withSigningFields v) s"

subsection \<open>Reading\<close>

definition STVector256_sit :: "serialiter \<Rightarrow> (u256 list \<times> serialiter) result" where
  "STVector256_sit sit =
     bindE (sit_getVL sit) (\<lambda>(data, sit).
       Inr (map (\<lambda>i. uint_of_bytes (take 32 (drop (32 * i) data))) [0..<length data div 32], sit))"

text \<open>
  The readers of objects, arrays and values call each other. The first argument bounds the depth of the
  calls, iterations of the loops included; \<open>STObject_set\<close> below passes enough for any input. A reader of
  an object also tells whether it saw the end marker.
\<close>

fun object_read :: "nat \<Rightarrow> serialiter \<Rightarrow> ((field \<times> bvar) list \<times> bool \<times> serialiter) result"
  and array_read :: "nat \<Rightarrow> serialiter \<Rightarrow> ((field \<times> (field \<times> bvar) list) list \<times> serialiter) result"
  and var_read :: "nat \<Rightarrow> int \<Rightarrow> serialiter \<Rightarrow> (bvar \<times> serialiter) result" where
  "object_read 0 sit = Inl Diverges"
| "object_read (Suc n) sit =
     (if sit_empty sit then Inr ([], False, sit)
      else
        bindE (sit_getFieldID sit) (\<lambda>((type, field), sit).
          if type = 15 \<and> field = 1 then Inl (RuntimeError ''Illegal terminator in object'')
          else if type = 14 \<and> field = 1 then Inr ([], True, sit)
          else
            case getField type field of
              None \<Rightarrow> Inl (RuntimeError ''Unknown field'')
            | Some fn \<Rightarrow>
                bindE (var_read n (fst fn) sit) (\<lambda>(v, sit).
                bindE (object_read n sit) (\<lambda>(vs, ended, sit). Inr ((fn, v) # vs, ended, sit)))))"
| "array_read 0 sit = Inl Diverges"
| "array_read (Suc n) sit =
     (if sit_empty sit then Inr ([], sit)
      else
        bindE (sit_getFieldID sit) (\<lambda>((type, field), sit).
          if type = 15 \<and> field = 1 then Inr ([], sit)
          else if type = 14 \<and> field = 1 then Inl (RuntimeError ''Illegal terminator in array'')
          else
            case getField type field of
              None \<Rightarrow> Inl (RuntimeError ''Unknown field'')
            | Some fn \<Rightarrow>
                if fst fn \<noteq> 14 then Inl (RuntimeError ''Non-object in array'')
                else
                  bindE (object_read n sit) (\<lambda>(v, ended, sit).
                  bindE (array_read n sit) (\<lambda>(vs, sit). Inr ((fn, v) # vs, sit)))))"
| "var_read 0 type sit = Inl Diverges"
| "var_read (Suc n) type sit =
     (if type = 0 then Inr (BNotPresent, sit)
      else if type = 16 then bindE (sit_get8 sit) (\<lambda>(x, sit). Inr (BUInt8 x, sit))
      else if type = 1 then bindE (sit_get16 sit) (\<lambda>(x, sit). Inr (BUInt16 x, sit))
      else if type = 2 then bindE (sit_get32 sit) (\<lambda>(x, sit). Inr (BUInt32 x, sit))
      else if type = 3 then bindE (sit_get64 sit) (\<lambda>(x, sit). Inr (BUInt64 x, sit))
      else if type = 6 then bindE (STAmount_sit sit) (\<lambda>(x, sit). Inr (BAmount x, sit))
      else if type = 4 then bindE (sit_get128 sit) (\<lambda>(x, sit). Inr (BHash128 x, sit))
      else if type = 17 then bindE (sit_get160 sit) (\<lambda>(x, sit). Inr (BHash160 x, sit))
      else if type = 5 then bindE (sit_get256 sit) (\<lambda>(x, sit). Inr (BHash256 x, sit))
      else if type = 19 then bindE (STVector256_sit sit) (\<lambda>(x, sit). Inr (BVector256 x, sit))
      else if type = 7 then bindE (sit_getVLBuffer sit) (\<lambda>(x, sit). Inr (BBlob x, sit))
      else if type = 8 then bindE (sit_getVLBuffer sit) (\<lambda>(x, sit). Inr (BAccount x, sit))
      else if type = 18 then bindE (STPathSet_sit sit) (\<lambda>(x, sit). Inr (BPathSet x, sit))
      else if type = 14 then bindE (object_read n sit) (\<lambda>(x, ended, sit). Inr (BObject x, sit))
      else if type = 15 then bindE (array_read n sit) (\<lambda>(x, sit). Inr (BArray x, sit))
      else Inl (RuntimeError ''Unknown object type''))"

definition STObject_set :: "serialiter \<Rightarrow> ((field \<times> bvar) list \<times> bool \<times> serialiter) result" where
  "STObject_set sit = object_read (2 * sit_remain sit + 1) sit"

text \<open>Hashes of an object, with and without its signatures.\<close>

definition STObject_getHash :: "(blob \<Rightarrow> blob) \<Rightarrow> u32 \<Rightarrow> (field \<times> bvar) list \<Rightarrow> u256 result" where
  "STObject_getHash sha prefix v =
     bindE (STObject_add True v (snd (add32 prefix \<lparr>mData = []\<rparr>))) (\<lambda>s. Inr (Serializer_getSHA512Half sha s))"

definition STObject_getSigningHash :: "(blob \<Rightarrow> blob) \<Rightarrow> u32 \<Rightarrow> (field \<times> bvar) list \<Rightarrow> u256 result" where
  "STObject_getSigningHash sha prefix v =
     bindE (STObject_add False v (snd (add32 prefix \<lparr>mData = []\<rparr>))) (\<lambda>s. Inr (Serializer_getSHA512Half sha s))"

subsection \<open>Canonical form\<close>

text \<open>
  The bytes of a value, the objects that can be written and read, and the canonical form in which
  they are read back: fields in the order of their codes, one for each code.
\<close>

definition tail :: "bvar \<Rightarrow> blob" where
  "tail v = (case v of BArray _ \<Rightarrow> fieldID_bytes (15, 1) | BObject _ \<Rightarrow> fieldID_bytes (14, 1) | _ \<Rightarrow> [])"

definition if_bytes :: "bool \<Rightarrow> u160 \<Rightarrow> blob" where
  "if_bytes b v = (if b then uint_bytes v else [])"

definition element_bytes :: "path_element \<Rightarrow> blob" where
  "element_bytes e = ucast (peType e) # if_bytes (peType e AND 0x01 \<noteq> 0) (peAccountID e) @
     if_bytes (peType e AND 0x10 \<noteq> 0) (peCurrencyID e) @ if_bytes (peType e AND 0x20 \<noteq> 0) (peIssuerID e)"

fun paths_bytes :: "path_set \<Rightarrow> blob" where
  "paths_bytes [] = [0]"
| "paths_bytes (p # ps) = concat (map element_bytes p) @ (if ps = [] then [0] else 0xFF # paths_bytes ps)"

function (sequential) var_bytes :: "bvar \<Rightarrow> blob" where
  "var_bytes (BUInt8 x) = be_bytes 1 (unat x)"
| "var_bytes (BUInt16 x) = be_bytes 2 (unat x)"
| "var_bytes (BUInt32 x) = be_bytes 4 (unat x)"
| "var_bytes (BUInt64 x) = be_bytes 8 (unat x)"
| "var_bytes (BHash128 x) = uint_bytes x"
| "var_bytes (BHash160 x) = uint_bytes x"
| "var_bytes (BHash256 x) = uint_bytes x"
| "var_bytes (BAmount a) = amount_bytes a"
| "var_bytes (BBlob b) = VL_bytes b"
| "var_bytes (BAccount b) = VL_bytes b"
| "var_bytes (BVector256 xs) = VL_bytes (concat (map uint_bytes xs))"
| "var_bytes (BPathSet ps) = paths_bytes ps"
| "var_bytes (BObject fs) = concat (map (\<lambda>e. fieldID_bytes (fst e) @ var_bytes (snd e) @ tail (snd e)) (sorted_fields True fs))"
| "var_bytes (BArray os) =
     concat (map (\<lambda>e. fieldID_bytes (fst e) @ var_bytes (BObject (snd e)) @ fieldID_bytes (14, 1)) os)"
| "var_bytes BNotPresent = []"
  by pat_completeness auto
termination
  using field_size object_size by (relation "measure size") (fastforce simp del: bvar.size)+

definition field_ok :: "field \<Rightarrow> bvar \<Rightarrow> bool" where
  "field_ok f v \<longleftrightarrow> getField (fst f) (snd f) = Some f \<and> fieldID_ok f \<and> f \<noteq> (14, 1) \<and> f \<noteq> (15, 1) \<and> fst f = getSType v"

definition element_ok :: "path_element \<Rightarrow> bool" where
  "element_ok e \<longleftrightarrow> peType e \<noteq> 0 \<and>
     e = STPathElement (peAccountID e) (peCurrencyID e) (peIssuerID e) (peType e AND 0x10 \<noteq> 0)"

definition paths_ok :: "path_set \<Rightarrow> bool" where
  "paths_ok ps \<longleftrightarrow> ps \<noteq> [] \<and> list_all (\<lambda>p. p \<noteq> [] \<and> list_all element_ok p) ps"

function (sequential) var_ok :: "bvar \<Rightarrow> bool" where
  "var_ok (BAmount a) = wire_amount a"
| "var_ok (BBlob b) = VL_ok b"
| "var_ok (BAccount b) = VL_ok b"
| "var_ok (BVector256 xs) = VL_ok (concat (map uint_bytes xs))"
| "var_ok (BPathSet ps) = paths_ok ps"
| "var_ok (BObject fs) = list_all (\<lambda>e. field_ok (fst e) (snd e) \<and> var_ok (snd e)) (sorted_fields True fs)"
| "var_ok (BArray os) = list_all (\<lambda>e. field_ok (fst e) (BObject (snd e)) \<and> var_ok (BObject (snd e))) os"
| "var_ok _ = True"
  by pat_completeness auto
termination
  using field_size object_size by (relation "measure size") (fastforce simp del: bvar.size)+

function (sequential) canon :: "bvar \<Rightarrow> bvar" where
  "canon (BObject fs) = BObject (map (\<lambda>e. (fst e, canon (snd e))) (sorted_fields True fs))"
| "canon (BArray os) = BArray (map (\<lambda>e. (fst e, map (\<lambda>e. (fst e, canon (snd e))) (sorted_fields True (snd e)))) os)"
| "canon v = v"
  by pat_completeness auto
termination
  using field_size object_size less_trans by (relation "measure size") (fastforce simp del: bvar.size)+

definition canonical_object :: "bool \<Rightarrow> (field \<times> bvar) list \<Rightarrow> (field \<times> bvar) list" where
  "canonical_object ws fs = map (\<lambda>e. (fst e, canon (snd e))) (sorted_fields ws fs)"

definition object_bytes :: "bool \<Rightarrow> (field \<times> bvar) list \<Rightarrow> blob" where
  "object_bytes ws fs = concat (map (\<lambda>e. fieldID_bytes (fst e) @ var_bytes (snd e) @ tail (snd e)) (sorted_fields ws fs))"

definition object_ok :: "bool \<Rightarrow> (field \<times> bvar) list \<Rightarrow> bool" where
  "object_ok ws fs = list_all (\<lambda>e. field_ok (fst e) (snd e) \<and> var_ok (snd e)) (sorted_fields ws fs)"

subsection \<open>What is written\<close>

definition emit :: "blob \<Rightarrow> serializer \<Rightarrow> serializer" where
  "emit bs s = s\<lparr>mData := mData s @ bs\<rparr>"

lemma emit_simps [simp]: "emit [] s = s" "emit cs (emit bs s) = emit (bs @ cs) s" "mData (emit bs s) = mData s @ bs"
  "snd (push_bytes bs s) = emit bs s"
  by (simp_all add: emit_def push_bytes_def)

lemma putFieldID_emits: "putFieldID f s = emit (fieldID_bytes f) s"
  by (simp add: putFieldID_def addFieldID_emits)

lemma addVL_ptr_emits: "VL_ok b \<Longrightarrow> addVL_ptr b s = Inr (push_bytes (VL_bytes b) s)"
proof -
  assume "VL_ok b"
  moreover have "addVL_ptr b s = addVL b s"
    by (auto simp: addVL_ptr_def addVL_def addRaw_def push_bytes_def intro!: bindE_cong)
  ultimately show ?thesis by (simp add: addVL_emits)
qed

lemma element_add_emits: "element_add e s = emit (element_bytes e) s"
  by (simp add: element_add_def element_bytes_def add160_if_def if_bytes_def add8_def add160_def addBitString_def Let_def)

lemma fold_element_add: "fold element_add p s = emit (concat (map element_bytes p)) s"
  by (induction p arbitrary: s) (simp_all add: element_add_emits)

lemma paths_add_emits:
  "ps \<noteq> [] \<Longrightarrow> paths_add first ps s = emit ((if first then [] else [0xFF]) @ paths_bytes ps) s"
proof (induction ps arbitrary: first s)
  case (Cons p ps)
  show ?case by (cases "ps = []") (simp_all add: Cons.IH fold_element_add add8_def)
qed simp

lemma foldE_emits: "(\<And>x s. x \<in> set xs \<Longrightarrow> f x s = Inr (emit (g x) s)) \<Longrightarrow> foldE f xs s = Inr (emit (concat (map g xs)) s)"
  by (induction xs arbitrary: s) simp_all

lemma field_add_emits:
  "(\<And>s. body s = Inr (emit bs s)) \<Longrightarrow> field_add f v body s = Inr (emit (fieldID_bytes f @ bs @ tail v) s)"
  by (simp add: field_add_def putFieldID_emits tail_def split: bvar.splits)

lemma STBase_add_emits: "var_ok v \<Longrightarrow> STBase_add v s = Inr (emit (var_bytes v) s)"
proof (induction v arbitrary: s rule: var_bytes.induct)
  case (13 fs)
  then show ?case
    by (auto simp: list_all_iff simp del: append_assoc intro!: foldE_emits field_add_emits)
next
  case (14 os)
  then have "STBase_add (BObject (snd e)) s = Inr (emit (var_bytes (BObject (snd e))) s)" if "e \<in> set os" for e s
    using that by (simp add: list_all_iff del: STBase_add.simps var_bytes.simps)
  then show ?case
    unfolding STBase_add.simps(15) var_bytes.simps(14)
    by (intro foldE_emits) (simp add: putFieldID_emits del: STBase_add.simps var_bytes.simps)
qed (simp_all add: wire_simps addBitString_def STAmount_add_emits addVL_ptr_emits paths_ok_def STPathSet_add_def paths_add_emits
    split_beta flip: emit_def)

lemma STObject_add_emits: "object_ok ws fs \<Longrightarrow> STObject_add ws fs s = Inr (emit (object_bytes ws fs) s)"
  unfolding STObject_add_def object_bytes_def
  by (rule foldE_emits, rule field_add_emits) (auto simp: object_ok_def list_all_iff STBase_add_emits)

subsection \<open>Reading back\<close>

lemma get160_if_enc:
  assumes "sit_ok it" "sit_rest it = if_bytes b v @ post" "\<not> b \<Longrightarrow> v = 0"
  shows "sit_get160_if b it = Inr (v, sit_advance (length (if_bytes b v)) it)"
  using assms c160.get_enc [of it v post] by (cases b) (simp_all add: sit_get160_if_def if_bytes_def sit_advance_def)

lemma sit_ok_skip: "sit_ok it \<Longrightarrow> sit_rest it = bs @ cs \<Longrightarrow> sit_ok (sit_advance (length bs) it)"
  by (rule sit_ok_advance_rest) auto

lemma element_type:
  assumes "element_ok e"
  defines "b \<equiv> ucast (peType e) :: u8"
  shows "b \<noteq> 0" "b \<noteq> 0xFF" "b AND NOT 0x31 = 0" "(b AND 0x01 \<noteq> 0) = (peType e AND 0x01 \<noteq> 0)"
    "(b AND 0x10 \<noteq> 0) = (peType e AND 0x10 \<noteq> 0)" "(b AND 0x20 \<noteq> 0) = (peType e AND 0x20 \<noteq> 0)"
    "peType e AND 0x01 = 0 \<Longrightarrow> peAccountID e = 0" "peType e AND 0x10 = 0 \<Longrightarrow> peCurrencyID e = 0"
    "peType e AND 0x20 = 0 \<Longrightarrow> peIssuerID e = 0"
proof -
  obtain a c i f where e: "e = STPathElement a c i f" "peType e \<noteq> 0" using assms(1) unfolding element_ok_def by metis
  then show "b \<noteq> 0" "b \<noteq> 0xFF" "b AND NOT 0x31 = 0" "(b AND 0x01 \<noteq> 0) = (peType e AND 0x01 \<noteq> 0)"
    "(b AND 0x10 \<noteq> 0) = (peType e AND 0x10 \<noteq> 0)" "(b AND 0x20 \<noteq> 0) = (peType e AND 0x20 \<noteq> 0)"
    "peType e AND 0x01 = 0 \<Longrightarrow> peAccountID e = 0" "peType e AND 0x10 = 0 \<Longrightarrow> peCurrencyID e = 0"
    "peType e AND 0x20 = 0 \<Longrightarrow> peIssuerID e = 0"
    unfolding b_def by (auto simp: STPathElement_def isSWT_def split: if_splits)
qed

lemma paths_read_element:
  assumes "sit_ok it" "element_ok e" "sit_rest it = element_bytes e @ post"
  shows "paths_read path val it = paths_read (path @ [e]) val (sit_advance (length (element_bytes e)) it)"
proof -
  define b where "b = (ucast (peType e) :: u8)"
  note t = element_type [OF assms(2), folded b_def]
  define x where "x = if_bytes (b AND 0x01 \<noteq> 0) (peAccountID e)"
  define y where "y = if_bytes (b AND 0x10 \<noteq> 0) (peCurrencyID e)"
  define z where "z = if_bytes (b AND 0x20 \<noteq> 0) (peIssuerID e)"
  have eb: "element_bytes e = b # x @ y @ z" using t(4-6) by (simp add: element_bytes_def b_def x_def y_def z_def)
  have r0: "sit_rest it = b # x @ y @ z @ post" using assms(3) eb by simp
  define i1 where "i1 = sit_advance 1 it"
  have o1: "sit_ok i1" using sit_ok_skip [OF assms(1), of "[b]"] r0 by (simp add: i1_def)
  have r1: "sit_rest i1 = x @ y @ z @ post" by (simp add: i1_def r0)
  define i2 where "i2 = sit_advance (length x) i1"
  have o2: "sit_ok i2" using sit_ok_skip [OF o1 r1] by (simp add: i2_def)
  have r2: "sit_rest i2 = y @ z @ post" by (simp add: i2_def r1)
  define i3 where "i3 = sit_advance (length y) i2"
  have o3: "sit_ok i3" using sit_ok_skip [OF o2 r2] by (simp add: i3_def)
  have r3: "sit_rest i3 = z @ post" by (simp add: i3_def r2)
  have g0: "sit_get8 it = Inr (b, i1)" using sit_get8_Cons [OF assms(1) r0] by (simp add: i1_def)
  have g1: "sit_get160_if (b AND 0x01 \<noteq> 0) i1 = Inr (peAccountID e, i2)"
    using get160_if_enc [OF o1 r1 [unfolded x_def]] t(4,7) by (simp add: i2_def x_def)
  have g2: "sit_get160_if (b AND 0x10 \<noteq> 0) i2 = Inr (peCurrencyID e, i3)"
    using get160_if_enc [OF o2 r2 [unfolded y_def]] t(5,8) by (simp add: i3_def y_def)
  have g3: "sit_get160_if (b AND 0x20 \<noteq> 0) i3 = Inr (peIssuerID e, sit_advance (length z) i3)"
    using get160_if_enc [OF o3 r3 [unfolded z_def]] t(6,9) by (simp add: z_def)
  have "STPathElement (peAccountID e) (peCurrencyID e) (peIssuerID e) (b AND 0x10 \<noteq> 0) = e"
    using assms(2) t(5) unfolding element_ok_def by simp
  moreover have "sit_advance (length z) i3 = sit_advance (length (element_bytes e)) it"
    by (simp add: eb i3_def i2_def i1_def sit_advance_add add.assoc)
  ultimately show ?thesis
    using t(3) by (subst paths_read.simps) (simp add: g0 g1 g2 g3 t(1,2) del: paths_read.simps)
qed

lemma paths_read_path:
  assumes "sit_ok it" "list_all element_ok p" "sit_rest it = concat (map element_bytes p) @ post"
  shows "paths_read path val it = paths_read (path @ p) val (sit_advance (length (concat (map element_bytes p))) it)"
  using assms
proof (induction p arbitrary: path it)
  case (Cons e p)
  have r: "sit_rest it = element_bytes e @ concat (map element_bytes p) @ post" using Cons.prems(3) by simp
  have "sit_ok (sit_advance (length (element_bytes e)) it)" by (rule sit_ok_skip [OF Cons.prems(1) r])
  then show ?case
    using paths_read_element [OF Cons.prems(1) _ r] Cons.prems(2) Cons.IH [of "sit_advance (length (element_bytes e)) it"] r
    by (simp add: sit_advance_add del: paths_read.simps)
qed (simp add: sit_advance_def)

lemma paths_read_enc:
  assumes "sit_ok it" "list_all (\<lambda>p. p \<noteq> [] \<and> list_all element_ok p) ps" "ps \<noteq> []" "sit_rest it = paths_bytes ps @ post"
  shows "paths_read [] val it = Inr (val @ ps, sit_advance (length (paths_bytes ps)) it)"
  using assms
proof (induction ps arbitrary: val it)
  case (Cons p ps)
  define bs where "bs = concat (map element_bytes p)"
  define b where "b = (if ps = [] then 0 else 0xFF :: u8)"
  define cs where "cs = (if ps = [] then [] else paths_bytes ps)"
  have pb: "paths_bytes (p # ps) = bs @ b # cs" by (simp add: bs_def b_def cs_def)
  have r: "sit_rest it = bs @ b # cs @ post" using Cons.prems(4) by (simp add: pb del: paths_bytes.simps)
  define i1 where "i1 = sit_advance (length bs) it"
  have o1: "sit_ok i1" using sit_ok_skip [OF Cons.prems(1) r] by (simp add: i1_def)
  have r1: "sit_rest i1 = b # cs @ post" by (simp add: i1_def r)
  have p: "paths_read [] val it = paths_read p val i1"
    using paths_read_path [OF Cons.prems(1), of p "b # cs @ post" "[]" val] Cons.prems(2) r
    by (simp add: bs_def i1_def del: paths_read.simps)
  have g: "sit_get8 i1 = Inr (b, sit_advance 1 i1)" by (rule sit_get8_Cons [OF o1 r1])
  have o2: "sit_ok (sit_advance 1 i1)" using sit_ok_skip [OF o1, of "[b]"] r1 by simp
  show ?case
  proof (cases "ps = []")
    case True
    then show ?thesis
      using p g Cons.prems(2) unfolding pb
      by (subst p, subst paths_read.simps) (simp add: b_def cs_def i1_def sit_advance_add del: paths_read.simps)
  next
    case False
    have "paths_read [] (val @ [p]) (sit_advance 1 i1) =
        Inr ((val @ [p]) @ ps, sit_advance (length (paths_bytes ps)) (sit_advance 1 i1))"
      by (rule Cons.IH [OF o2]) (use Cons.prems(2) False r1 in \<open>simp_all add: cs_def\<close>)
    then show ?thesis
      using g Cons.prems(2) False unfolding pb
      by (subst p, subst paths_read.simps) (simp add: b_def cs_def i1_def sit_advance_add del: paths_read.simps)
  qed
qed simp

lemma vector_chunks:
  "map (\<lambda>i. uint_of_bytes (take 32 (drop (32 * i) (concat (map uint_bytes (xs :: u256 list)))))) [0..<length xs] = xs"
proof (induction xs)
  case (Cons x xs)
  have l: "length (uint_bytes x) = 32" by (simp add: uint_bytes_def)
  have x: "uint_of_bytes (uint_bytes x) = x"
    unfolding uint_bytes_def by (rule uint_of_bytes_be_bytes) (rule unat_less_256_power, simp)
  have "[0..<length (x # xs)] = 0 # map Suc [0..<length xs]" by (simp add: upt_conv_Cons map_Suc_upt del: upt_Suc)
  then show ?case using Cons by (simp add: l x o_def del: upt_Suc)
qed simp

lemma vector_read:
  assumes "sit_ok it" "VL_ok (concat (map uint_bytes xs))" "sit_rest it = VL_bytes (concat (map uint_bytes xs)) @ post"
  shows "STVector256_sit it = Inr (xs, sit_advance (length (VL_bytes (concat (map uint_bytes xs)))) it)"
proof -
  have "length (concat (map uint_bytes xs)) = 32 * length xs" for xs :: "u256 list"
    by (induction xs) (simp_all add: uint_bytes_def)
  then show ?thesis using cVL.get_enc [OF assms] by (simp add: STVector256_sit_def vector_chunks)
qed

lemma sit_getVLBuffer_eq: "sit_getVLBuffer it = sit_getVL it"
  by (simp add: sit_getVLBuffer_def sit_getVL_def sit_getRaw_def)

definition readable :: "bvar \<Rightarrow> bool" where
  "readable v \<longleftrightarrow> (\<forall>it n post. sit_ok it \<longrightarrow> sit_rest it = var_bytes v @ tail v @ post \<longrightarrow>
     2 * length (var_bytes v @ tail v) + 2 \<le> n \<longrightarrow>
     var_read n (getSType v) it = Inr (canon v, sit_advance (length (var_bytes v @ tail v)) it))"

definition fields_bytes :: "(field \<times> bvar) list \<Rightarrow> blob" where
  "fields_bytes fs = concat (map (\<lambda>e. fieldID_bytes (fst e) @ var_bytes (snd e) @ tail (snd e)) fs)"

lemma sit_empty_rest: "sit_ok it \<Longrightarrow> sit_empty it \<longleftrightarrow> sit_rest it = []"
  using length_sit_rest [of it] by (auto simp: sit_empty_def)

lemma fieldID_bytes_nonempty: "fieldID_ok f \<Longrightarrow> 0 < length (fieldID_bytes f)"
  by (cases f) (auto elim!: fieldID_bytes_shape)

lemma getFieldID_step:
  assumes "sit_ok it" "fieldID_ok f" "sit_rest it = fieldID_bytes f @ post"
  shows "\<not> sit_empty it" "sit_getFieldID it = Inr (f, sit_advance (length (fieldID_bytes f)) it)"
    "sit_ok (sit_advance (length (fieldID_bytes f)) it)"
  using assms fieldID_bytes_nonempty [OF assms(2)] cfield.get_enc [OF assms] sit_ok_skip [OF assms(1,3)]
  by (auto simp: sit_empty_rest)

lemma object_read_fields:
  assumes "sit_ok it" "\<forall>e \<in> set xs. field_ok (fst e) (snd e) \<and> readable (snd e)"
    and "bs = (if m then fieldID_bytes (14, 1) else [])" "sit_rest it = fields_bytes xs @ bs @ post" "m \<or> post = []"
    and "2 * length (fields_bytes xs @ bs) + 1 \<le> n"
  shows "object_read n it = Inr (map (\<lambda>e. (fst e, canon (snd e))) xs, m, sit_advance (length (fields_bytes xs @ bs)) it)"
  using assms(1,2,4,6)
proof (induction xs arbitrary: n it)
  case Nil
  then obtain n' where n: "n = Suc n'" by (cases n) auto
  show ?case
  proof (cases m)
    case True
    then have "sit_rest it = fieldID_bytes (14, 1) @ post" using Nil.prems(3) assms(3) by (simp add: fields_bytes_def)
    from getFieldID_step [OF Nil.prems(1) _ this] show ?thesis
      using True assms(3) by (simp add: n fields_bytes_def fieldID_ok_def)
  next
    case False
    then show ?thesis
      using Nil.prems assms(3,5) by (simp add: n fields_bytes_def sit_empty_rest sit_advance_def)
  qed
next
  case (Cons e xs)
  obtain f v where e: "e = (f, v)" by (cases e)
  obtain n' where n: "n = Suc n'" using Cons.prems(4) by (cases n) auto
  have f: "fieldID_ok f" "getField (fst f) (snd f) = Some f" "f \<noteq> (14, 1)" "f \<noteq> (15, 1)" "fst f = getSType v" "readable v"
    using Cons.prems(2) e by (auto simp: field_ok_def)
  have fb: "fields_bytes (e # xs) = fieldID_bytes f @ var_bytes v @ tail v @ fields_bytes xs" by (simp add: fields_bytes_def e)
  have r: "sit_rest it = fieldID_bytes f @ (var_bytes v @ tail v @ fields_bytes xs @ bs @ post)" using Cons.prems(3) fb by simp
  define i1 where "i1 = sit_advance (length (fieldID_bytes f)) it"
  note g = getFieldID_step [OF Cons.prems(1) f(1) r, folded i1_def]
  have r1: "sit_rest i1 = (var_bytes v @ tail v) @ fields_bytes xs @ bs @ post" by (simp add: i1_def r)
  have len: "2 * length (var_bytes v @ tail v) + 2 \<le> n'" "2 * length (fields_bytes xs @ bs) + 1 \<le> n'"
    using Cons.prems(4) fieldID_bytes_nonempty [OF f(1)] by (simp_all add: fb n del: length_greater_0_conv)
  define i2 where "i2 = sit_advance (length (var_bytes v @ tail v)) i1"
  have v: "var_read n' (getSType v) i1 = Inr (canon v, i2)"
    using f(6) g(3) r1 len(1) unfolding readable_def i2_def by simp
  have o2: "sit_ok i2" using sit_ok_skip [OF g(3) r1] by (simp add: i2_def)
  have "object_read n' i2 = Inr (map (\<lambda>e. (fst e, canon (snd e))) xs, m, sit_advance (length (fields_bytes xs @ bs)) i2)"
    by (rule Cons.IH [OF o2 _ _ len(2)]) (use Cons.prems(2) r1 in \<open>simp_all add: i2_def\<close>)
  moreover have "sit_advance (length (fields_bytes xs @ bs)) i2 = sit_advance (length (fields_bytes (e # xs) @ bs)) it"
    by (simp add: fb i2_def i1_def sit_advance_add add.assoc)
  moreover have "\<not> (fst f = 15 \<and> snd f = 1)" "\<not> (fst f = 14 \<and> snd f = 1)" using f(3,4) by (auto simp: prod_eq_iff)
  ultimately show ?case using g(1,2) v f(2,5) by (simp add: n e split_beta)
qed

lemma array_read_objects:
  assumes "sit_ok it"
    and "\<forall>e \<in> set os. field_ok (fst e) (BObject (snd e)) \<and>
      (\<forall>x \<in> set (sorted_fields True (snd e)). field_ok (fst x) (snd x) \<and> readable (snd x))"
    and "sit_rest it = var_bytes (BArray os) @ fieldID_bytes (15, 1) @ post"
    and "2 * length (var_bytes (BArray os) @ fieldID_bytes (15, 1)) + 1 \<le> n"
  shows "array_read n it = Inr (map (\<lambda>e. (fst e, map (\<lambda>e. (fst e, canon (snd e))) (sorted_fields True (snd e)))) os,
    sit_advance (length (var_bytes (BArray os) @ fieldID_bytes (15, 1))) it)"
  using assms
proof (induction os arbitrary: n it)
  case Nil
  then obtain n' where n: "n = Suc n'" by (cases n) auto
  have "sit_rest it = fieldID_bytes (15, 1) @ post" using Nil.prems(3) by simp
  from getFieldID_step [OF Nil.prems(1) _ this] show ?case by (simp add: n fieldID_ok_def)
next
  case (Cons e os)
  obtain f fs where e: "e = (f, fs)" by (cases e)
  obtain n' where n: "n = Suc n'" using Cons.prems(4) by (cases n) auto
  define xs where "xs = sorted_fields True fs"
  let ?B = "var_bytes (BArray os) @ fieldID_bytes (15, 1)"
  let ?C = "fields_bytes xs @ fieldID_bytes (14, 1)"
  have f: "fieldID_ok f" "getField (fst f) (snd f) = Some f" "f \<noteq> (14, 1)" "f \<noteq> (15, 1)" "fst f = 14"
    and xs: "\<forall>x \<in> set xs. field_ok (fst x) (snd x) \<and> readable (snd x)"
    using Cons.prems(2) e by (auto simp: field_ok_def xs_def)
  have fb: "var_bytes (BArray (e # os)) @ fieldID_bytes (15, 1) = fieldID_bytes f @ ?C @ ?B"
    by (simp add: fields_bytes_def e xs_def)
  have r: "sit_rest it = fieldID_bytes f @ (?C @ ?B @ post)"
    using Cons.prems(3) arg_cong [OF fb, of "\<lambda>x. x @ post"] by (simp del: var_bytes.simps)
  define i1 where "i1 = sit_advance (length (fieldID_bytes f)) it"
  note g = getFieldID_step [OF Cons.prems(1) f(1) r, folded i1_def]
  have r1: "sit_rest i1 = ?C @ ?B @ post" by (simp add: i1_def r del: var_bytes.simps)
  have len: "2 * length ?C + 1 \<le> n'" "2 * length ?B + 1 \<le> n'"
    using Cons.prems(4) fieldID_bytes_nonempty [OF f(1)] unfolding fb n
    by (simp_all del: length_greater_0_conv var_bytes.simps)
  define i2 where "i2 = sit_advance (length ?C) i1"
  have v: "object_read n' i1 = Inr (map (\<lambda>e. (fst e, canon (snd e))) xs, True, i2)"
    using object_read_fields [OF g(3) xs, of "fieldID_bytes (14, 1)" True "?B @ post" n'] r1 len(1)
    by (simp add: i2_def del: var_bytes.simps)
  have o2: "sit_ok i2" using sit_ok_skip [OF g(3) r1] by (simp add: i2_def)
  define A where "A = map (\<lambda>e. (fst e, map (\<lambda>e. (fst e, canon (snd e))) (sorted_fields True (snd e)))) os"
  define i3 where "i3 = sit_advance (length ?B) i2"
  have rec: "array_read n' i2 = Inr (A, i3)"
    unfolding A_def i3_def
    by (rule Cons.IH [OF o2 _ _ len(2)]) (use Cons.prems(2) r1 in \<open>simp_all add: i2_def del: var_bytes.simps\<close>)
  have adv: "i3 = sit_advance (length (var_bytes (BArray (e # os)) @ fieldID_bytes (15, 1))) it"
    unfolding fb by (simp add: i3_def i2_def i1_def sit_advance_add add.assoc del: var_bytes.simps)
  have "\<not> (fst f = 15 \<and> snd f = 1)" "\<not> (fst f = 14 \<and> snd f = 1)" using f(3,4) by (auto simp: prod_eq_iff)
  then have "array_read n it = Inr ((f, map (\<lambda>e. (fst e, canon (snd e))) xs) # A, i3)"
    using g(1,2) v rec f(2,5) by (simp add: n split_beta)
  then show ?case unfolding adv by (simp add: A_def e xs_def)
qed

lemma readable_simple:
  assumes "\<And>it post. sit_ok it \<Longrightarrow> sit_rest it = var_bytes v @ post \<Longrightarrow>
      var_read (Suc 0) (getSType v) it = Inr (v, sit_advance (length (var_bytes v)) it)"
    and "getSType v \<noteq> 14" "getSType v \<noteq> 15"
  shows "readable v"
proof -
  have "tail v = []" "canon v = v" using assms(2,3) by (cases v; simp add: tail_def)+
  moreover have "var_read (Suc n) (getSType v) it = var_read (Suc 0) (getSType v) it" for n it using assms(2,3) by simp
  ultimately show ?thesis
    unfolding readable_def using assms(1) by (metis Suc_le_D append_Nil append_Nil2 le_add2 le_trans numeral_2_eq_2)
qed

lemma field_ok_present: "field_ok f v \<Longrightarrow> v \<noteq> BNotPresent"
  by (cases f) (auto simp: field_ok_def getField_def split: if_splits)

lemma BObject_readable:
  assumes "\<forall>e \<in> set (sorted_fields True fs). field_ok (fst e) (snd e) \<and> readable (snd e)"
  shows "readable (BObject fs)"
  unfolding readable_def
proof (intro allI impI)
  fix it n post
  define xs where "xs = sorted_fields True fs"
  have vb: "var_bytes (BObject fs) = fields_bytes xs" "tail (BObject fs) = fieldID_bytes (14, 1)"
    "canon (BObject fs) = BObject (map (\<lambda>e. (fst e, canon (snd e))) xs)"
    by (simp_all add: fields_bytes_def xs_def tail_def)
  assume a: "sit_ok it" "sit_rest it = var_bytes (BObject fs) @ tail (BObject fs) @ post"
    "2 * length (var_bytes (BObject fs) @ tail (BObject fs)) + 2 \<le> n"
  then obtain n' where n: "n = Suc n'" by (cases n) auto
  show "var_read n (getSType (BObject fs)) it =
      Inr (canon (BObject fs), sit_advance (length (var_bytes (BObject fs) @ tail (BObject fs))) it)"
    using object_read_fields [OF a(1) assms, folded xs_def, of "fieldID_bytes (14, 1)" True post n'] a(2,3)
    unfolding vb by (simp add: n)
qed

lemma BArray_readable:
  assumes "\<forall>e \<in> set os. field_ok (fst e) (BObject (snd e)) \<and>
      (\<forall>x \<in> set (sorted_fields True (snd e)). field_ok (fst x) (snd x) \<and> readable (snd x))"
  shows "readable (BArray os)"
  unfolding readable_def
proof (intro allI impI)
  fix it n post
  assume a: "sit_ok it" "sit_rest it = var_bytes (BArray os) @ tail (BArray os) @ post"
    "2 * length (var_bytes (BArray os) @ tail (BArray os)) + 2 \<le> n"
  then obtain n' where n: "n = Suc n'" by (cases n) auto
  show "var_read n (getSType (BArray os)) it = Inr (canon (BArray os), sit_advance (length (var_bytes (BArray os) @ tail (BArray os))) it)"
    using array_read_objects [OF a(1) assms, of post n'] a(2,3) by (simp add: n tail_def del: var_bytes.simps)
qed

lemma STPathSet_read:
  assumes "sit_ok it" "paths_ok ps" "sit_rest it = paths_bytes ps @ post"
  shows "STPathSet_sit it = Inr (ps, sit_advance (length (paths_bytes ps)) it)"
  using assms paths_read_enc [of it ps post "[]"] by (simp add: paths_ok_def STPathSet_sit_def del: paths_read.simps)

lemma leaf_readable:
  assumes "var_ok v" "v \<noteq> BNotPresent" "getSType v \<noteq> 14" "getSType v \<noteq> 15"
  shows "readable v"
proof (rule readable_simple [OF _ assms(3,4)])
  fix it post
  assume a: "sit_ok it" "sit_rest it = var_bytes v @ post"
  note get = c8.get_enc [OF a(1)] sit_get_enc [OF a(1)] c128.get_enc [OF a(1)] c160.get_enc [OF a(1)] c256.get_enc [OF a(1)]
    camount.get_enc [OF a(1)] cVL.get_enc [OF a(1)] vector_read [OF a(1)] STPathSet_read [OF a(1)]
  show "var_read (Suc 0) (getSType v) it = Inr (v, sit_advance (length (var_bytes v)) it)"
    using a(2) assms
    by (cases v) (simp_all add: get sit_getVLBuffer_eq)
qed

lemma var_ok_readable: "var_ok v \<Longrightarrow> v \<noteq> BNotPresent \<Longrightarrow> readable v"
proof (induction v rule: measure_induct_rule [of size])
  case (less v)
  have fields: "field_ok (fst x) (snd x) \<and> readable (snd x)"
    if "var_ok (BObject fs)" "x \<in> set (sorted_fields True fs)" "size (BObject fs) \<le> size v" for fs x
    using that less.IH [of "snd x"] field_size [of "fst x" "snd x" True fs] field_ok_present [of "fst x" "snd x"]
    by (auto simp: list_all_iff simp del: bvar.size)
  show ?case
  proof (cases "\<exists>fs. v = BObject fs")
    case True
    then obtain fs where v: "v = BObject fs" by blast
    then have "var_ok (BObject fs)" "size (BObject fs) \<le> size v" using less.prems(1) by simp_all
    then show ?thesis using fields [of fs] unfolding v by (intro BObject_readable ballI) blast
  next
    case obj: False
    show ?thesis
    proof (cases "\<exists>os. v = BArray os")
      case True
      then obtain os where v: "v = BArray os" by blast
      have e: "field_ok (fst e) (BObject (snd e)) \<and> var_ok (BObject (snd e)) \<and> size (BObject (snd e)) \<le> size v"
        if "e \<in> set os" for e
        using object_size [of "fst e" "snd e" os] less.prems(1) that unfolding v var_ok.simps(7) list_all_iff by simp
      show ?thesis
        unfolding v
      proof (rule BArray_readable, intro ballI conjI)
        fix e x
        assume "e \<in> set os"
        then show "field_ok (fst e) (BObject (snd e))" using e by blast
        assume "x \<in> set (sorted_fields True (snd e))"
        then show "field_ok (fst x) (snd x)" "readable (snd x)" using fields [of "snd e" x] e [OF \<open>e \<in> set os\<close>] by blast+
      qed
    next
      case False
      with obj have "getSType v \<noteq> 14" "getSType v \<noteq> 15" by (cases v; simp)+
      then show ?thesis using leaf_readable less.prems by blast
    qed
  qed
qed

subsection \<open>The order of fields\<close>

lemma map_insert_valid: "smap_valid m \<Longrightarrow> smap_valid (map_insert k v m)"
  by (simp add: map_insert_def std.valid_insert)

lemma pick_valid: "smap_valid (pick b fs)"
proof -
  have "smap_valid m \<Longrightarrow> smap_valid (fold (\<lambda>e m. if snd e \<noteq> BNotPresent \<and> shouldInclude b (fst e)
      then map_insert (fieldCode (fst e)) e m else m) fs m)" for m
    by (induction fs arbitrary: m) (simp_all add: map_insert_valid)
  then show ?thesis by (simp add: pick_def smap_valid_def)
qed

lemma sorted_fields_ascending: "sorted_wrt (<) (map (\<lambda>e. fieldCode (fst e)) (sorted_fields b fs))"
proof -
  have "map (\<lambda>e. fieldCode (fst e)) (sorted_fields b fs) = map fst (pick b fs)"
    using set_pick [of b fs] by (auto simp: sorted_fields_def)
  then show ?thesis using pick_valid [of b fs] by (simp add: smap_valid_def)
qed

lemma object_read_back:
  assumes "object_ok ws fs"
  shows "\<exists>s it. STObject_add ws fs \<lparr>mData = []\<rparr> = Inr s \<and>
    STObject_set (SerialIter (mData s)) = Inr (canonical_object ws fs, False, it) \<and> sit_empty it \<and>
    sorted_wrt (<) (map (\<lambda>e. fieldCode (fst e)) (canonical_object ws fs))"
proof -
  define bs where "bs = object_bytes ws fs"
  define xs where "xs = sorted_fields ws fs"
  have xs: "\<forall>e \<in> set xs. field_ok (fst e) (snd e) \<and> readable (snd e)"
    using assms var_ok_readable field_ok_present unfolding object_ok_def list_all_iff xs_def by blast
  have bs: "bs = fields_bytes xs" by (simp add: bs_def object_bytes_def fields_bytes_def xs_def)
  have rem: "sit_remain (SerialIter bs) = length bs" using length_sit_rest [of "SerialIter bs"] by simp
  have "STObject_set (SerialIter bs) = Inr (canonical_object ws fs, False, sit_advance (length bs) (SerialIter bs))"
    using object_read_fields [OF _ xs, of "SerialIter bs" "[]" False "[]" "2 * length bs + 1"]
    unfolding STObject_set_def canonical_object_def xs_def [symmetric] rem by (simp add: bs)
  moreover have "sit_empty (sit_advance (length bs) (SerialIter bs))" by (simp add: sit_empty_def sit_advance_def rem)
  moreover have "sorted_wrt (<) (map (\<lambda>e. fieldCode (fst e)) (canonical_object ws fs))"
    using sorted_fields_ascending [of ws fs] by (simp add: canonical_object_def o_def)
  moreover have "STObject_add ws fs \<lparr>mData = []\<rparr> = Inr (emit bs \<lparr>mData = []\<rparr>)"
    unfolding bs_def by (rule STObject_add_emits [OF assms])
  ultimately show ?thesis
    by (intro exI [of _ "emit bs \<lparr>mData = []\<rparr>"] exI [of _ "sit_advance (length bs) (SerialIter bs)"]) simp
qed


definition example_object :: "(field \<times> bvar) list" where
  "example_object =
     [((8, 1), BAccount (replicate 20 7)), ((1, 2), BUInt16 3), ((7, 4), BBlob [9]),
      ((15, 9), BArray [((14, 10), [((7, 13), BBlob [1, 2]), ((7, 12), BBlob [5])])]), ((3, 1), BNotPresent)]"

lemma example_object_sorted:
  "sorted_fields False example_object =
     [((1, 2), BUInt16 3), ((8, 1), BAccount (replicate 20 7)),
      ((15, 9), BArray [((14, 10), [((7, 13), BBlob [1, 2]), ((7, 12), BBlob [5])])])]"
  "sorted_fields True [((7, 13), BBlob [1, 2]), ((7, 12), BBlob [5])] = [((7, 12), BBlob [5]), ((7, 13), BBlob [1, 2])]"
  by (simp_all add: example_object_def sorted_fields_def pick_def map_insert_def fieldCode_def shouldInclude_def signingField_def)


subsection \<open>Reading ends\<close>

text \<open>A reader that returns or throws, and does not run backwards.\<close>

definition reads :: "('a \<Rightarrow> serialiter) \<Rightarrow> serialiter \<Rightarrow> 'a result \<Rightarrow> bool" where
  "reads cursor it r \<longleftrightarrow> (case r of Inl er \<Rightarrow> er \<noteq> Diverges | Inr x \<Rightarrow> sit_moves it (cursor x))"

lemma reads_bind:
  "reads c it m \<Longrightarrow> (\<And>x. m = Inr x \<Longrightarrow> sit_moves it (c x) \<Longrightarrow> reads d (c x) (k x)) \<Longrightarrow> reads d it (bindE m k)"
  by (cases m) (auto simp: reads_def intro: sit_moves_trans split: sum.splits)

lemma reads_simps [simp]: "reads c it (Inl er) = (er \<noteq> Diverges)" "reads c it (Inr x) = sit_moves it (c x)"
  by (simp_all add: reads_def)

lemma reads_Inr [intro]: "c x = it \<Longrightarrow> reads c it (Inr x)"
  by auto

lemma reads_get:
  "reads snd it (sit_get8 it)" "reads snd it (sit_get16 it)" "reads snd it (sit_get32 it)" "reads snd it (sit_get64 it)"
  "reads snd it (getRawHelper n it)" "reads snd it (sit_getBitString it)"
  by (simp_all add: sit_get8_def sit_get16_def sit_get32_def sit_get64_def getRawHelper_def sit_getBitString_def Let_def
      sit_moves_advance)

lemma moves_remain: "sit_moves it it' \<Longrightarrow> sit_remain it' \<le> sit_remain it"
  by (auto simp: sit_moves_def sit_advance_def)

lemma reads_FieldID: "reads snd it (sit_getFieldID it)"
  by (auto simp: sit_getFieldID_def Let_def split_beta intro!: reads_bind [where c = snd] reads_get)

lemma getFieldID_remain: "sit_getFieldID it = Inr (f, it') \<Longrightarrow> sit_remain it' < sit_remain it"
  by (auto simp: sit_getFieldID_def bindE_eq_Inr Let_def split_beta split: if_splits dest!: get8_remain) 

lemma reads_VL: "reads snd it (sit_getVL it)" "reads snd it (sit_getVLBuffer it)"
proof -
  have "reads snd it (getVLDataLength it)"
    unfolding getVLDataLength_def
    by (rule reads_bind [where c = snd], rule reads_get)
      (auto simp: decodeLengthLength_def decodeVLLength1_def decodeVLLength2_def decodeVLLength3_def split_beta
        intro!: reads_bind [where c = snd] reads_get)
  then show "reads snd it (sit_getVL it)" "reads snd it (sit_getVLBuffer it)"
    by (auto simp: sit_getVL_def sit_getVLBuffer_def sit_getRaw_def split_beta intro!: reads_bind [where c = snd] reads_get)
qed

lemma canonicalize_returns: "canonicalize a \<noteq> Inl Diverges"
proof -
  have "scale_down_loop v off \<noteq> Inl Diverges" for v off
    by (induction v off rule: scale_down_loop.induct) (subst scale_down_loop.simps, auto)
  then show ?thesis by (auto simp: canonicalize_def Let_def bindE_eq_Inl split_beta)
qed

lemma reads_amount: "reads snd it (STAmount_sit it)"
proof -
  have "reads snd it (bindE (canonicalize a) (\<lambda>a. Inr (a, it)))" for a it
    using canonicalize_returns [of a] by (cases "canonicalize a") simp_all
  then show ?thesis
    by (auto simp: STAmount_sit_def sit_get160_def Let_def split_beta intro!: reads_bind [where c = snd] reads_get)
qed

lemma reads_160_if: "reads snd it (sit_get160_if b it)"
  by (simp add: sit_get160_if_def sit_get160_def reads_get)

lemma reads_paths: "reads snd it (paths_read path val it)"
proof (induction "sit_remain it" arbitrary: it path val rule: less_induct)
  case less
  show ?case
  proof (subst paths_read.simps, rule reads_bind [where c = snd, OF reads_get(1)])
    fix x
    assume g: "sit_get8 it = Inr x"
    have again: "sit_moves (snd x) it' \<Longrightarrow> reads snd it' (paths_read path val it')" for it' path val
      using less [of it'] get8_remain [of it "fst x" "snd x"] moves_remain [of "snd x" it'] g by simp
    show "reads snd (snd x) (case x of (iType, sit) \<Rightarrow>
       if iType = 0 \<or> iType = 0xFF then
         if path = [] then Inl (RuntimeError ''empty path'')
         else if iType = 0 then Inr (val @ [path], sit)
         else paths_read [] (val @ [path]) sit
       else if iType AND NOT 0x31 \<noteq> 0 then Inl (RuntimeError ''bad path element'')
       else
         bindE (sit_get160_if (iType AND 0x01 \<noteq> 0) sit) (\<lambda>(acc, sit).
         bindE (sit_get160_if (iType AND 0x10 \<noteq> 0) sit) (\<lambda>(cur, sit).
         bindE (sit_get160_if (iType AND 0x20 \<noteq> 0) sit) (\<lambda>(iss, sit).
           paths_read (path @ [STPathElement acc cur iss (iType AND 0x10 \<noteq> 0)]) val sit))))"
      by (auto simp: split_beta simp del: paths_read.simps intro!: reads_bind [where c = snd] reads_160_if again)
        (meson sit_moves_trans)+
  qed
qed

lemma reads_leaves: "reads snd it (sit_get128 it)" "reads snd it (sit_get160 it)" "reads snd it (sit_get256 it)"
  "reads snd it (STVector256_sit it)" "reads snd it (STPathSet_sit it)"
  using reads_paths
  by (auto simp: sit_get128_def sit_get160_def sit_get256_def STVector256_sit_def STPathSet_sit_def split_beta
      intro!: reads_get reads_bind [where c = snd] reads_VL simp del: paths_read.simps)

lemma reads_tagged: "reads snd it r \<Longrightarrow> reads snd it (bindE r (\<lambda>(x, it). Inr (f x, it)))"
  by (cases r) auto

lemma readers_end:
  "(2 * sit_remain it + 1 \<le> n \<longrightarrow> reads (\<lambda>x. snd (snd x)) it (object_read n it)) \<and>
   (2 * sit_remain it + 1 \<le> n \<longrightarrow> reads snd it (array_read n it)) \<and>
   (2 * sit_remain it + 2 \<le> n \<longrightarrow> reads snd it (var_read n t it))"
proof (induction n arbitrary: it t)
  case (Suc n)
  have fewer: "sit_moves (snd x) it' \<Longrightarrow> 2 * sit_remain it' + 2 \<le> n"
    if "sit_getFieldID it = Inr x" "2 * sit_remain it + 1 \<le> Suc n" for x it'
    using that getFieldID_remain [of it "fst x" "snd x"] moves_remain [of "snd x" it'] by simp
  have obj: "reads (\<lambda>x. snd (snd x)) it (object_read n it)" if "2 * sit_remain it + 1 \<le> n" for it using Suc.IH that by blast
  have arr: "reads snd it (array_read n it)" if "2 * sit_remain it + 1 \<le> n" for it using Suc.IH that by blast
  have var: "reads snd it (var_read n t it)" if "2 * sit_remain it + 2 \<le> n" for t it using Suc.IH that by blast
  have obj': "2 * sit_remain it + 2 \<le> n \<Longrightarrow> reads (\<lambda>x. snd (snd x)) it (object_read n it)"
    and arr': "2 * sit_remain it + 2 \<le> n \<Longrightarrow> reads snd it (array_read n it)" for it
    using obj arr by simp_all
  have field: "reads c it (bindE (sit_getFieldID it) k)"
    if "2 * sit_remain it + 1 \<le> Suc n"
      and "\<And>x. (\<And>it'. sit_moves (snd x) it' \<Longrightarrow> 2 * sit_remain it' + 2 \<le> n) \<Longrightarrow> reads c (snd x) (k x)"
    for c and k :: "(int \<times> int) \<times> serialiter \<Rightarrow> 'a result"
    using reads_bind [where c = snd, OF reads_FieldID] fewer [OF _ that(1)] that(2) by blast
  have 1: "reads (\<lambda>x. snd (snd x)) it (object_read (Suc n) it)" if "2 * sit_remain it + 1 \<le> Suc n"
    using that
    by (auto simp: split_beta split: option.splits intro!: field reads_bind [where c = snd, OF var]
        reads_bind [where c = "\<lambda>x. snd (snd x)", OF obj'])
  have 2: "reads snd it (array_read (Suc n) it)" if "2 * sit_remain it + 1 \<le> Suc n"
    using that
    by (auto simp: split_beta split: option.splits intro!: field reads_bind [where c = "\<lambda>x. snd (snd x)", OF obj']
        reads_bind [where c = snd, OF arr'])
  have 3: "reads snd it (var_read (Suc n) t it)" if "2 * sit_remain it + 2 \<le> Suc n"
    using that by (auto intro!: reads_tagged reads_get reads_amount reads_leaves reads_VL arr reads_bind [OF obj])
  from 1 2 3 show ?case by blast
qed simp

text \<open>A run that has not run out is the same with more fuel.\<close>

definition settled :: "'a result \<Rightarrow> 'a result \<Rightarrow> bool" where
  "settled r r' \<longleftrightarrow> r = Inl Diverges \<or> r' = r"

lemma settled_refl [simp, intro]: "settled r r"
  by (simp add: settled_def)

lemma settled_bind: "settled m m' \<Longrightarrow> (\<And>x. settled (f x) (g x)) \<Longrightarrow> settled (bindE m f) (bindE m' g)"
  by (cases m) (auto simp: settled_def)

lemma fuel_settled:
  "settled (object_read n it) (object_read (n + k) it) \<and> settled (array_read n it) (array_read (n + k) it) \<and>
   settled (var_read n t it) (var_read (n + k) t it)"
proof (induction n arbitrary: it t)
  case 0
  show ?case by (simp add: settled_def)
next
  case (Suc n)
  then have "settled (object_read n it) (object_read (n + k) it)" "settled (array_read n it) (array_read (n + k) it)"
    "settled (var_read n t it) (var_read (n + k) t it)" for it t
    by blast+
  note rules = settled_bind this
  show ?case by (auto simp: split_beta split: option.splits intro!: rules)
qed

text \<open>C24: Reading an object ends on every input, whatever the bytes and however deep they nest: the
  reader returns or throws, and if it returns, the cursor has moved forward within the bytes.
  The model counts the calls of the reader and the iterations of its loops; two for each byte and
  one more are never used up, and any larger bound gives the same run.\<close>

theorem object_reader_ends:
  "object_read (2 * sit_remain it + 1 + k) it = STObject_set it \<and>
   (case STObject_set it of
      Inl er \<Rightarrow> er \<noteq> Diverges
    | Inr (v, ended, it') \<Rightarrow> sit_moves it it')"
proof -
  have "reads (\<lambda>x. snd (snd x)) it (STObject_set it)"
    using readers_end [of it "2 * sit_remain it + 1"] by (simp add: STObject_set_def)
  moreover from this have "STObject_set it \<noteq> Inl Diverges" by auto
  then have "object_read (2 * sit_remain it + 1 + k) it = STObject_set it"
    using fuel_settled [of "2 * sit_remain it + 1" it k] by (simp add: settled_def STObject_set_def)
  ultimately show ?thesis by (auto simp: reads_def split: sum.splits)
qed

end
