(* ===== verification/Indexes.thy ===== *)
theory Indexes
  imports Types Serialization
begin

text \<open>
  The keys of ledger entries, from \<open>protocol/impl/Indexes.cpp\<close>: each is the first half of the
  SHA-512 digest of a name space character followed by the identifying values. The digest is the
  parameter \<open>sha512\<close>. What is hashed is built with the serializer, in a definition of its own.
\<close>

definition spaceAccount :: u16 where "spaceAccount = 97"
definition spaceDirNode :: u16 where "spaceDirNode = 100"
definition spaceGenerator :: u16 where "spaceGenerator = 103"
definition spaceSkywell :: u16 where "spaceSkywell = 114"
definition spaceTrust :: u16 where "spaceTrust = 116"
definition spaceOffer :: u16 where "spaceOffer = 111"
definition spaceOwnerDir :: u16 where "spaceOwnerDir = 79"
definition spaceBookDir :: u16 where "spaceBookDir = 66"
definition spaceSkipList :: u16 where "spaceSkipList = 115"
definition spaceAmendment :: u16 where "spaceAmendment = 102"
definition spaceFee :: u16 where "spaceFee = 101"
definition spaceIssuer :: u16 where "spaceIssuer = 105"
definition spaceTicket :: u16 where "spaceTicket = 84"
definition spaceManageFee :: u16 where "spaceManageFee = 109"
definition spaceBlackList :: u16 where "spaceBlackList = 108"
definition spaceSign :: u16 where "spaceSign = 83"
definition spaceNickname :: u16 where "spaceNickname = 110"

definition space_data :: "u16 \<Rightarrow> serializer" where
  "space_data sp = snd (add16 sp \<lparr>mData = []\<rparr>)"

definition account_data :: "u16 \<Rightarrow> Account \<Rightarrow> serializer" where
  "account_data sp a = snd (add160 a (space_data sp))"

definition account_sequence_data :: "u16 \<Rightarrow> Account \<Rightarrow> u32 \<Rightarrow> serializer" where
  "account_sequence_data sp a n = snd (add32 n (account_data sp a))"

definition getLedgerHashIndex :: "(blob \<Rightarrow> blob) \<Rightarrow> u256" where
  "getLedgerHashIndex sha512 = Serializer_getSHA512Half sha512 (space_data spaceSkipList)"

definition getLedgerHashIndex_for :: "(blob \<Rightarrow> blob) \<Rightarrow> u32 \<Rightarrow> u256" where
  "getLedgerHashIndex_for sha512 desiredLedgerIndex =
     Serializer_getSHA512Half sha512 (snd (add32 (drop_bit 16 desiredLedgerIndex) (space_data spaceSkipList)))"

definition getLedgerAmendmentIndex :: "(blob \<Rightarrow> blob) \<Rightarrow> u256" where
  "getLedgerAmendmentIndex sha512 = Serializer_getSHA512Half sha512 (space_data spaceAmendment)"

definition getLedgerFeeIndex :: "(blob \<Rightarrow> blob) \<Rightarrow> u256" where
  "getLedgerFeeIndex sha512 = Serializer_getSHA512Half sha512 (space_data spaceFee)"

definition getLedgerManageFeeIndex :: "(blob \<Rightarrow> blob) \<Rightarrow> u256" where
  "getLedgerManageFeeIndex sha512 = Serializer_getSHA512Half sha512 (space_data spaceManageFee)"

definition getLedgerManageIssuerIndex :: "(blob \<Rightarrow> blob) \<Rightarrow> u256" where
  "getLedgerManageIssuerIndex sha512 = Serializer_getSHA512Half sha512 (space_data spaceIssuer)"

definition getBlackListIndex :: "(blob \<Rightarrow> blob) \<Rightarrow> Account \<Rightarrow> u256" where
  "getBlackListIndex sha512 a = Serializer_getSHA512Half sha512 (account_data spaceBlackList a)"

definition getAccountRootIndex :: "(blob \<Rightarrow> blob) \<Rightarrow> Account \<Rightarrow> u256" where
  "getAccountRootIndex sha512 a = Serializer_getSHA512Half sha512 (account_data spaceAccount a)"

definition getGeneratorIndex :: "(blob \<Rightarrow> blob) \<Rightarrow> Account \<Rightarrow> u256" where
  "getGeneratorIndex sha512 a = Serializer_getSHA512Half sha512 (account_data spaceGenerator a)"

definition getOwnerDirIndex :: "(blob \<Rightarrow> blob) \<Rightarrow> Account \<Rightarrow> u256" where
  "getOwnerDirIndex sha512 a = Serializer_getSHA512Half sha512 (account_data spaceOwnerDir a)"

definition getSignStateIndex :: "(blob \<Rightarrow> blob) \<Rightarrow> Account \<Rightarrow> u256" where
  "getSignStateIndex sha512 a = Serializer_getSHA512Half sha512 (account_data spaceSign a)"

definition getNickNameIndex :: "(blob \<Rightarrow> blob) \<Rightarrow> Account \<Rightarrow> u256" where
  "getNickNameIndex sha512 a = Serializer_getSHA512Half sha512 (account_data spaceNickname a)"

definition getOfferIndex :: "(blob \<Rightarrow> blob) \<Rightarrow> Account \<Rightarrow> u32 \<Rightarrow> u256" where
  "getOfferIndex sha512 a n = Serializer_getSHA512Half sha512 (account_sequence_data spaceOffer a n)"

definition getTicketIndex :: "(blob \<Rightarrow> blob) \<Rightarrow> Account \<Rightarrow> u32 \<Rightarrow> u256" where
  "getTicketIndex sha512 a n = Serializer_getSHA512Half sha512 (account_sequence_data spaceTicket a n)"

definition dir_node_data :: "u256 \<Rightarrow> u64 \<Rightarrow> serializer" where
  "dir_node_data uDirRoot n = snd (add64 n (snd (add256 uDirRoot (space_data spaceDirNode))))"

definition getDirNodeIndex :: "(blob \<Rightarrow> blob) \<Rightarrow> u256 \<Rightarrow> u64 \<Rightarrow> u256" where
  "getDirNodeIndex sha512 uDirRoot uNodeIndex =
     (if uNodeIndex \<noteq> 0 then Serializer_getSHA512Half sha512 (dir_node_data uDirRoot uNodeIndex)
      else uDirRoot)"

text \<open>The last eight bytes of a key, in big-endian order, hold the quality.\<close>

definition getQualityIndex :: "u256 \<Rightarrow> u64 \<Rightarrow> u256" where
  "getQualityIndex uBase uNodeDir = (uBase AND NOT (mask 64)) OR ucast uNodeDir"

definition getQualityNext :: "u256 \<Rightarrow> u256" where
  "getQualityNext uBase = uBase + 0x10000000000000000"

definition getQuality :: "u256 \<Rightarrow> u64" where
  "getQuality uBase = ucast uBase"

record book =
  book_in :: issue
  book_out :: issue

definition getBookBase :: "(blob \<Rightarrow> blob) \<Rightarrow> book \<Rightarrow> u256" where
  "getBookBase sha512 b =
     (let s = space_data spaceBookDir;
          s = snd (add160 (currency (book_in b)) s);
          s = snd (add160 (currency (book_out b)) s);
          s = snd (add160 (account (book_in b)) s);
          s = snd (add160 (account (book_out b)) s)
      in getQualityIndex (Serializer_getSHA512Half sha512 s) 0)"

definition skywell_state_data :: "Account \<Rightarrow> Account \<Rightarrow> Currency \<Rightarrow> serializer" where
  "skywell_state_data a b cur =
     (let s = space_data spaceSkywell;
          s = (if a < b then snd (add160 b (snd (add160 a s))) else snd (add160 a (snd (add160 b s))))
      in snd (add160 cur s))"

definition getSkywellStateIndex :: "(blob \<Rightarrow> blob) \<Rightarrow> Account \<Rightarrow> Account \<Rightarrow> Currency \<Rightarrow> u256" where
  "getSkywellStateIndex sha512 a b cur = Serializer_getSHA512Half sha512 (skywell_state_data a b cur)"

definition getSkywellStateIndex_issue :: "(blob \<Rightarrow> blob) \<Rightarrow> Account \<Rightarrow> issue \<Rightarrow> u256" where
  "getSkywellStateIndex_issue sha512 a i = getSkywellStateIndex sha512 a (account i) (currency i)"

definition trust_state_data :: "Account \<Rightarrow> Account \<Rightarrow> u32 \<Rightarrow> Account \<Rightarrow> Currency \<Rightarrow> serializer" where
  "trust_state_data a b uType issuer cur =
     (let s = space_data spaceTrust;
          s = (if a < b then snd (add160 b (snd (add160 a s))) else snd (add160 a (snd (add160 b s))));
          s = snd (add32 uType s);
          s = snd (add160 issuer s)
      in snd (add160 cur s))"

definition getTrustStateIndex :: "(blob \<Rightarrow> blob) \<Rightarrow> Account \<Rightarrow> Account \<Rightarrow> u32 \<Rightarrow> Account \<Rightarrow> Currency \<Rightarrow> u256" where
  "getTrustStateIndex sha512 a b uType issuer cur =
     Serializer_getSHA512Half sha512 (trust_state_data a b uType issuer cur)"

text \<open>Specification side: the keys as values, one constructor per function above, with the key each function
  returns, the name space and the bytes that are hashed. Two calls that differ only in the order of the two ends of a line
  or a relation, or in the low 16 bits of a skip list's ledger sequence, name the same key; \<open>normal_key\<close> removes the
  difference.\<close>

datatype key = SkipList | SkipListOf u32 | Amendments | Fees | ManageFee | ManageIssuer | BlackListOf Account
  | AccountRootOf Account | GeneratorOf Account | OwnerDirOf Account | SignStateOf Account | NickNameOf Account
  | OfferOf Account u32 | TicketOf Account u32 | DirNodeOf u256 u64 | BookBaseOf book
  | LineOf Account Account Currency | RelationOf Account Account u32 Account Currency

fun key_index :: "(blob \<Rightarrow> blob) \<Rightarrow> key \<Rightarrow> u256" where
  "key_index h SkipList = getLedgerHashIndex h"
| "key_index h (SkipListOf n) = getLedgerHashIndex_for h n"
| "key_index h Amendments = getLedgerAmendmentIndex h"
| "key_index h Fees = getLedgerFeeIndex h"
| "key_index h ManageFee = getLedgerManageFeeIndex h"
| "key_index h ManageIssuer = getLedgerManageIssuerIndex h"
| "key_index h (BlackListOf a) = getBlackListIndex h a"
| "key_index h (AccountRootOf a) = getAccountRootIndex h a"
| "key_index h (GeneratorOf a) = getGeneratorIndex h a"
| "key_index h (OwnerDirOf a) = getOwnerDirIndex h a"
| "key_index h (SignStateOf a) = getSignStateIndex h a"
| "key_index h (NickNameOf a) = getNickNameIndex h a"
| "key_index h (OfferOf a n) = getOfferIndex h a n"
| "key_index h (TicketOf a n) = getTicketIndex h a n"
| "key_index h (DirNodeOf r n) = getDirNodeIndex h r n"
| "key_index h (BookBaseOf b) = getBookBase h b"
| "key_index h (LineOf a b c) = getSkywellStateIndex h a b c"
| "key_index h (RelationOf a b t i c) = getTrustStateIndex h a b t i c"

fun key_space :: "key \<Rightarrow> u16" where
  "key_space SkipList = spaceSkipList"
| "key_space (SkipListOf _) = spaceSkipList"
| "key_space Amendments = spaceAmendment"
| "key_space Fees = spaceFee"
| "key_space ManageFee = spaceManageFee"
| "key_space ManageIssuer = spaceIssuer"
| "key_space (BlackListOf _) = spaceBlackList"
| "key_space (AccountRootOf _) = spaceAccount"
| "key_space (GeneratorOf _) = spaceGenerator"
| "key_space (OwnerDirOf _) = spaceOwnerDir"
| "key_space (SignStateOf _) = spaceSign"
| "key_space (NickNameOf _) = spaceNickname"
| "key_space (OfferOf _ _) = spaceOffer"
| "key_space (TicketOf _ _) = spaceTicket"
| "key_space (DirNodeOf _ _) = spaceDirNode"
| "key_space (BookBaseOf _) = spaceBookDir"
| "key_space (LineOf _ _ _) = spaceSkywell"
| "key_space (RelationOf _ _ _ _ _) = spaceTrust"

definition word_bytes :: "'a::len word \<Rightarrow> blob" where
  "word_bytes w = be_bytes (LENGTH('a) div 8) (unat w)"

fun key_body :: "key \<Rightarrow> blob" where
  "key_body (SkipListOf n) = word_bytes (drop_bit 16 n)"
| "key_body (BlackListOf a) = word_bytes a"
| "key_body (AccountRootOf a) = word_bytes a"
| "key_body (GeneratorOf a) = word_bytes a"
| "key_body (OwnerDirOf a) = word_bytes a"
| "key_body (SignStateOf a) = word_bytes a"
| "key_body (NickNameOf a) = word_bytes a"
| "key_body (OfferOf a n) = word_bytes a @ word_bytes n"
| "key_body (TicketOf a n) = word_bytes a @ word_bytes n"
| "key_body (DirNodeOf r n) = word_bytes r @ word_bytes n"
| "key_body (BookBaseOf b) = word_bytes (currency (book_in b)) @ word_bytes (currency (book_out b)) @
     word_bytes (account (book_in b)) @ word_bytes (account (book_out b))"
| "key_body (LineOf a b c) = word_bytes (min a b) @ word_bytes (max a b) @ word_bytes c"
| "key_body (RelationOf a b t i c) =
     word_bytes (min a b) @ word_bytes (max a b) @ word_bytes t @ word_bytes i @ word_bytes c"
| "key_body _ = []"

definition key_bytes :: "key \<Rightarrow> blob" where
  "key_bytes k = word_bytes (key_space k) @ key_body k"

fun normal_key :: "key \<Rightarrow> key" where
  "normal_key (SkipListOf n) = SkipListOf (drop_bit 16 n)"
| "normal_key (LineOf a b c) = LineOf (min a b) (max a b) c"
| "normal_key (RelationOf a b t i c) = RelationOf (min a b) (max a b) t i c"
| "normal_key k = k"

lemma add160_bytes: "mData (snd (add160 x s)) = mData s @ be_bytes 20 (unat x)"
  using c160.add_enc [of x s] by (simp add: uint_bytes_def push_bytes_def)

lemma add256_bytes: "mData (snd (add256 x s)) = mData s @ be_bytes 32 (unat x)"
  using c256.add_enc [of x s] by (simp add: uint_bytes_def push_bytes_def)

lemma add_num_bytes:
  "mData (snd (add16 a s)) = mData s @ be_bytes 2 (unat a)"
  "mData (snd (add32 b s)) = mData s @ be_bytes 4 (unat b)"
  "mData (snd (add64 c s)) = mData s @ be_bytes 8 (unat c)"
  by (simp_all add: add16_bytes add32_bytes add64_bytes push_bytes_def)

lemma be_bytes_unat_inj:
  fixes a b :: "'a::len word"
  assumes "be_bytes n (unat a) = be_bytes n (unat b)" "LENGTH('a) \<le> 8 * n"
  shows "a = b"
proof -
  have "unat x < 256 ^ n" for x :: "'a word"
  proof -
    have "unat x < 2 ^ LENGTH('a)" by simp
    also have "(2::nat) ^ LENGTH('a) \<le> 2 ^ (8 * n)" using assms(2) by (intro power_increasing) simp_all
    finally show ?thesis by (simp add: power_mult)
  qed
  then show ?thesis
    using assms(1) be_val_be_bytes by (metis mod_less unsigned_word_eqI)
qed

lemma word_bytes_length [simp]: "length (word_bytes (w :: 'a::len word)) = LENGTH('a) div 8"
  by (simp add: word_bytes_def)

lemma word_bytes_sized:
  "word_bytes (c :: u32) = be_bytes 4 (unat c)" "word_bytes (a :: u160) = be_bytes 20 (unat a)"
  by (simp_all add: word_bytes_def)

lemma word_bytes_inj:
  fixes v w :: "'a::len word"
  assumes "8 dvd LENGTH('a)"
  shows "word_bytes v = word_bytes w \<longleftrightarrow> v = w"
  using be_bytes_unat_inj [of "LENGTH('a) div 8" v w] assms by (auto simp: word_bytes_def)

lemma word_bytes_not_Nil [simp]: "word_bytes (w :: u32) \<noteq> []" "[] \<noteq> word_bytes (w :: u32)"
proof -
  have "length (word_bytes w) \<noteq> 0" by simp
  then show "word_bytes w \<noteq> []" by (rule contrapos_nn) simp
  then show "[] \<noteq> word_bytes w" by (rule not_sym)
qed

lemmas space_consts = spaceAccount_def spaceDirNode_def spaceGenerator_def spaceSkywell_def spaceTrust_def
  spaceOffer_def spaceOwnerDir_def spaceBookDir_def spaceSkipList_def spaceAmendment_def spaceFee_def spaceIssuer_def
  spaceTicket_def spaceManageFee_def spaceBlackList_def spaceSign_def spaceNickname_def

lemmas index_defs = getLedgerHashIndex_def getLedgerHashIndex_for_def getLedgerAmendmentIndex_def getLedgerFeeIndex_def
  getLedgerManageFeeIndex_def getLedgerManageIssuerIndex_def getBlackListIndex_def getAccountRootIndex_def
  getGeneratorIndex_def getOwnerDirIndex_def getSignStateIndex_def getNickNameIndex_def getOfferIndex_def
  getTicketIndex_def getDirNodeIndex_def getBookBase_def getSkywellStateIndex_def getTrustStateIndex_def

lemmas data_defs = space_data_def account_data_def account_sequence_data_def dir_node_data_def skywell_state_data_def
  trust_state_data_def

lemma key_data_simps:
  "mData (space_data sp) = word_bytes sp"
  "mData (account_data sp a) = word_bytes sp @ word_bytes a"
  "mData (account_sequence_data sp a n) = word_bytes sp @ word_bytes a @ word_bytes n"
  "mData (dir_node_data r d) = word_bytes spaceDirNode @ word_bytes r @ word_bytes d"
  "mData (skywell_state_data a b cur) = word_bytes spaceSkywell @ word_bytes (min a b) @ word_bytes (max a b) @ word_bytes cur"
  "mData (trust_state_data a b t i cur) = word_bytes spaceTrust @ word_bytes (min a b) @ word_bytes (max a b) @
     word_bytes t @ word_bytes i @ word_bytes cur"
  by (auto simp: data_defs word_bytes_def add160_bytes add256_bytes add_num_bytes Let_def min_def max_def)

lemma key_index_hash:
  "key_index h k =
    (case k of DirNodeOf r n \<Rightarrow> if n = 0 then r else getSHA512Half h (key_bytes k)
     | BookBaseOf b \<Rightarrow> getQualityIndex (getSHA512Half h (key_bytes k)) 0
     | _ \<Rightarrow> getSHA512Half h (key_bytes k))"
  by (cases k) (simp_all add: index_defs key_data_simps Serializer_getSHA512Half_def key_bytes_def Let_def
      add160_bytes add_num_bytes flip: word_bytes_sized)

lemma key_body_inj: "key_space k = key_space k' \<Longrightarrow> key_body k = key_body k' \<Longrightarrow> normal_key k = normal_key k'"
  by (cases k; cases k') (simp_all add: space_consts word_bytes_inj)

lemma key_bytes_inj: "key_bytes k = key_bytes k' \<longleftrightarrow> normal_key k = normal_key k'"
proof
  assume "key_bytes k = key_bytes k'"
  then have "key_space k = key_space k'" "key_body k = key_body k'" by (simp_all add: key_bytes_def word_bytes_inj)
  then show "normal_key k = normal_key k'" by (rule key_body_inj)
next
  assume "normal_key k = normal_key k'"
  then show "key_bytes k = key_bytes k'" by (cases k; cases k') (simp_all add: key_bytes_def)
qed

lemma quality_val: "uint (getQualityIndex b q) = uint b div 2 ^ 64 * 2 ^ 64 + uint q"
proof -
  have "getQualityIndex b q = push_bit 64 (drop_bit 64 b) OR ucast q"
    unfolding getQualityIndex_def
    by (rule bit_word_eqI) (auto simp: bit_simps)
  also have "\<dots> = push_bit 64 (drop_bit 64 b) + ucast q"
    by (rule disjunctive_add [symmetric]) (auto simp: bit_simps dest: bit_imp_le_length)
  finally have "getQualityIndex b q = push_bit 64 (drop_bit 64 b) + ucast q" .
  moreover have "uint (push_bit 64 (drop_bit 64 b) :: u256) = uint b div 2 ^ 64 * 2 ^ 64"
  proof -
    have lt: "uint b div 2 ^ 64 * 2 ^ 64 < 2 ^ 256"
      using uint_lt2p [of b] by (simp add: minus_mod_eq_div_mult [symmetric])
    have "uint (push_bit 64 (drop_bit 64 b) :: u256) =
        take_bit LENGTH(256) (push_bit 64 (drop_bit 64 (take_bit LENGTH(256) (uint b))))"
      unfolding unsigned_push_bit_eq unsigned_drop_bit_eq ..
    also have "\<dots> = uint b div 2 ^ 64 * 2 ^ 64 mod 2 ^ 256"
      using uint_lt2p [of b] by (simp add: push_bit_eq_mult drop_bit_eq_div take_bit_eq_mod mod_pos_pos_trivial)
    also have "\<dots> = uint b div 2 ^ 64 * 2 ^ 64" by (rule mod_pos_pos_trivial [OF _ lt]) (simp add: pos_imp_zdiv_nonneg_iff)
    finally show ?thesis .
  qed
  moreover have "uint b div 2 ^ 64 * 2 ^ 64 + uint q < 2 ^ 256"
  proof -
    have "uint b div 2 ^ 64 < 2 ^ 192" using uint_lt2p [of b] by (simp add: div_less_iff_less_mult)
    then have "uint b div 2 ^ 64 + 1 \<le> 2 ^ 192" by simp
    then have "(uint b div 2 ^ 64 + 1) * 2 ^ 64 \<le> 2 ^ 192 * 2 ^ 64" by (rule mult_right_mono) simp
    then show ?thesis using uint_lt2p [of q] by simp
  qed
  moreover have "uint (ucast q :: u256) = uint q" by (simp add: uint_up_ucast is_up)
  ultimately show ?thesis
    using uint_add_lem [THEN iffD1, of "push_bit 64 (drop_bit 64 b)" "ucast q :: u256"] by simp
qed

text \<open>C27: what is hashed into a key says which entry it names. Every key function returns the half digest of the
  name space followed by its identifying values, with two exceptions: page 0 of a directory has the directory's own key,
  and a book's key has its low 64 bits cleared. The bytes hashed for two keys of any two kinds are equal exactly if
  the kinds and the identifying values are, where the two ends of a line or relation count as a set and a skip list is
  named by its ledger sequence without the low 16 bits.\<close>

theorem key_data_determines:
  "key_index h k =
    (case k of DirNodeOf r n \<Rightarrow> if n = 0 then r else getSHA512Half h (key_bytes k)
     | BookBaseOf b \<Rightarrow> getQualityIndex (getSHA512Half h (key_bytes k)) 0
     | _ \<Rightarrow> getSHA512Half h (key_bytes k)) \<and>
   (key_bytes k = key_bytes k' \<longleftrightarrow> normal_key k = normal_key k')"
  by (rule conjI [OF key_index_hash key_bytes_inj])

text \<open>C35: a quality stored in a book key is read back, leaves the rest of the key alone, and orders the
  pages of a book: the keys of all qualities of a book lie between its base and the bound that
  ends the search, in the order of the qualities.\<close>

theorem quality_pages_ordered:
  "getQuality (getQualityIndex b q) = q \<and> drop_bit 64 (getQualityIndex b q) = drop_bit 64 b \<and>
   (getQualityIndex b q < getQualityIndex b q' \<longleftrightarrow> q < q') \<and> getQualityIndex b 0 \<le> getQualityIndex b q \<and>
   (drop_bit 64 b \<noteq> mask 192 \<longrightarrow> getQualityIndex b q < getQualityNext (getQualityIndex b 0))"
proof (intro conjI impI)
  have "\<not> bit q (64 + n)" "bit b (64 + n) \<Longrightarrow> n < 192" for n
    using bit_imp_le_length [of q "64 + n"] bit_imp_le_length [of b "64 + n"] by auto
  then show "getQuality (getQualityIndex b q) = q" "drop_bit 64 (getQualityIndex b q) = drop_bit 64 b"
    by (auto intro!: bit_word_eqI simp: getQuality_def getQualityIndex_def bit_simps)
  show "getQualityIndex b q < getQualityIndex b q' \<longleftrightarrow> q < q'" "getQualityIndex b 0 \<le> getQualityIndex b q"
    by (simp_all add: word_less_def word_le_def quality_val)
  assume top: "drop_bit 64 b \<noteq> mask 192"
  have "uint (drop_bit 64 b) = uint b div 2 ^ 64" by (simp add: uint_div drop_bit_eq_div)
  moreover have "uint (mask 192 :: u256) = 2 ^ 192 - 1" by (simp add: mask_eq_exp_minus_1)
  ultimately have "uint b div 2 ^ 64 \<noteq> 2 ^ 192 - 1" using top by (metis unsigned_word_eqI)
  moreover have "uint b div 2 ^ 64 < 2 ^ 192" using uint_lt2p [of b] by (simp add: div_less_iff_less_mult)
  ultimately have "uint b div 2 ^ 64 + 1 \<le> 2 ^ 192 - 1" by linarith
  then have "(uint b div 2 ^ 64 + 1) * 2 ^ 64 \<le> (2 ^ 192 - 1) * 2 ^ 64" by (rule mult_right_mono) simp
  then have "uint (getQualityNext (getQualityIndex b 0)) = uint b div 2 ^ 64 * 2 ^ 64 + 2 ^ 64"
    unfolding getQualityNext_def by (subst uint_add_lem [THEN iffD1]) (simp_all add: quality_val)
  then show "getQualityIndex b q < getQualityNext (getQualityIndex b 0)"
    using uint_lt2p [of q] by (simp add: word_less_def quality_val)
qed

theorem quality_pages_ordered_witness: "getQualityIndex 0 5 < getQualityNext (getQualityIndex 0 0)"
  using quality_pages_ordered [of 0 5 0] by simp

end
