(* ===== verification/AmountText.thy ===== *)
theory AmountText
  imports AmountArith
begin

text \<open>
  Amounts as text, from \<open>protocol/impl/STAmount.cpp\<close>: printing with \<open>getText\<close> and parsing with
  \<open>setValue\<close>. The boost library the parser calls is the parameter record \<open>boost_ops\<close>: the match
  of the number pattern with its groups, and the conversions of digit strings to integers, which
  answer \<open>None\<close> where \<open>boost::lexical_cast\<close> throws.
\<close>

text \<open>
  The groups of a match: the sign, the integer digits, the fraction digits where there is a
  fraction, and the sign and digits of the exponent where there is one.
\<close>

record smatch =
  m_sign :: string
  m_int :: string
  m_frac :: "string option"
  m_exp :: "(string \<times> string) option"

record boost_ops =
  regex_match :: "string \<Rightarrow> smatch option"
  lexical_cast_u64 :: "string \<Rightarrow> u64 option"
  lexical_cast_u32 :: "string \<Rightarrow> u32 option"
  lexical_cast_int :: "string \<Rightarrow> int option"

subsection \<open>Decimal digits\<close>

definition digit :: "nat \<Rightarrow> char" where
  "digit d = char_of (48 + d)"

fun std_to_string :: "nat \<Rightarrow> string" where
  "std_to_string n = (if n < 10 then [digit n] else std_to_string (n div 10) @ [digit (n mod 10)])"

declare std_to_string.simps [simp del]

definition std_to_string_int :: "int \<Rightarrow> string" where
  "std_to_string_int i = (if i < 0 then CHR ''-'' # std_to_string (nat (- i)) else std_to_string (nat i))"

subsection \<open>Printing\<close>

definition getText :: "stamount \<Rightarrow> string" where
  "getText a =
     (if is_zero a then ''0''
      else
        let raw_value = std_to_string (unat (mValue a));
            ret = (if mIsNegative a then ''-'' else []);
            scientific = (mOffset a \<noteq> 0 \<and> (mOffset a < -25 \<or> mOffset a > -5))
        in if mIsNative a \<or> scientific then
             ret @ raw_value @ (if scientific then ''e'' @ std_to_string_int (mOffset a) else [])
           else
             let pad_prefix = 27; pad_suffix = 23;
                 val = replicate pad_prefix (CHR ''0'') @ raw_value @ replicate pad_suffix (CHR ''0'');
                 offset = nat (mOffset a + 43);
                 pre = take offset val;
                 post = drop offset val;
                 pre = (if length pre > pad_prefix then drop pad_prefix pre else pre);
                 pre = dropWhile (\<lambda>c. c = CHR ''0'') pre;
                 post = (if length post > pad_suffix then take (length post - pad_suffix) post else post);
                 post = rev (dropWhile (\<lambda>c. c = CHR ''0'') (rev post));
                 ret = ret @ (if pre = [] then ''0'' else pre)
             in if post \<noteq> [] then ret @ ''.'' @ post else ret)"

subsection \<open>Parsing\<close>

text \<open>
  What \<open>canonicalize\<close> leaves in the object when it throws: the loops work on the members, so the
  mantissa and exponent reached so far.
\<close>

function scale_down_left :: "u64 \<Rightarrow> int \<Rightarrow> u64 \<times> int" where
  "scale_down_left v off =
     (if v > cMaxValue \<and> off < cMaxOffset then scale_down_left (v div 10) (off + 1) else (v, off))"
  by auto
termination by (relation "measure (\<lambda>(v, off). nat (cMaxOffset - off))") auto

declare scale_down_left.simps [simp del]

definition canonicalize_left :: "stamount \<Rightarrow> stamount" where
  "canonicalize_left a =
     (let (v, off) =
        (if isSWT_amount a then let (v, off) = native_div_loop (mValue a) (mOffset a) in native_mul_loop v off
         else let (v, off) = scale_up_loop (mValue a) (mOffset a) in scale_down_left v off)
      in a\<lparr>mIsNative := isSWT_amount a, mValue := v, mOffset := off\<rparr>)"

text \<open>
  \<open>setValue\<close> answers whether the text was accepted, and the amount it leaves behind in either case.
  An exponent is added to the position of the fraction in 32 bits.
\<close>

definition setValue :: "boost_ops \<Rightarrow> string \<Rightarrow> stamount \<Rightarrow> bool \<times> stamount" where
  "setValue B amount a =
     (case regex_match B amount of
        None \<Rightarrow> (False, a)
      | Some m \<Rightarrow>
          if length (m_int m) + length (case m_frac m of None \<Rightarrow> [] | Some f \<Rightarrow> f) > 32 then (False, a)
          else
            let a = a\<lparr>mIsNegative := (m_sign m = ''-'')\<rparr>
            in if mIsNative a \<and> m_frac m \<noteq> None then (False, a)
               else
                 (case lexical_cast_u64 B (case m_frac m of None \<Rightarrow> m_int m | Some f \<Rightarrow> m_int m @ f) of
                    None \<Rightarrow> (False, a)
                  | Some v \<Rightarrow>
                      let a = a\<lparr>mValue := v, mOffset := (case m_frac m of None \<Rightarrow> 0 | Some f \<Rightarrow> - int (length f))\<rparr>
                      in (case (case m_exp m of
                                 None \<Rightarrow> Some (mOffset a)
                               | Some (sg, ds) \<Rightarrow>
                                   map_option (\<lambda>e. s32 (if sg = ''-'' then mOffset a - e else mOffset a + e))
                                     (lexical_cast_int B ds)) of
                           None \<Rightarrow> (False, a)
                         | Some off \<Rightarrow>
                             let a = a\<lparr>mOffset := off\<rparr>
                             in (case canonicalize a of
                                   Inr a \<Rightarrow> (True, a)
                                 | Inl _ \<Rightarrow> (False, canonicalize_left a)))))"

text \<open>The amount \<open>amountFromJson\<close> makes of an issue that is not native and the text of a value.\<close>

definition amountFromJson_text :: "boost_ops \<Rightarrow> issue \<Rightarrow> string \<Rightarrow> stamount" where
  "amountFromJson_text B iss text = snd (setValue B text (STAmount_unchecked iss 0 0 False False))"

subsection \<open>What the parser relies on\<close>

definition decimal :: "string \<Rightarrow> nat" where
  "decimal s = foldl (\<lambda>n c. n * 10 + (of_char c - 48)) 0 s"

definition is_digit :: "char \<Rightarrow> bool" where
  "is_digit c \<longleftrightarrow> of_char c \<in> {48 :: nat..57}"

definition digits :: "string \<Rightarrow> bool" where
  "digits s \<longleftrightarrow> s \<noteq> [] \<and> list_all is_digit s"

text \<open>The strings the pattern of numbers accepts, with their groups.\<close>

definition reNumber :: "smatch \<Rightarrow> string \<Rightarrow> bool" where
  "reNumber m s \<longleftrightarrow>
     m_sign m \<in> {[], ''-'', ''+''} \<and>
     digits (m_int m) \<and> (m_int m = ''0'' \<or> hd (m_int m) \<noteq> CHR ''0'') \<and>
     (case m_frac m of None \<Rightarrow> True | Some f \<Rightarrow> digits f) \<and>
     (case m_exp m of None \<Rightarrow> True | Some (sg, ds) \<Rightarrow> sg \<in> {[], ''-'', ''+''} \<and> digits ds) \<and>
     (\<exists>e \<in> {CHR ''e'', CHR ''E''}.
        s = m_sign m @ m_int m @ (case m_frac m of None \<Rightarrow> [] | Some f \<Rightarrow> ''.'' @ f) @
            (case m_exp m of None \<Rightarrow> [] | Some (sg, ds) \<Rightarrow> e # sg @ ds))"

definition boost_ok :: "boost_ops \<Rightarrow> bool" where
  "boost_ok B \<longleftrightarrow>
     (\<forall>s m. regex_match B s = Some m \<longleftrightarrow> reNumber m s) \<and>
     (\<forall>s. digits s \<longrightarrow>
        lexical_cast_u64 B s = (if decimal s < 2 ^ 64 then Some (of_nat (decimal s)) else None) \<and>
        lexical_cast_u32 B s = (if decimal s < 2 ^ 32 then Some (of_nat (decimal s)) else None) \<and>
        lexical_cast_int B s = (if decimal s < 2 ^ 31 then Some (int (decimal s)) else None))"

text \<open>A matcher for the pattern, and the conversions, as the library documents them.\<close>

definition match_exp :: "string \<Rightarrow> (string \<times> string) option option" where
  "match_exp s =
     (case s of
        [] \<Rightarrow> Some None
      | c # s' \<Rightarrow>
          if c = CHR ''e'' \<or> c = CHR ''E'' then
            let sg = takeWhile (\<lambda>c. c = CHR ''-'' \<or> c = CHR ''+'') (take 1 s'); ds = drop (length sg) s'
            in if digits ds then Some (Some (sg, ds)) else None
          else None)"

definition match_number :: "string \<Rightarrow> smatch option" where
  "match_number s =
     (let sg = takeWhile (\<lambda>c. c = CHR ''-'' \<or> c = CHR ''+'') (take 1 s);
          s = drop (length sg) s;
          i = takeWhile is_digit s;
          s = drop (length i) s;
          frac = (case s of c # s' \<Rightarrow> if c = CHR ''.'' then Some (takeWhile is_digit s') else None | [] \<Rightarrow> None);
          s = (case frac of None \<Rightarrow> s | Some f \<Rightarrow> drop (Suc (length f)) s)
      in if i \<noteq> [] \<and> (i = ''0'' \<or> hd i \<noteq> CHR ''0'') \<and> frac \<noteq> Some [] then
           map_option (\<lambda>ex. \<lparr>m_sign = sg, m_int = i, m_frac = frac, m_exp = ex\<rparr>) (match_exp s)
         else None)"

definition boost_decimal :: "nat \<Rightarrow> string \<Rightarrow> nat option" where
  "boost_decimal limit s = (if digits s \<and> decimal s < limit then Some (decimal s) else None)"

definition boost_reference :: boost_ops where
  "boost_reference =
     \<lparr>regex_match = match_number,
      lexical_cast_u64 = (\<lambda>s. map_option of_nat (boost_decimal (2 ^ 64) s)),
      lexical_cast_u32 = (\<lambda>s. map_option of_nat (boost_decimal (2 ^ 32) s)),
      lexical_cast_int = (\<lambda>s. map_option int (boost_decimal (2 ^ 31) s))\<rparr>"

definition crop :: "string \<Rightarrow> string" where
  "crop s = rev (dropWhile (\<lambda>c. c = CHR ''0'') (rev s))"

definition exp_part :: "(string \<times> string) option \<Rightarrow> string \<Rightarrow> bool" where
  "exp_part ex s = (case ex of None \<Rightarrow> s = []
     | Some (sg, ds) \<Rightarrow> sg \<in> {[], ''-'', ''+''} \<and> digits ds \<and> (\<exists>e \<in> {CHR ''e'', CHR ''E''}. s = e # sg @ ds))"

lemma decimal_Nil [simp]: "decimal [] = 0"
  by (simp add: decimal_def)

lemma decimal_snoc: "decimal (s @ [c]) = decimal s * 10 + (of_char c - 48)"
  by (simp add: decimal_def)

lemma decimal_append: "decimal (s @ t) = decimal s * 10 ^ length t + decimal t"
proof (induction t rule: rev_induct)
  case (snoc c t)
  have "decimal (s @ t @ [c]) = decimal (s @ t) * 10 + (of_char c - 48)"
    using decimal_snoc [of "s @ t" c] by simp
  then show ?case using snoc by (simp add: decimal_snoc algebra_simps)
qed simp

lemma decimal_Cons: "decimal (c # t) = (of_char c - 48) * 10 ^ length t + decimal t"
  using decimal_append [of "[c]" t] by (simp add: decimal_def)

lemma digit_is_digit [simp]: "d < 10 \<Longrightarrow> is_digit (digit d)"
  and of_digit: "d < 10 \<Longrightarrow> of_char (digit d) = 48 + d"
  by (simp_all add: digit_def is_digit_def)

lemma digit_0 [simp]: "digit 0 = CHR ''0''"
  by code_simp

lemma digit_zero: "d < 10 \<Longrightarrow> digit d = CHR ''0'' \<longleftrightarrow> d = 0"
  using of_digit [of d] by fastforce

lemma is_digit_chars [simp]:
  "\<not> is_digit CHR ''-''" "\<not> is_digit CHR ''+''" "\<not> is_digit CHR ''.''" "\<not> is_digit CHR ''e''" "\<not> is_digit CHR ''E''"
  "is_digit CHR ''0''"
  by (simp_all add: is_digit_def)

lemma to_string_step: "10 \<le> n \<Longrightarrow> std_to_string n = std_to_string (n div 10) @ [digit (n mod 10)]"
  "n < 10 \<Longrightarrow> std_to_string n = [digit n]"
  by (simp_all add: std_to_string.simps [of n])

lemma to_string_spec:
  "digits (std_to_string n) \<and> decimal (std_to_string n) = n \<and> (n \<noteq> 0 \<longrightarrow> hd (std_to_string n) \<noteq> CHR ''0'')"
proof (induction n rule: std_to_string.induct)
  case (1 n)
  show ?case
  proof (cases "n < 10")
    case True
    then show ?thesis by (simp add: to_string_step digits_def decimal_def of_digit digit_zero)
  next
    case False
    with 1 show ?thesis by (auto simp: to_string_step digits_def decimal_snoc of_digit hd_append)
  qed
qed

lemma to_string_length: "n < 10 ^ k \<Longrightarrow> 0 < k \<Longrightarrow> length (std_to_string n) \<le> k"
proof (induction n arbitrary: k rule: std_to_string.induct)
  case (1 n)
  show ?case
  proof (cases "n < 10")
    case False
    then obtain j where k: "k = Suc j" "0 < j" using 1(2,3) by (cases k; cases "k - 1") auto
    then have "n div 10 < 10 ^ j" using 1(2) by (simp add: less_mult_imp_div_less)
    with 1(1) [OF False this k(2)] False k show ?thesis by (simp add: to_string_step)
  qed (use 1(3) in \<open>simp add: to_string_step\<close>)
qed

lemma to_string_length_ge: "10 ^ k \<le> n \<Longrightarrow> Suc k \<le> length (std_to_string n)"
proof (induction k arbitrary: n)
  case 0
  then show ?case using to_string_spec [of n] by (cases "std_to_string n") (auto simp: digits_def)
next
  case (Suc k)
  have "10 \<le> n" using Suc(2) le_trans [of 10 "10 * 10 ^ k" n] by simp
  moreover have "10 ^ k \<le> n div 10" using Suc(2) by (simp add: less_eq_div_iff_mult_less_eq mult.commute)
  ultimately show ?case using Suc(1) [of "n div 10"] by (simp add: to_string_step)
qed

text \<open>Cropping trailing zeros.\<close>

lemma crop_spec: "\<exists>k. s = crop s @ replicate k (CHR ''0'')"
proof -
  let ?z = "takeWhile (\<lambda>c. c = CHR ''0'') (rev s)"
  have "rev s = ?z @ dropWhile (\<lambda>c. c = CHR ''0'') (rev s)" by simp
  then have "s = crop s @ rev ?z" unfolding crop_def by (metis rev_append rev_rev_ident)
  moreover have "?z = replicate (length ?z) (CHR ''0'')"
    by (rule replicate_length_same [symmetric]) (auto dest: set_takeWhileD)
  ultimately show ?thesis by (metis rev_replicate)
qed

lemma decimal_zeros [simp]: "decimal (replicate k (CHR ''0'')) = 0"
  by (induction k) (simp_all add: decimal_Cons)

text \<open>The plain notation, as integer and fraction digits.\<close>

lemma take_zeros: "n \<le> 27 \<Longrightarrow> dropWhile (\<lambda>c. c = CHR ''0'') (take n (replicate 27 CHR ''0'' @ s)) = []"
  by (auto simp: dropWhile_eq_Nil_conv dest: in_set_takeD)

lemma getText_plain:
  assumes "canonical a" "\<not> mIsNative a" "mValue a \<noteq> 0" and off: "-25 \<le> mOffset a \<and> mOffset a \<le> -5 \<or> mOffset a = 0"
  obtains i f k where "getText a = (if mIsNegative a then ''-'' else []) @ i @ (if f = [] then [] else ''.'' @ f)"
    "digits i" "i = ''0'' \<or> hd i \<noteq> CHR ''0''" "list_all is_digit f" "length i + length f \<le> 32"
    "decimal (i @ f) * 10 ^ k = unat (mValue a)" "- int (length f) = mOffset a + int k"
proof -
  let ?raw = "std_to_string (unat (mValue a))"
  let ?n = "nat (mOffset a + 43)"
  let ?val = "replicate 27 (CHR ''0'') @ ?raw @ replicate 23 (CHR ''0'')"
  let ?sg = "if mIsNegative a then ''-'' else []"
  note c = canonical_issuedD [OF assms(1-3)]
  have len: "length ?raw = 16" using to_string_length [OF c(2)] to_string_length_ge [OF c(1)] by simp
  have raw: "digits ?raw" "decimal ?raw = unat (mValue a)" "hd ?raw \<noteq> CHR ''0''"
    using to_string_spec [of "unat (mValue a)"] c(1) by auto
  have n: "18 \<le> ?n" "?n \<le> 43" "int ?n = mOffset a + 43" using off by auto
  have sci: "\<not> (mOffset a \<noteq> 0 \<and> (mOffset a < -25 \<or> mOffset a > -5))" using off by auto
  define i where "i = (if ?n \<le> 27 then ''0'' else take (?n - 27) ?raw)"
  define q where "q = (if ?n \<le> 27 then replicate (27 - ?n) (CHR ''0'') @ ?raw else drop (?n - 27) ?raw)"
  have hd: "dropWhile (\<lambda>c. c = CHR ''0'') (take m ?raw) = take m ?raw" for m
    using raw(1,3) by (cases ?raw; cases m) (auto simp: digits_def)
  have pre: "(if length (take ?n ?val) > 27 then drop 27 (take ?n ?val) else take ?n ?val) =
      (if ?n \<le> 27 then take ?n ?val else take (?n - 27) ?raw)"
    using n(2) len by (auto simp: drop_take)
  have post: "crop (if length (drop ?n ?val) > 23 then take (length (drop ?n ?val) - 23) (drop ?n ?val) else drop ?n ?val) = crop q"
    using n(2) len by (auto simp: q_def crop_def)
  have lq: "int (length q) = - mOffset a" "length q \<le> 25" using n len by (auto simp: q_def)
  have dq: "decimal (i @ q) = unat (mValue a)"
  proof (cases "?n \<le> 27")
    case False
    then have "i @ q = ?raw" by (simp add: i_def q_def)
    then show ?thesis by (simp only: raw(2))
  qed (use raw(2) in \<open>simp add: i_def q_def decimal_Cons decimal_append\<close>)
  obtain k where k: "q = crop q @ replicate k (CHR ''0'')" using crop_spec by blast
  have "getText a = ?sg @ i @ (if crop q = [] then [] else ''.'' @ crop q)"
  proof -
    have e: "take (?n - 27) ?raw \<noteq> []" if "\<not> ?n \<le> 27" using that len by auto
    have pre': "dropWhile (\<lambda>c. c = CHR ''0'') (if length (take ?n ?val) > 27 then drop 27 (take ?n ?val) else take ?n ?val) =
        (if ?n \<le> 27 then [] else take (?n - 27) ?raw)"
      unfolding pre by (cases "?n \<le> 27") (simp_all only: take_zeros hd if_True if_False)
    show ?thesis
      unfolding getText_def Let_def crop_def [symmetric] pre' post
      using assms(2,3) sci e by (auto simp: i_def)
  qed
  moreover have "digits i" "i = ''0'' \<or> hd i \<noteq> CHR ''0''"
    using raw len by (auto simp: i_def digits_def list_all_iff hd_take dest: in_set_takeD)
  moreover have "list_all is_digit q" using raw(1) by (auto simp: q_def digits_def list_all_iff dest: in_set_dropD)
  then have "list_all is_digit (crop q)" by (subst (asm) k) simp
  moreover have "length i \<le> 16" "?n \<le> 27 \<or> length i + length q \<le> 16" "?n \<le> 27 \<longrightarrow> length i = 1"
    using len by (auto simp: i_def q_def)
  then have "length i + length (crop q) \<le> 32" using lq(2) arg_cong [OF k, of length] by auto
  moreover have "decimal (i @ crop q) * 10 ^ k = unat (mValue a)"
    using dq by (subst (asm) k) (simp add: decimal_append algebra_simps power_add)
  moreover have "- int (length (crop q)) = mOffset a + int k" using lq(1) arg_cong [OF k, of length] by simp
  ultimately show ?thesis by (rule that)
qed

lemma canonical_unique:
  assumes "canonical a" "\<not> mIsNative a" "mValue a \<noteq> 0" "canonical b" "\<not> mIsNative b" "mValue b \<noteq> 0"
    and le: "magnitude b \<le> magnitude a" and less: "magnitude a < magnitude b + 10 powi mOffset b"
  shows "mValue a = mValue b \<and> mOffset a = mOffset b"
proof -
  note ca = canonical_issuedD [OF assms(1-3)] and cb = canonical_issuedD [OF assms(4-6)]
  have ub: "magnitude b + 10 powi mOffset b = real (unat (mValue b) + 1) * 10 powi mOffset b"
    by (simp add: magnitude_def algebra_simps)
  have "\<not> mOffset a < mOffset b" using magnitude_exponent_less [OF assms(1-6)] le by auto
  moreover have "\<not> mOffset b < mOffset a"
  proof
    assume "mOffset b < mOffset a"
    then have "real (10 ^ 15) * 10 powi (mOffset b + 1) \<le> magnitude a"
      unfolding magnitude_def using ca by (intro nat_mag_bounds) auto
    moreover have "real (unat (mValue b) + 1) * 10 powi mOffset b \<le> real (10 ^ 16) * 10 powi mOffset b"
      using cb by (intro nat_mag_bounds) auto
    moreover have "real (10 ^ 15) * 10 powi (mOffset b + 1) = real (10 ^ 16) * 10 powi mOffset b"
      by (simp add: power_int_add)
    ultimately show False using less ub by linarith
  qed
  ultimately have off: "mOffset a = mOffset b" by simp
  then have "real (unat (mValue b)) \<le> real (unat (mValue a))" "real (unat (mValue a)) < real (unat (mValue b) + 1)"
    using le less unfolding ub by (simp_all add: magnitude_def)
  then have "unat (mValue a) = unat (mValue b)" by linarith
  then show ?thesis using off by (simp add: word_unat_eq_iff)
qed

lemma canonicalize_scaled:
  assumes a: "canonical a" "\<not> mIsNative a" "mValue a \<noteq> 0"
    and p: "mIssue p = mIssue a" "mIsNegative p = mIsNegative a" "unat (mValue p) * 10 ^ k = unat (mValue a)"
      "mOffset p = mOffset a + int k"
  shows "canonicalize p = Inr a"
proof -
  have iou: "\<not> isSWT_amount p" using a p(1) by (auto simp: canonical_def isSWT_amount_def)
  have nz: "mValue p \<noteq> 0" using canonical_issuedD(1) [OF a] p(3) by auto
  have m: "magnitude p = magnitude a"
    unfolding magnitude_def p(3) [symmetric] p(4) powi_shift by simp
  note c = canonical_issuedD [OF a]
  have hi: "\<not> 10 powi 96 \<le> magnitude p"
    using nat_mag_less [OF c(2,4)] unfolding m unfolding magnitude_def by (simp add: power_int_def [of 10 80] power_int_def [of 10 96])
  have lo: "\<not> magnitude p < 10 powi - 81"
    using nat_mag_bounds [OF c(1,3)] unfolding m unfolding magnitude_def by (simp add: power_int_minus field_simps)
  obtain b where b: "canonicalize p = Inr b" "mIssue b = mIssue p" "\<not> mIsNative b" "mIsNegative b = mIsNegative p"
    "canonical b" "mValue b \<noteq> 0" "magnitude b \<le> magnitude p" "magnitude p < magnitude b + 10 powi mOffset b"
    using canonicalize_issued [OF iou nz] hi lo by auto
  have "mValue a = mValue b \<and> mOffset a = mOffset b"
    by (rule canonical_unique [OF a b(5,3,6)]) (use b(7,8) m in simp_all)
  then have "b = a" using b p a by (cases a; cases b) simp
  with b(1) show ?thesis by simp
qed

lemma setValue_match:
  assumes B: "boost_ok B" and m: "reNumber m s"
    and f: "f = (case m_frac m of None \<Rightarrow> [] | Some f \<Rightarrow> f)" "length (m_int m) + length f \<le> 32"
    and nat: "mIsNative x \<longrightarrow> m_frac m = None" and small: "decimal (m_int m @ f) < 2 ^ 64"
    and off: "case m_exp m of None \<Rightarrow> off = - int (length f)
      | Some (sg, ds) \<Rightarrow> decimal ds < 2 ^ 31 \<and>
          off = s32 (if sg = ''-'' then - int (length f) - int (decimal ds) else - int (length f) + int (decimal ds))"
    and c: "canonicalize (x\<lparr>mIsNegative := (m_sign m = ''-''), mValue := of_nat (decimal (m_int m @ f)), mOffset := off\<rparr>) = Inr a"
  shows "setValue B s x = (True, a)"
proof -
  have d: "digits (m_int m @ f)" using m f(1) by (auto simp: reNumber_def digits_def split: option.splits)
  have re: "regex_match B s = Some m" using B m by (simp add: boost_ok_def)
  have v: "lexical_cast_u64 B (m_int m @ f) = Some (of_nat (decimal (m_int m @ f)))"
    using B d small by (simp add: boost_ok_def)
  have e: "lexical_cast_int B ds = Some (int (decimal ds))" if "m_exp m = Some (sg, ds)" for sg ds
    using B m off that by (auto simp: boost_ok_def reNumber_def)
  show ?thesis
    using f nat v e off c by (auto simp: setValue_def re Let_def split: option.splits)
qed

lemma digits_to_string: "digits (std_to_string n)" "decimal (std_to_string n) = n"
  "n \<noteq> 0 \<Longrightarrow> hd (std_to_string n) \<noteq> CHR ''0''"
  using to_string_spec [of n] by simp_all

text \<open>A match without a fraction, from the printed mantissa and exponent.\<close>

lemma setValue_whole:
  assumes "boost_ok B" "canonical a" "mValue a \<noteq> 0" "mIssue x = mIssue a" "mIsNative x = mIsNative a"
    and s: "s = (if mIsNegative a then ''-'' else []) @ std_to_string (unat (mValue a)) @
      (if mOffset a = 0 then [] else ''e'' @ std_to_string_int (mOffset a))"
  shows "setValue B s x = (True, a)"
proof -
  define m where "m = \<lparr>m_sign = (if mIsNegative a then ''-'' else []), m_int = std_to_string (unat (mValue a)), m_frac = None,
    m_exp = (if mOffset a = 0 then None
      else Some (if mOffset a < 0 then ''-'' else [], std_to_string (nat \<bar>mOffset a\<bar>)))\<rparr>"
  have off: "\<bar>mOffset a\<bar> \<le> 100" using assms(2) by (auto simp: canonical_def cMinOffset_def cMaxOffset_def split: if_splits)
  have v: "unat (mValue a) < 2 ^ 62" by (rule canonical_small [OF assms(2)])
  have nz: "unat (mValue a) \<noteq> 0" using assms(3) by (simp add: unat_eq_zero)
  have "reNumber m s"
    using digits_to_string(1) digits_to_string(3) [OF nz] by (auto simp: reNumber_def m_def s std_to_string_int_def)
  moreover have "length (std_to_string (unat (mValue a))) \<le> 20"
    by (rule to_string_length) (use v in simp_all)
  moreover have "x\<lparr>mIsNegative := (m_sign m = ''-''), mValue := of_nat (decimal (m_int m @ [])), mOffset := mOffset a\<rparr> = a"
    using assms(4,5) by (cases a; cases x) (simp add: m_def digits_to_string of_nat_unat ucast_id)
  ultimately show ?thesis
    by (intro setValue_match [OF assms(1), of m s "[]" x "mOffset a" a])
      (use v off canonical_fix [OF assms(2)] in \<open>auto simp: m_def digits_to_string s32_id\<close>)
qed

lemma text_roundtrip:
  assumes "boost_ok B" "canonical a" "mIssue x = mIssue a" "mIsNative x = mIsNative a"
  shows "setValue B (getText a) x = (True, a)"
proof (cases "mValue a = 0")
  case True
  define m where "m = \<lparr>m_sign = [], m_int = ''0'', m_frac = None, m_exp = None\<rparr>"
  have "reNumber m ''0''" by (auto simp: reNumber_def m_def digits_def)
  moreover have "canonicalize (x\<lparr>mIsNegative := (m_sign m = ''-''), mValue := of_nat (decimal (m_int m @ [])), mOffset := 0\<rparr>) = Inr a"
    using True assms(2-4) by (cases a; cases x) (auto simp: m_def canonicalize_def canonical_def isSWT_amount_def decimal_Cons split: if_splits)
  ultimately have "setValue B ''0'' x = (True, a)"
    by (intro setValue_match [OF assms(1), of m "''0''" "[]" x 0 a]) (auto simp: m_def decimal_Cons)
  then show ?thesis using True by (simp add: getText_def)
next
  case False
  show ?thesis
  proof (cases "mIsNative a \<or> mOffset a \<noteq> 0 \<and> (mOffset a < -25 \<or> mOffset a > -5)")
    case True
    then have "mIsNative a \<Longrightarrow> mOffset a = 0" using canonical_nativeD(2) [OF assms(2)] by simp
    then show ?thesis
      by (intro setValue_whole [OF assms(1,2) False assms(3,4)]) (use True False in \<open>auto simp: getText_def Let_def\<close>)
  next
    case plain: False
    then have na: "\<not> mIsNative a" and off: "-25 \<le> mOffset a \<and> mOffset a \<le> -5 \<or> mOffset a = 0" by auto
    obtain i f k where t: "getText a = (if mIsNegative a then ''-'' else []) @ i @ (if f = [] then [] else ''.'' @ f)"
      and i: "digits i" "i = ''0'' \<or> hd i \<noteq> CHR ''0''" "list_all is_digit f" "length i + length f \<le> 32"
      and d: "decimal (i @ f) * 10 ^ k = unat (mValue a)" "- int (length f) = mOffset a + int k"
      by (rule getText_plain [OF assms(2) na False off])
    define m where "m = \<lparr>m_sign = (if mIsNegative a then ''-'' else []), m_int = i, m_frac = (if f = [] then None else Some f), m_exp = None\<rparr>"
    have "reNumber m (getText a)" using i by (auto simp: reNumber_def m_def t digits_def)
    moreover have v: "decimal (i @ f) \<le> unat (mValue a)" using d(1) by (metis le_square mult.commute mult_le_mono2 nat_mult_1_right one_le_numeral one_le_power)
    then have v: "decimal (i @ f) < 2 ^ 64" using canonical_small [OF assms(2)] by simp
    moreover have "canonicalize (x\<lparr>mIsNegative := (m_sign m = ''-''), mValue := of_nat (decimal (m_int m @ f)), mOffset := - int (length f)\<rparr>) = Inr a"
      by (rule canonicalize_scaled [OF assms(2) na False, where k = k])
        (use assms(3) d v in \<open>simp_all add: m_def unat_of_nat take_bit_nat_eq_self\<close>)
    ultimately show ?thesis
      by (intro setValue_match [OF assms(1), of m _ f x "- int (length f)" a]) (use i(4) na assms(4) in \<open>auto simp: m_def\<close>)
  qed
qed

lemma takeWhile_part: "list_all P xs \<Longrightarrow> ys = [] \<or> \<not> P (hd ys) \<Longrightarrow> takeWhile P (xs @ ys) = xs"
  by (induction xs) (auto simp: takeWhile_eq_Nil_iff)

lemma sign_part:
  assumes "sg \<in> {[], ''-'', ''+''}" "digits t"
  shows "takeWhile (\<lambda>c. c = CHR ''-'' \<or> c = CHR ''+'') (take 1 (sg @ t @ u)) = sg"
  using assms by (cases t) (auto simp: digits_def)

lemma sign_prefix:
  obtains t where "s = takeWhile (\<lambda>c. c = CHR ''-'' \<or> c = CHR ''+'') (take 1 s) @ t"
    "takeWhile (\<lambda>c. c = CHR ''-'' \<or> c = CHR ''+'') (take 1 s) \<in> {[], ''-'', ''+''}"
    "t = drop (length (takeWhile (\<lambda>c. c = CHR ''-'' \<or> c = CHR ''+'') (take 1 s))) s"
  by (cases s) auto

lemma match_exp_iff: "match_exp s = Some ex \<longleftrightarrow> exp_part ex s"
proof (cases s)
  case (Cons c s')
  show ?thesis
  proof
    assume a: "match_exp s = Some ex"
    obtain t where t: "s' = takeWhile (\<lambda>c. c = CHR ''-'' \<or> c = CHR ''+'') (take 1 s') @ t"
      "takeWhile (\<lambda>c. c = CHR ''-'' \<or> c = CHR ''+'') (take 1 s') \<in> {[], ''-'', ''+''}"
      "t = drop (length (takeWhile (\<lambda>c. c = CHR ''-'' \<or> c = CHR ''+'') (take 1 s'))) s'" by (rule sign_prefix)
    show "exp_part ex s"
      using a t Cons unfolding match_exp_def exp_part_def Let_def by (auto split: if_splits)
  next
    assume a: "exp_part ex s"
    then obtain sg ds where x: "ex = Some (sg, ds)" "sg \<in> {[], ''-'', ''+''}" "digits ds" "s' = sg @ ds" "c = CHR ''e'' \<or> c = CHR ''E''"
      using Cons by (auto simp: exp_part_def split: option.splits)
    then show "match_exp s = Some ex"
      using sign_part [OF x(2,3), of "[]"] Cons by (auto simp: match_exp_def Let_def)
  qed
qed (auto simp: match_exp_def exp_part_def split: option.splits)

lemma reNumber_iff:
  "reNumber m s \<longleftrightarrow> m_sign m \<in> {[], ''-'', ''+''} \<and> digits (m_int m) \<and> (m_int m = ''0'' \<or> hd (m_int m) \<noteq> CHR ''0'') \<and>
     (case m_frac m of None \<Rightarrow> True | Some f \<Rightarrow> digits f) \<and>
     (\<exists>t. exp_part (m_exp m) t \<and> s = m_sign m @ m_int m @ (case m_frac m of None \<Rightarrow> [] | Some f \<Rightarrow> ''.'' @ f) @ t)"
  by (cases "m_exp m") (auto simp: reNumber_def exp_part_def)

lemma exp_part_hd: "exp_part ex t \<Longrightarrow> t = [] \<or> (hd t = CHR ''e'' \<or> hd t = CHR ''E'')"
  by (auto simp: exp_part_def split: option.splits)

lemma match_number_complete:
  assumes "reNumber m s"
  shows "match_number s = Some m"
proof -
  obtain t where m: "m_sign m \<in> {[], ''-'', ''+''}" "digits (m_int m)" "m_int m = ''0'' \<or> hd (m_int m) \<noteq> CHR ''0''"
    "case m_frac m of None \<Rightarrow> True | Some f \<Rightarrow> digits f" "exp_part (m_exp m) t"
    and s: "s = m_sign m @ m_int m @ (case m_frac m of None \<Rightarrow> [] | Some f \<Rightarrow> ''.'' @ f) @ t"
    using assms by (auto simp: reNumber_iff)
  note e = exp_part_hd [OF m(5)] and me = m(5) [folded match_exp_iff]
  let ?rest = "(case m_frac m of None \<Rightarrow> [] | Some f \<Rightarrow> ''.'' @ f) @ t"
  have i: "takeWhile is_digit (m_int m @ ?rest) = m_int m"
    by (rule takeWhile_part) (use m(2) e in \<open>auto simp: digits_def split: option.splits\<close>)
  have f: "takeWhile is_digit (f @ t) = f" if "m_frac m = Some f" for f
    by (rule takeWhile_part) (use m(4) e that in \<open>auto simp: digits_def\<close>)
  have frac: "(case ?rest of c # s' \<Rightarrow> if c = CHR ''.'' then Some (takeWhile is_digit s') else None | [] \<Rightarrow> None) = m_frac m"
    using e f by (cases "m_frac m"; cases t) auto
  have fr: "m_frac m \<noteq> Some []" using m(4) by (auto simp: digits_def)
  have rest: "(case m_frac m of None \<Rightarrow> ?rest | Some f \<Rightarrow> drop (Suc (length f)) ?rest) = t" by (auto split: option.split)
  have dl: "drop (length xs) (xs @ ys) = ys" for xs ys :: string by simp
  show ?thesis
    unfolding match_number_def Let_def s sign_part [OF m(1,2)] dl i frac rest
    using m(2,3) fr me by (simp add: digits_def)
qed

lemma match_number_sound:
  assumes "match_number s = Some m"
  shows "reNumber m s"
proof -
  define sg where "sg = takeWhile (\<lambda>c. c = CHR ''-'' \<or> c = CHR ''+'') (take 1 s)"
  obtain t where t: "s = sg @ t" "sg \<in> {[], ''-'', ''+''}" "t = drop (length sg) s"
    unfolding sg_def by (rule sign_prefix)
  define i where "i = takeWhile is_digit t"
  define u where "u = drop (length i) t"
  have u: "t = i @ u" by (simp add: i_def u_def dropWhile_eq_drop [symmetric])
  define fr where "fr = (case u of c # s' \<Rightarrow> if c = CHR ''.'' then Some (takeWhile is_digit s') else None | [] \<Rightarrow> None)"
  define w where "w = (case fr of None \<Rightarrow> u | Some f \<Rightarrow> drop (Suc (length f)) u)"
  have w: "u = (case fr of None \<Rightarrow> [] | Some f \<Rightarrow> ''.'' @ f) @ w"
    by (cases u) (auto simp: fr_def w_def dropWhile_eq_drop [symmetric])
  have df: "list_all is_digit f" if "fr = Some f" for f
    using that by (cases u) (auto simp: fr_def list_all_iff split: if_splits dest: set_takeWhileD)
  obtain ex where m: "m = \<lparr>m_sign = sg, m_int = i, m_frac = fr, m_exp = ex\<rparr>" "match_exp w = Some ex"
    and c: "i \<noteq> []" "i = ''0'' \<or> hd i \<noteq> CHR ''0''" "fr \<noteq> Some []"
    using assms unfolding match_number_def Let_def sg_def [symmetric] t(3) [symmetric] i_def [symmetric] u_def [symmetric] fr_def [symmetric] w_def [symmetric]
    by (auto split: if_splits)
  have di: "list_all is_digit i" by (auto simp: i_def list_all_iff dest: set_takeWhileD)
  show ?thesis
    unfolding reNumber_iff m(1)
    using t(2) df di c m(2) [unfolded match_exp_iff] t(1) [unfolded u w]
    by (intro conjI exI [of _ w]) (auto simp: digits_def split: option.split)
qed

lemma match_number_iff: "match_number s = Some m \<longleftrightarrow> reNumber m s"
  using match_number_complete match_number_sound by blast

lemma boost_reference_ok: "boost_ok boost_reference"
  by (simp add: boost_ok_def boost_reference_def boost_decimal_def match_number_iff)

text \<open>C18: printing a canonical amount and parsing the text with \<open>setValue\<close> into an amount of the same
  issue gives the amount back, in plain and in scientific notation, for every mantissa, exponent
  and sign.\<close>

theorem amount_text_roundtrip:
  assumes "boost_ok B" "canonical a" "mIssue x = mIssue a" "mIsNative x = mIsNative a"
  shows "setValue B (getText a) x = (True, a)"
  by (rule text_roundtrip [OF assms])

theorem amount_text_roundtrip_witness:
  "setValue boost_reference (getText (iou_amount 1234500000000000 (-20))) (iou_amount 0 0) =
     (True, iou_amount 1234500000000000 (-20))"
  by (rule amount_text_roundtrip [OF boost_reference_ok])
    (simp_all add: canonical_def isSWT_amount_def amount_consts)

text \<open>Text that is not a number is refused by \<open>setValue\<close>, but \<open>amountFromJson\<close> ignores the refusal
  and yields an amount of zero with exponent 0, which is not a canonical amount.\<close>

theorem bad_text_becomes_zero:
  assumes "boost_ok B" "\<nexists>m. reNumber m text" "\<not> isSWT (currency iss)"
  shows "fst (setValue B text (STAmount_unchecked iss 0 0 False False)) = False \<and>
    mValue (amountFromJson_text B iss text) = 0 \<and> \<not> canonical (amountFromJson_text B iss text)"
proof -
  have "regex_match B text = None" using assms(1,2) by (cases "regex_match B text") (auto simp: boost_ok_def)
  then show ?thesis
    using assms(3) by (simp add: amountFromJson_text_def setValue_def STAmount_unchecked_def canonical_def isSWT_amount_def)
qed

theorem bad_text_becomes_zero_witness:
  "fst (setValue boost_reference ''ten'' (STAmount_unchecked noIssue 0 0 False False)) = False \<and>
    mValue (amountFromJson_text boost_reference noIssue ''ten'') = 0 \<and>
    \<not> canonical (amountFromJson_text boost_reference noIssue ''ten'')"
proof (rule bad_text_becomes_zero [OF boost_reference_ok])
  have "match_number ''ten'' = None" by (simp add: match_number_def is_digit_def)
  then show "\<nexists>m. reNumber m ''ten''" by (simp add: match_number_iff [symmetric])
qed simp

end
