(* ===== verification/Ledgers.thy ===== *)
theory Ledgers
  imports LedgerFormat Indexes StdMap AmountText
begin

text \<open>
  The ledger a transaction is applied to, from \<open>ledger/Ledger.cpp\<close>: its account state and
  transaction maps by their content, entry lookup and write-back, the fee schedule, the special
  accounts kept in the state, and the traversal of an account's owner directory. The hash function,
  the bignum words, the boost conversions and the node configuration are the parameter record \<open>app\<close>.
\<close>

record app =
  app_sha512 :: "blob \<Rightarrow> blob"
  app_bn :: bn_ops
  app_boost :: boost_ops
  FEE_DEFAULT :: u32
  TRANSACTION_FEE_BASE :: u32
  FEE_ACCOUNT_RESERVE :: u64
  FEE_OWNER_RESERVE :: u64
  FEE_ACCOUNTID :: Account
  SISSUER_ACCOUNTID :: Account

record ledger =
  mAccountStateMap :: "(u256, sle) smap"
  mTransactionMap :: "(u256, blob) smap"
  mLedgerSeq :: u32
  mTotCoins :: u64
  mBaseFee :: u64
  mReferenceFeeUnits :: u32
  mReserveBase :: u32
  mReserveIncrement :: u32

datatype LedgerStateParms = lepCREATED | lepOKAY | lepMISSING

definition writeBack :: "bool \<Rightarrow> sle \<Rightarrow> ledger \<Rightarrow> LedgerStateParms \<times> ledger" where
  "writeBack create e l =
     (let present = (map_of (mAccountStateMap l) (sleIndex e) \<noteq> None);
          l' = l\<lparr>mAccountStateMap := smap_insert (sleIndex e) e (mAccountStateMap l)\<rparr>
      in if \<not> present then if \<not> create then (lepMISSING, l) else (lepCREATED, l')
         else (lepOKAY, l'))"

definition delItem :: "u256 \<Rightarrow> ledger \<Rightarrow> bool \<times> ledger" where
  "delItem i l =
     (map_of (mAccountStateMap l) i \<noteq> None, l\<lparr>mAccountStateMap := smap_erase i (mAccountStateMap l)\<rparr>)"

definition getSLE :: "ledger \<Rightarrow> u256 \<Rightarrow> sle option" where
  "getSLE l i = map_of (mAccountStateMap l) i"

definition getSLEi :: "ledger \<Rightarrow> u256 \<Rightarrow> sle option" where
  "getSLEi l i = map_of (mAccountStateMap l) i"

definition getASNode :: "ledger \<Rightarrow> u256 \<Rightarrow> LedgerEntryType \<Rightarrow> sle option" where
  "getASNode l i t =
     (case map_of (mAccountStateMap l) i of
        None \<Rightarrow> None
      | Some e \<Rightarrow> if sleType e \<noteq> t then None else Some e)"

definition addTransaction :: "u256 \<Rightarrow> blob \<Rightarrow> ledger \<Rightarrow> bool \<times> ledger" where
  "addTransaction txID txn l =
     (if map_of (mTransactionMap l) txID \<noteq> None then (False, l)
      else (True, l\<lparr>mTransactionMap := smap_insert txID txn (mTransactionMap l)\<rparr>))"

definition hasTransaction :: "ledger \<Rightarrow> u256 \<Rightarrow> bool" where
  "hasTransaction l i = (map_of (mTransactionMap l) i \<noteq> None)"

definition Ledger_getNextLedgerIndex :: "ledger \<Rightarrow> u256 \<Rightarrow> u256" where
  "Ledger_getNextLedgerIndex l uHash =
     (case smap_upper_bound uHash (mAccountStateMap l) of None \<Rightarrow> 0 | Some (k, _) \<Rightarrow> k)"

definition Ledger_getNextLedgerIndex_end :: "ledger \<Rightarrow> u256 \<Rightarrow> u256 \<Rightarrow> u256" where
  "Ledger_getNextLedgerIndex_end l uHash uEnd =
     (case smap_upper_bound uHash (mAccountStateMap l) of
        None \<Rightarrow> 0 | Some (k, _) \<Rightarrow> if k > uEnd then 0 else k)"

subsection \<open>Fees and special accounts\<close>

definition initializeFees :: "ledger \<Rightarrow> ledger" where
  "initializeFees l = l\<lparr>mBaseFee := 0, mReferenceFeeUnits := 0, mReserveBase := 0, mReserveIncrement := 0\<rparr>"

definition updateFees :: "app \<Rightarrow> ledger \<Rightarrow> ledger result" where
  "updateFees A l =
     (if mBaseFee l \<noteq> 0 then Inr l
      else
        let baseFee = (ucast (FEE_DEFAULT A) :: u64);
            referenceFeeUnits = TRANSACTION_FEE_BASE A;
            reserveBase = (ucast (FEE_ACCOUNT_RESERVE A) :: u32);
            reserveIncrement = (ucast (FEE_OWNER_RESERVE A) :: u32);
            fees = (case getASNode l (getLedgerFeeIndex (app_sha512 A)) ltFEE_SETTINGS of
                      None \<Rightarrow> Inr (baseFee, referenceFeeUnits)
                    | Some e \<Rightarrow>
                        bindE (if hasField sfBaseFee e then getFieldU64 sfBaseFee e else Inr baseFee) (\<lambda>b.
                        bindE (if hasField sfReferenceFeeUnits e then getFieldU32 sfReferenceFeeUnits e
                               else Inr referenceFeeUnits) (\<lambda>r. Inr (b, r))))
        in bindE fees (\<lambda>(b, r).
             Inr (l\<lparr>mBaseFee := b, mReferenceFeeUnits := r, mReserveBase := reserveBase,
                    mReserveIncrement := reserveIncrement\<rparr>)))"

text \<open>The argument is an \<open>int\<close> that is sign-extended to 64 bits.\<close>

definition getReserve :: "app \<Rightarrow> int \<Rightarrow> ledger \<Rightarrow> (u64 \<times> ledger) result" where
  "getReserve A increments l =
     bindE (updateFees A l) (\<lambda>l.
       Inr (word_of_int increments * ucast (mReserveIncrement l) + ucast (mReserveBase l), l))"

definition checkBlackList :: "app \<Rightarrow> ledger \<Rightarrow> Account \<Rightarrow> bool" where
  "checkBlackList A l a = (getASNode l (getBlackListIndex (app_sha512 A) a) ltBLACKLIST \<noteq> None)"

definition getFeeAccountID :: "app \<Rightarrow> ledger \<Rightarrow> Account result" where
  "getFeeAccountID A l =
     (case getASNode l (getLedgerManageFeeIndex (app_sha512 A)) ltMANAGE_FEE of
        None \<Rightarrow> Inr (FEE_ACCOUNTID A)
      | Some e \<Rightarrow> if hasField sfFeeAccountID e then getFieldAccount160 sfFeeAccountID e
                  else Inr (FEE_ACCOUNTID A))"

definition getIssuerOpAccountID :: "app \<Rightarrow> ledger \<Rightarrow> Account result" where
  "getIssuerOpAccountID A l =
     (case getASNode l (getLedgerManageIssuerIndex (app_sha512 A)) ltMANAGE_ISSUER of
        None \<Rightarrow> Inr (SISSUER_ACCOUNTID A)
      | Some e \<Rightarrow> if hasField sfIssuerAccountID e then getFieldAccount160 sfIssuerAccountID e
                  else Inr (SISSUER_ACCOUNTID A))"

subsection \<open>Directories\<close>

definition ownerDirDescriber :: "Account \<Rightarrow> sle \<Rightarrow> sle result" where
  "ownerDirDescriber owner e = setFieldAccount sfOwner owner e"

definition qualityDirDescriber :: "issue \<Rightarrow> issue \<Rightarrow> u64 \<Rightarrow> sle \<Rightarrow> sle result" where
  "qualityDirDescriber takerPays takerGets uRate e =
     bindE (setFieldH160 sfTakerPaysCurrency (currency takerPays) e) (\<lambda>e.
     bindE (setFieldH160 sfTakerPaysIssuer (account takerPays) e) (\<lambda>e.
     bindE (setFieldH160 sfTakerGetsCurrency (currency takerGets) e) (\<lambda>e.
     bindE (setFieldH160 sfTakerGetsIssuer (account takerGets) e) (\<lambda>e.
     setFieldU64 sfExchangeRate uRate e))))"

text \<open>
  The traversal follows the page links until there is none; on a cyclic chain it would not end,
  which is the value \<open>None\<close>. The result is the sequence of entries the visitor is called on, a
  missing entry as \<open>None\<close>.
\<close>

partial_function (option) visit_pages ::
    "app \<Rightarrow> ledger \<Rightarrow> u256 \<Rightarrow> u256 \<Rightarrow> (sle option list result) option" where
  "visit_pages A l rootIndex currentIndex =
     (case getSLEi l currentIndex of
        None \<Rightarrow> Some (Inr [])
      | Some ownerDir \<Rightarrow>
          if sleType ownerDir \<noteq> ltDIR_NODE then Some (Inr [])
          else (case getFieldV256 sfIndexes ownerDir of
                  Inl er \<Rightarrow> Some (Inl er)
                | Inr nodes \<Rightarrow>
                    (case getFieldU64 sfIndexNext ownerDir of
                       Inl er \<Rightarrow> Some (Inl er)
                     | Inr uNodeNext \<Rightarrow>
                         if uNodeNext = 0 then Some (Inr (map (getSLEi l) nodes))
                         else Option.bind
                                (visit_pages A l rootIndex (getDirNodeIndex (app_sha512 A) rootIndex uNodeNext))
                                (\<lambda>r. Some (bindE r (\<lambda>rest. Inr (map (getSLEi l) nodes @ rest)))))))"

definition visitAccountItems :: "app \<Rightarrow> ledger \<Rightarrow> Account \<Rightarrow> (sle option list result) option" where
  "visitAccountItems A l accountID =
     (let rootIndex = getOwnerDirIndex (app_sha512 A) accountID in visit_pages A l rootIndex rootIndex)"

text \<open>A concrete environment for examples; the stand-in for the hash keeps the end of its input apart.\<close>

definition example_app :: app where
  "example_app =
     \<lparr>app_sha512 = (\<lambda>bs. take 64 (rev bs @ replicate 64 0)), app_bn = bn_nat, app_boost = boost_reference,
      FEE_DEFAULT = 10, TRANSACTION_FEE_BASE = 10, FEE_ACCOUNT_RESERVE = 20000000, FEE_OWNER_RESERVE = 5000000,
      FEE_ACCOUNTID = 1, SISSUER_ACCOUNTID = 2\<rparr>"

end
