(* ===== verification/Deferred.thy ===== *)
theory Deferred
  imports AmountArith StdMap "HOL-Library.Product_Lexorder"
begin

text \<open>
  Deferred credits, from \<open>ledger/DeferredCredits.cpp\<close>: while they are enabled, what an account has
  received on a line is remembered and taken off its balance, so that it cannot be spent before
  the payment is complete.
\<close>

type_synonym dc_key = "Account \<times> Account \<times> Currency"
type_synonym dc_value = "stamount \<times> stamount"
type_synonym deferred_credits = "(dc_key, dc_value) smap"

definition makeKey :: "Account \<Rightarrow> Account \<Rightarrow> Currency \<Rightarrow> dc_key" where
  "makeKey a1 a2 c = (if a1 < a2 then (a1, a2, c) else (a2, a1, c))"

definition credit :: "Account \<Rightarrow> Account \<Rightarrow> stamount \<Rightarrow> deferred_credits \<Rightarrow> deferred_credits result" where
  "credit sender receiver amount dc =
     (let k = makeKey sender receiver (currency (mIssue amount))
      in case map_of dc k of
           None \<Rightarrow>
             bindE (zeroed amount) (\<lambda>z.
               Inr (smap_insert k (if sender < receiver then (z, amount) else (amount, z)) dc))
         | Some (low, high) \<Rightarrow>
             if sender < receiver
             then bindE (amount_add high amount) (\<lambda>high'. Inr (smap_insert k (low, high') dc))
             else bindE (amount_add low amount) (\<lambda>low'. Inr (smap_insert k (low', high) dc)))"

definition dc_adjustedBalance :: "Account \<Rightarrow> Account \<Rightarrow> stamount \<Rightarrow> deferred_credits \<Rightarrow> stamount result" where
  "dc_adjustedBalance main other curBalance dc =
     (case map_of dc (makeKey main other (currency (mIssue curBalance))) of
        None \<Rightarrow> Inr curBalance
      | Some (low, high) \<Rightarrow> if main < other then amount_sub curBalance low else amount_sub curBalance high)"

definition dc_clear :: "deferred_credits \<Rightarrow> deferred_credits" where
  "dc_clear dc = []"

text \<open>What a party has been credited on a line so far.\<close>

definition credited :: "deferred_credits \<Rightarrow> Account \<Rightarrow> Account \<Rightarrow> Currency \<Rightarrow> stamount option" where
  "credited dc main other cur =
     map_option (if main < other then fst else snd) (map_of dc (makeKey main other cur))"

lemma makeKey_commute: "a \<noteq> b \<Longrightarrow> makeKey a b c = makeKey b a c"
  by (auto simp: makeKey_def)

lemma makeKey_eq_iff: "makeKey a b c = makeKey a' b' c' \<longleftrightarrow> {a, b} = {a', b'} \<and> c = c'"
  by (auto simp: makeKey_def doubleton_eq_iff)

text \<open>C28: a credit is taken off the receiver's balance on that line and off nothing else: the sender's
  own balance on the line and every other line keep their adjustment.\<close>

theorem credit_defers_receiver_only:
  assumes "smap_valid dc" "sender \<noteq> receiver" "credit sender receiver amount dc = Inr dc'"
    "c = currency (mIssue amount)"
  shows "smap_valid dc' \<and>
    (case credited dc receiver sender c of
       None \<Rightarrow> credited dc' receiver sender c = Some amount
     | Some old \<Rightarrow> \<exists>new. amount_add old amount = Inr new \<and> credited dc' receiver sender c = Some new) \<and>
    (case credited dc sender receiver c of
       None \<Rightarrow> \<exists>z. zeroed amount = Inr z \<and> credited dc' sender receiver c = Some z
     | Some old \<Rightarrow> credited dc' sender receiver c = Some old) \<and>
    (\<forall>x y c'. {x, y} \<noteq> {sender, receiver} \<or> c' \<noteq> c \<longrightarrow> credited dc' x y c' = credited dc x y c')"
proof -
  have ord: "sender < receiver \<longleftrightarrow> \<not> receiver < sender" using assms(2) by auto
  have k: "makeKey receiver sender c = makeKey sender receiver c" using makeKey_commute assms(2) by simp
  have other: "makeKey x y c' \<noteq> makeKey sender receiver c" if "{x, y} \<noteq> {sender, receiver} \<or> c' \<noteq> c" for x y c'
    using that by (simp add: makeKey_eq_iff)
  obtain low high low' high' where
    dc': "dc' = smap_insert (makeKey sender receiver c) (low', high') dc" and
    old: "map_of dc (makeKey sender receiver c) = None \<and> zeroed amount = Inr (if sender < receiver then low' else high') \<and>
        (if sender < receiver then high' else low') = amount \<or>
      map_of dc (makeKey sender receiver c) = Some (low, high) \<and>
        (if sender < receiver then low' = low \<and> amount_add high amount = Inr high'
         else high' = high \<and> amount_add low amount = Inr low')"
    using assms(3) unfolding credit_def Let_def assms(4)[symmetric]
    by (cases "sender < receiver") (auto simp: bindE_eq_Inr split: option.splits)
  have look: "map_of dc' = (map_of dc)(makeKey sender receiver c \<mapsto> (low', high'))"
    using std.lookup_insert [OF assms(1)] dc' by simp
  have "smap_valid dc'" using std.valid_insert [OF assms(1)] dc' by simp
  moreover have "case credited dc receiver sender c of
       None \<Rightarrow> credited dc' receiver sender c = Some amount
     | Some old \<Rightarrow> \<exists>new. amount_add old amount = Inr new \<and> credited dc' receiver sender c = Some new"
    using old ord by (auto simp: credited_def k look)
  moreover have "case credited dc sender receiver c of
       None \<Rightarrow> \<exists>z. zeroed amount = Inr z \<and> credited dc' sender receiver c = Some z
     | Some old \<Rightarrow> credited dc' sender receiver c = Some old"
    using old ord by (auto simp: credited_def look)
  moreover have "credited dc' x y c' = credited dc x y c'" if "{x, y} \<noteq> {sender, receiver} \<or> c' \<noteq> c" for x y c'
    using other [OF that] by (simp add: credited_def look)
  ultimately show ?thesis by blast
qed

theorem credit_defers_receiver_only_witness:
  "\<exists>dc'. credit 1 2 (native_amount 7) [] = Inr dc' \<and>
     credited dc' 2 1 (currency xrpIssue) = Some (native_amount 7)"
proof -
  have "zeroed (native_amount 7) = Inr (native_amount 0)" by code_simp
  then obtain dc' where "credit 1 2 (native_amount 7) [] = Inr dc'" by (simp add: credit_def Let_def)
  with credit_defers_receiver_only [OF std.valid_new _ this refl] show ?thesis
    by (simp add: credited_def)
qed

text \<open>With no credit recorded on a line the adjusted balance is the balance; with a credit it is
  the balance less what the party itself received.\<close>

theorem adjusted_balance_subtracts_credits:
  assumes "credited dc main other (currency (mIssue bal)) = opt"
  shows "dc_adjustedBalance main other bal dc =
    (case opt of None \<Rightarrow> Inr bal | Some got \<Rightarrow> amount_sub bal got)"
  using assms by (auto simp: dc_adjustedBalance_def credited_def split: option.splits)

theorem adjusted_balance_subtracts_credits_witness:
  "dc_adjustedBalance 1 2 (native_amount 9) [] = Inr (native_amount 9)"
  using adjusted_balance_subtracts_credits [of "[]" 1 2 "native_amount 9" None] by (simp add: credited_def)

end
