(* ===== verification/EntrySet.thy ===== *)
theory EntrySet
  imports Ledgers Deferred
begin

text \<open>
  The set of ledger entries a transaction works on, from \<open>ledger/LedgerEntrySet.cpp\<close> and
  \<open>LedgerEntrySet.h\<close>, and its write-back to the ledger by \<open>TransactionEngine::txnWrite\<close>.

  The code hands out shared pointers to the entries it caches and later mutates the entries
  through them. A pointer is modelled by the key of the entry (\<open>None\<close> is the null pointer) and
  an access through it by an access to the entry of the set with that key. Operations are functions
  of the set that may throw; the set of a computation that throws is discarded.
\<close>

datatype LedgerEntryAction = taaNONE | taaCACHED | taaMODIFY | taaDELETE | taaCREATE

record les_entry =
  mEntry :: sle
  mAction :: LedgerEntryAction
  entrySeq :: int

record les =
  mLedger :: ledger
  mEntries :: "(u256, les_entry) smap"
  mDeferredCredits :: "deferred_credits option"
  setTxID :: u256
  setLgrSeq :: u32
  setDelivered :: "stamount option"
  mParams :: u32
  mSeq :: int
  mImmutable :: bool

definition tapNONE :: u32 where "tapNONE = 0x00"
definition tapNO_CHECK_SIGN :: u32 where "tapNO_CHECK_SIGN = 0x01"
definition tapOPEN_LEDGER :: u32 where "tapOPEN_LEDGER = 0x10"
definition tapRETRY :: u32 where "tapRETRY = 0x20"
definition tapADMIN :: u32 where "tapADMIN = 0x400"
definition tapPRE_CHECKED :: u32 where "tapPRE_CHECKED = 0x1000"
definition tapMASTER_SIGN :: u32 where "tapMASTER_SIGN = 0x2000"

subsection \<open>Computations on a set\<close>

type_synonym 'a lesM = "les \<Rightarrow> ('a \<times> les) result"

definition retM :: "'a \<Rightarrow> 'a lesM" where
  "retM x = (\<lambda>s. Inr (x, s))"

definition bindM :: "'a lesM \<Rightarrow> ('a \<Rightarrow> 'b lesM) \<Rightarrow> 'b lesM" where
  "bindM m f = (\<lambda>s. case m s of Inl er \<Rightarrow> Inl er | Inr (x, s') \<Rightarrow> f x s')"

definition liftM :: "'a result \<Rightarrow> 'a lesM" where
  "liftM r = (\<lambda>s. case r of Inl er \<Rightarrow> Inl er | Inr x \<Rightarrow> Inr (x, s))"

definition whenM :: "bool \<Rightarrow> unit lesM \<Rightarrow> unit lesM" where
  "whenM b m = (if b then m else retM ())"

type_synonym sle_ptr = "u256 option"

definition deref :: "sle_ptr \<Rightarrow> sle lesM" where
  "deref p = (\<lambda>s. case p of
      None \<Rightarrow> Inl NullPointer
    | Some i \<Rightarrow> (case map_of (mEntries s) i of None \<Rightarrow> Inl Dangling | Some e \<Rightarrow> Inr (mEntry e, s)))"

text \<open>Reading and writing a field through a pointer.\<close>

definition fieldM :: "(sle \<Rightarrow> 'a result) \<Rightarrow> sle_ptr \<Rightarrow> 'a lesM" where
  "fieldM get p = bindM (deref p) (\<lambda>e. liftM (get e))"

definition updateM :: "(sle \<Rightarrow> sle result) \<Rightarrow> sle_ptr \<Rightarrow> unit lesM" where
  "updateM upd p = (\<lambda>s. case p of
      None \<Rightarrow> Inl NullPointer
    | Some i \<Rightarrow> (case map_of (mEntries s) i of
          None \<Rightarrow> Inl Dangling
        | Some e \<Rightarrow> (case upd (mEntry e) of
              Inl er \<Rightarrow> Inl er
            | Inr x \<Rightarrow> Inr ((), s\<lparr>mEntries := smap_insert i (e\<lparr>mEntry := x\<rparr>) (mEntries s)\<rparr>))))"

subsection \<open>The set\<close>

definition LedgerEntrySet :: "ledger \<Rightarrow> u32 \<Rightarrow> bool \<Rightarrow> les" where
  "LedgerEntrySet l tep imm =
     \<lparr>mLedger = l, mEntries = [], mDeferredCredits = None, setTxID = 0, setLgrSeq = 0, setDelivered = None,
      mParams = tep, mSeq = 0, mImmutable = imm\<rparr>"

definition les_init :: "ledger \<Rightarrow> u256 \<Rightarrow> u32 \<Rightarrow> u32 \<Rightarrow> les \<Rightarrow> les" where
  "les_init l transactionID ledgerID params s =
     s\<lparr>mEntries := [], mDeferredCredits := map_option dc_clear (mDeferredCredits s), mLedger := l,
       setTxID := transactionID, setLgrSeq := ledgerID, setDelivered := None, mParams := params, mSeq := 0\<rparr>"

definition les_clear :: "les \<Rightarrow> les" where
  "les_clear s = s\<lparr>mEntries := [], mDeferredCredits := map_option dc_clear (mDeferredCredits s)\<rparr>"

definition duplicate :: "les \<Rightarrow> les" where
  "duplicate s = s\<lparr>mSeq := mSeq s + 1, mParams := tapNONE, mImmutable := False\<rparr>"

text \<open>
  The transaction identity and the delivered amount belong to the metadata set, whose swap exchanges
  only the list of affected nodes (which is not modelled).
\<close>

definition swapWith :: "les \<Rightarrow> les \<Rightarrow> les \<times> les" where
  "swapWith s t =
     (t\<lparr>setTxID := setTxID s, setLgrSeq := setLgrSeq s, setDelivered := setDelivered s, mImmutable := mImmutable s\<rparr>,
      s\<lparr>setTxID := setTxID t, setLgrSeq := setLgrSeq t, setDelivered := setDelivered t, mImmutable := mImmutable t\<rparr>)"

definition bumpSeq :: "les \<Rightarrow> les" where
  "bumpSeq s = s\<lparr>mSeq := mSeq s + 1\<rparr>"

definition setDeliveredAmount :: "stamount \<Rightarrow> les \<Rightarrow> les" where
  "setDeliveredAmount amt s = s\<lparr>setDelivered := Some amt\<rparr>"

definition enableDeferredCredits :: "bool \<Rightarrow> les \<Rightarrow> les" where
  "enableDeferredCredits enable s =
     (if \<not> enable then s\<lparr>mDeferredCredits := None\<rparr>
      else if mDeferredCredits s = None then s\<lparr>mDeferredCredits := Some []\<rparr> else s)"

definition areCreditsDeferred :: "les \<Rightarrow> bool" where
  "areCreditsDeferred s = (mDeferredCredits s \<noteq> None)"

definition adjustedBalance :: "Account \<Rightarrow> Account \<Rightarrow> stamount \<Rightarrow> stamount lesM" where
  "adjustedBalance main other amount = (\<lambda>s. case mDeferredCredits s of
      Some dc \<Rightarrow> liftM (dc_adjustedBalance main other amount dc) s
    | None \<Rightarrow> Inr (amount, s))"

definition cacheCredit :: "Account \<Rightarrow> Account \<Rightarrow> stamount \<Rightarrow> unit lesM" where
  "cacheCredit sender receiver amount = (\<lambda>s. case mDeferredCredits s of
      Some dc \<Rightarrow> (case credit sender receiver amount dc of
          Inl er \<Rightarrow> Inl er
        | Inr dc' \<Rightarrow> Inr ((), s\<lparr>mDeferredCredits := Some dc'\<rparr>))
    | None \<Rightarrow> Inr ((), s))"

subsection \<open>Entries\<close>

definition set_entry :: "u256 \<Rightarrow> les_entry \<Rightarrow> les \<Rightarrow> les" where
  "set_entry i e s = s\<lparr>mEntries := smap_insert i e (mEntries s)\<rparr>"

definition getEntry :: "u256 \<Rightarrow> (sle_ptr \<times> LedgerEntryAction) lesM" where
  "getEntry index = (\<lambda>s. case map_of (mEntries s) index of
      None \<Rightarrow> Inr ((None, taaNONE), s)
    | Some e \<Rightarrow>
        let s' = (if entrySeq e \<noteq> mSeq s then set_entry index (e\<lparr>entrySeq := mSeq s\<rparr>) s else s)
        in Inr ((Some index, mAction e), s'))"

definition entryCache_sle :: "sle \<Rightarrow> unit lesM" where
  "entryCache_sle x = (\<lambda>s. case map_of (mEntries s) (sleIndex x) of
      None \<Rightarrow> Inr ((), set_entry (sleIndex x) \<lparr>mEntry = x, mAction = taaCACHED, entrySeq = mSeq s\<rparr> s)
    | Some e \<Rightarrow>
        if mAction e = taaCACHED
        then Inr ((), set_entry (sleIndex x) (e\<lparr>mEntry := x, entrySeq := mSeq s\<rparr>) s)
        else Inl (RuntimeError ''Cache after modify/delete/create''))"

definition entryCache :: "u256 \<Rightarrow> sle_ptr lesM" where
  "entryCache index =
     (if index = 0 then retM None
      else bindM (getEntry index) (\<lambda>(p, action).
        case p of
          None \<Rightarrow> (\<lambda>s. case (if mImmutable s then getSLEi (mLedger s) index else getSLE (mLedger s) index) of
              None \<Rightarrow> Inr (None, s)
            | Some x \<Rightarrow> bindM (entryCache_sle x) (\<lambda>_. retM (Some (sleIndex x))) s)
        | Some i \<Rightarrow> retM (if action = taaDELETE then None else Some i)))"

definition entryCreate_sle :: "sle \<Rightarrow> unit lesM" where
  "entryCreate_sle x = (\<lambda>s. case map_of (mEntries s) (sleIndex x) of
      None \<Rightarrow> Inr ((), set_entry (sleIndex x) \<lparr>mEntry = x, mAction = taaCREATE, entrySeq = mSeq s\<rparr> s)
    | Some e \<Rightarrow>
        (case mAction e of
           taaDELETE \<Rightarrow> Inr ((), set_entry (sleIndex x) \<lparr>mEntry = x, mAction = taaMODIFY, entrySeq = mSeq s\<rparr> s)
         | taaMODIFY \<Rightarrow> Inl (RuntimeError ''Create after modify'')
         | taaCREATE \<Rightarrow> Inl (RuntimeError ''Create after create'')
         | taaCACHED \<Rightarrow> Inl (RuntimeError ''Create after cache'')
         | taaNONE \<Rightarrow> Inl (RuntimeError ''Unknown taa'')))"

definition entryCreate :: "LedgerEntryType \<Rightarrow> u256 \<Rightarrow> sle_ptr lesM" where
  "entryCreate letType index =
     bindM (liftM (STLedgerEntry letType index)) (\<lambda>x.
     bindM (entryCreate_sle x) (\<lambda>_. retM (Some (sleIndex x))))"

definition entryModify_sle :: "sle \<Rightarrow> unit lesM" where
  "entryModify_sle x = (\<lambda>s. case map_of (mEntries s) (sleIndex x) of
      None \<Rightarrow> Inr ((), set_entry (sleIndex x) \<lparr>mEntry = x, mAction = taaMODIFY, entrySeq = mSeq s\<rparr> s)
    | Some e \<Rightarrow>
        (case mAction e of
           taaCACHED \<Rightarrow> Inr ((), set_entry (sleIndex x) \<lparr>mEntry = x, mAction = taaMODIFY, entrySeq = mSeq s\<rparr> s)
         | taaCREATE \<Rightarrow> Inr ((), set_entry (sleIndex x) (e\<lparr>mEntry := x, entrySeq := mSeq s\<rparr>) s)
         | taaMODIFY \<Rightarrow> Inr ((), set_entry (sleIndex x) (e\<lparr>mEntry := x, entrySeq := mSeq s\<rparr>) s)
         | taaDELETE \<Rightarrow> Inl (RuntimeError ''Modify after delete'')
         | taaNONE \<Rightarrow> Inl (RuntimeError ''Unknown taa'')))"

definition entryModify :: "sle_ptr \<Rightarrow> unit lesM" where
  "entryModify p = bindM (deref p) entryModify_sle"

definition entryDelete_sle :: "sle \<Rightarrow> unit lesM" where
  "entryDelete_sle x = (\<lambda>s. case map_of (mEntries s) (sleIndex x) of
      None \<Rightarrow> Inr ((), set_entry (sleIndex x) \<lparr>mEntry = x, mAction = taaDELETE, entrySeq = mSeq s\<rparr> s)
    | Some e \<Rightarrow>
        (case mAction e of
           taaCACHED \<Rightarrow> Inr ((), set_entry (sleIndex x) \<lparr>mEntry = x, mAction = taaDELETE, entrySeq = mSeq s\<rparr> s)
         | taaMODIFY \<Rightarrow> Inr ((), set_entry (sleIndex x) \<lparr>mEntry = x, mAction = taaDELETE, entrySeq = mSeq s\<rparr> s)
         | taaCREATE \<Rightarrow> Inr ((), s\<lparr>mEntries := smap_erase (sleIndex x) (mEntries s)\<rparr>)
         | taaDELETE \<Rightarrow> Inr ((), s)
         | taaNONE \<Rightarrow> Inl (RuntimeError ''Unknown taa'')))"

definition entryDelete :: "sle_ptr \<Rightarrow> unit lesM" where
  "entryDelete p = bindM (deref p) entryDelete_sle"

text \<open>The loop that skips ledger keys the set has deleted; not ending is the value \<open>None\<close>.\<close>

partial_function (option) skip_deleted :: "les \<Rightarrow> u256 \<Rightarrow> u256 option" where
  "skip_deleted s ledgerNext =
     (let n = Ledger_getNextLedgerIndex (mLedger s) ledgerNext
      in case map_of (mEntries s) n of
           Some e \<Rightarrow> if mAction e = taaDELETE then skip_deleted s n else Some n
         | None \<Rightarrow> Some n)"

fun first_live :: "u256 \<Rightarrow> (u256, les_entry) smap \<Rightarrow> u256 option" where
  "first_live uHash [] = None"
| "first_live uHash ((k, e) # m) =
     (if uHash < k \<and> mAction e \<noteq> taaDELETE then Some k else first_live uHash m)"

definition getNextLedgerIndex :: "les \<Rightarrow> u256 \<Rightarrow> u256 option" where
  "getNextLedgerIndex s uHash =
     Option.bind (skip_deleted s uHash) (\<lambda>ledgerNext.
       Some (case first_live uHash (mEntries s) of
               Some k \<Rightarrow> if ledgerNext \<noteq> 0 \<and> ledgerNext < k then ledgerNext else k
             | None \<Rightarrow> ledgerNext))"

definition getNextLedgerIndex_end :: "les \<Rightarrow> u256 \<Rightarrow> u256 \<Rightarrow> u256 option" where
  "getNextLedgerIndex_end s uHash uEnd =
     Option.bind (getNextLedgerIndex s uHash) (\<lambda>next. Some (if next > uEnd then 0 else next))"

subsection \<open>Write-back\<close>

definition write_entry :: "u256 \<times> les_entry \<Rightarrow> ledger \<Rightarrow> ledger" where
  "write_entry it l =
     (case mAction (snd it) of
        taaNONE \<Rightarrow> l
      | taaCACHED \<Rightarrow> l
      | taaCREATE \<Rightarrow> snd (writeBack True (mEntry (snd it)) l)
      | taaMODIFY \<Rightarrow> snd (writeBack False (mEntry (snd it)) l)
      | taaDELETE \<Rightarrow> snd (delItem (fst it) l))"

definition txnWrite :: "les \<Rightarrow> les" where
  "txnWrite s = s\<lparr>mLedger := fold write_entry (mEntries s) (mLedger s)\<rparr>"

subsection \<open>The set as a view of the ledger\<close>

text \<open>
  What the set stands for: the ledger with the changes of the set applied. \<open>les_ok\<close> is the invariant
  that makes the write-back produce exactly this; \<open>pending\<close> are the cached entries that have been
  mutated but not yet reported as modified.
\<close>

definition view :: "les \<Rightarrow> u256 \<Rightarrow> sle option" where
  "view s i =
     (case map_of (mEntries s) i of
        Some e \<Rightarrow> if mAction e = taaDELETE then None else Some (mEntry e)
      | None \<Rightarrow> getSLE (mLedger s) i)"

definition ledger_ok :: "ledger \<Rightarrow> bool" where
  "ledger_ok l \<longleftrightarrow> smap_valid (mAccountStateMap l) \<and>
     (\<forall>i e. getSLE l i = Some e \<longrightarrow> sleIndex e = i \<and> i \<noteq> 0 \<and> entry_ok e)"

definition action_ok :: "ledger \<Rightarrow> u256 \<Rightarrow> les_entry \<Rightarrow> bool" where
  "action_ok l i e =
     (case mAction e of
        taaNONE \<Rightarrow> False
      | taaCREATE \<Rightarrow> getSLE l i = None
      | _ \<Rightarrow> getSLE l i \<noteq> None)"

definition les_typed :: "les \<Rightarrow> bool" where
  "les_typed s \<longleftrightarrow> ledger_ok (mLedger s) \<and> smap_valid (mEntries s) \<and>
     (\<forall>i e. map_of (mEntries s) i = Some e \<longrightarrow>
        sleIndex (mEntry e) = i \<and> i \<noteq> 0 \<and> entry_ok (mEntry e) \<and> action_ok (mLedger s) i e)"

definition loaded :: "les \<Rightarrow> u256 set" where
  "loaded s = {i. \<exists>e. map_of (mEntries s) i = Some e \<and> mAction e \<noteq> taaDELETE}"

definition pending :: "les \<Rightarrow> u256 set" where
  "pending s = {i. \<exists>e. map_of (mEntries s) i = Some e \<and> mAction e = taaCACHED \<and>
     getSLE (mLedger s) i \<noteq> Some (mEntry e)}"

definition les_ok :: "les \<Rightarrow> bool" where
  "les_ok s \<longleftrightarrow> les_typed s \<and> pending s = {}"

definition rest :: "les \<Rightarrow> les" where
  "rest s = s\<lparr>mEntries := []\<rparr>"

definition marked :: "les \<Rightarrow> u256 set" where
  "marked s = {i. \<exists>e. map_of (mEntries s) i = Some e \<and> mAction e \<in> {taaMODIFY, taaCREATE}}"

text \<open>
  A summary of a set for reasoning about operations: its view, keys that are surely loaded, keys that
  are surely marked as changed, the keys that may be pending, and everything but the entries.
\<close>

definition st :: "les \<Rightarrow> (u256 \<rightharpoonup> sle) \<Rightarrow> u256 set \<Rightarrow> u256 set \<Rightarrow> u256 set \<Rightarrow> les \<Rightarrow> bool" where
  "st s V L M P R \<longleftrightarrow>
     les_typed s \<and> view s = V \<and> L \<subseteq> loaded s \<and> M \<subseteq> marked s \<and> pending s \<subseteq> P \<and> rest s = R"

definition runs :: "'a lesM \<Rightarrow> les \<Rightarrow> ('a \<Rightarrow> les \<Rightarrow> bool) \<Rightarrow> bool" where
  "runs m s Q = (case m s of Inl _ \<Rightarrow> False | Inr (x, s') \<Rightarrow> Q x s')"

lemma runs_bind: "runs (bindM m f) s Q = runs m s (\<lambda>x s'. runs (f x) s' Q)"
  by (auto simp: runs_def bindM_def split: sum.splits)

lemma runs_ret [simp]: "runs (retM x) s Q = Q x s"
  by (simp add: runs_def retM_def)

lemma runs_lift [simp]: "runs (liftM r) s Q = (case r of Inl _ \<Rightarrow> False | Inr x \<Rightarrow> Q x s)"
  by (auto simp: runs_def liftM_def split: sum.splits)

lemma runs_mono: "runs m s Q \<Longrightarrow> (\<And>x s'. Q x s' \<Longrightarrow> Q' x s') \<Longrightarrow> runs m s Q'"
  by (auto simp: runs_def split: sum.splits)

lemma runsE: "runs m s Q \<Longrightarrow> (\<And>x s'. m s = Inr (x, s') \<Longrightarrow> Q x s' \<Longrightarrow> thesis) \<Longrightarrow> thesis"
  by (auto simp: runs_def split: sum.splits)

lemma runsI: "m s = Inr (x, s') \<Longrightarrow> Q x s' \<Longrightarrow> runs m s Q"
  by (simp add: runs_def)

lemma rest_simps [simp]:
  "mLedger (rest s) = mLedger s" "mDeferredCredits (rest s) = mDeferredCredits s" "mParams (rest s) = mParams s"
  "mImmutable (rest s) = mImmutable s" "mSeq (rest s) = mSeq s"
  "rest (s\<lparr>mEntries := m\<rparr>) = rest s"
  by (simp_all add: rest_def)

lemma stD:
  assumes "st s V L M P R"
  shows "mLedger s = mLedger R" "mDeferredCredits s = mDeferredCredits R" "mParams s = mParams R"
  using assms by (auto simp: st_def)

lemma les_ok_st: "les_ok s \<longleftrightarrow> st s (view s) {} {} {} (rest s)"
  by (auto simp: les_ok_def st_def)

lemma st_les_ok: "st s V L M {} R \<Longrightarrow> les_ok s \<and> view s = V \<and> rest s = R"
  by (auto simp: les_ok_def st_def)

lemma st_weaken: "st s V L M P R \<Longrightarrow> L' \<subseteq> L \<Longrightarrow> M' \<subseteq> M \<Longrightarrow> P \<subseteq> P' \<Longrightarrow> st s V L' M' P' R"
  by (auto simp: st_def)

lemma les_typedD:
  assumes "les_typed s"
  shows "smap_valid (mEntries s)" "ledger_ok (mLedger s)"
    "map_of (mEntries s) i = Some e \<Longrightarrow>
       sleIndex (mEntry e) = i \<and> i \<noteq> 0 \<and> entry_ok (mEntry e) \<and> action_ok (mLedger s) i e"
  using assms by (auto simp: les_typed_def)

lemma view_entry:
  assumes "les_typed s" "view s i = Some x"
  shows "sleIndex x = i" "i \<noteq> 0" "entry_ok x"
  using assms by (auto simp: view_def les_typed_def ledger_ok_def split: option.splits if_splits)

lemma st_view: "st s V L M P R \<Longrightarrow> V i = Some x \<Longrightarrow> sleIndex x = i \<and> i \<noteq> 0 \<and> entry_ok x"
  using view_entry [of s i x] by (auto simp: st_def)

text \<open>The effect of replacing the entry at a key, in terms of the summary.\<close>

lemma st_set_entry:
  assumes st: "st s V L M P R" and e: "sleIndex (mEntry e) = i" "i \<noteq> 0" "entry_ok (mEntry e)"
    "action_ok (mLedger s) i e"
  shows "st (set_entry i e s)
    (V(i := if mAction e = taaDELETE then None else Some (mEntry e)))
    (if mAction e = taaDELETE then L - {i} else insert i L)
    (if mAction e \<in> {taaMODIFY, taaCREATE} then insert i M else M - {i})
    (if mAction e = taaCACHED \<and> getSLE (mLedger s) i \<noteq> Some (mEntry e) then insert i P else P - {i}) R"
proof -
  have v: "smap_valid (mEntries s)" and t: "les_typed s" using st by (auto simp: st_def les_typed_def)
  have m: "map_of (mEntries (set_entry i e s)) = (map_of (mEntries s))(i \<mapsto> e)"
    "mLedger (set_entry i e s) = mLedger s" "smap_valid (mEntries (set_entry i e s))"
    "rest (set_entry i e s) = rest s"
    using std.lookup_insert [OF v] std.valid_insert [OF v] by (simp_all add: set_entry_def)
  have "les_typed (set_entry i e s)"
    using t e m unfolding les_typed_def by (auto simp del: fun_upd_apply) (auto split: if_splits)
  moreover have "view (set_entry i e s) = (view s)(i := if mAction e = taaDELETE then None else Some (mEntry e))"
    by (rule ext) (auto simp: view_def m split: option.split)
  moreover have "loaded (set_entry i e s) = (if mAction e = taaDELETE then loaded s - {i} else insert i (loaded s))"
    by (auto simp: loaded_def m)
  moreover have "marked (set_entry i e s) =
      (if mAction e \<in> {taaMODIFY, taaCREATE} then insert i (marked s) else marked s - {i})"
    by (auto simp: marked_def m)
  moreover have "pending (set_entry i e s) =
      (if mAction e = taaCACHED \<and> getSLE (mLedger s) i \<noteq> Some (mEntry e) then insert i (pending s) else pending s - {i})"
    by (auto simp: pending_def m)
  ultimately show ?thesis using st by (auto simp: st_def m)
qed

lemma st_erase_entry:
  assumes st: "st s V L M P R" and i: "getSLE (mLedger s) i = None"
  shows "st (s\<lparr>mEntries := smap_erase i (mEntries s)\<rparr>) (V(i := None)) (L - {i}) (M - {i}) (P - {i}) R"
proof -
  let ?s = "s\<lparr>mEntries := smap_erase i (mEntries s)\<rparr>"
  have v: "smap_valid (mEntries s)" and t: "les_typed s" using st by (auto simp: st_def les_typed_def)
  have m: "map_of (mEntries ?s) = (map_of (mEntries s))(i := None)" "smap_valid (mEntries ?s)"
    using std.lookup_erase [OF v] std.valid_erase [OF v] by simp_all
  have "les_typed ?s"
    using t m unfolding les_typed_def by (auto simp del: fun_upd_apply) (auto split: if_splits)
  moreover have "view ?s = (view s)(i := None)"
    by (rule ext) (auto simp: view_def smap_lookup_erase i split: option.split)
  moreover have "loaded ?s = loaded s - {i}" "pending ?s = pending s - {i}" "marked ?s = marked s - {i}"
    by (auto simp: loaded_def pending_def marked_def smap_lookup_erase)
  ultimately show ?thesis using st by (auto simp: st_def)
qed

lemma st_entry:
  assumes "st s V L M P R" "i \<in> L"
  obtains e where "map_of (mEntries s) i = Some e" "V i = Some (mEntry e)" "mAction e \<noteq> taaDELETE"
    "sleIndex (mEntry e) = i" "i \<noteq> 0" "entry_ok (mEntry e)" "action_ok (mLedger s) i e"
    "i \<in> M \<longrightarrow> mAction e \<noteq> taaCACHED"
proof -
  have t: "les_typed s" and L: "L \<subseteq> loaded s" "view s = V" "M \<subseteq> marked s" using assms by (auto simp: st_def)
  obtain e where e: "map_of (mEntries s) i = Some e" "mAction e \<noteq> taaDELETE"
    using assms(2) L(1) by (auto simp: loaded_def)
  have "V i = Some (mEntry e)" using e unfolding L(2)[symmetric] by (simp add: view_def)
  moreover have "i \<in> M \<longrightarrow> mAction e \<noteq> taaCACHED" using L(3) e by (auto simp: marked_def)
  ultimately show ?thesis using that e les_typedD(3) [OF t e(1)] by blast
qed

text \<open>The operations on entries, as rules for \<open>runs\<close>.\<close>

lemma runs_deref: "st s V L M P R \<Longrightarrow> i \<in> L \<Longrightarrow> V i = Some x \<Longrightarrow> Q x s \<Longrightarrow> runs (deref (Some i)) s Q"
  by (erule (1) st_entry) (simp add: runs_def deref_def)

lemma runs_field:
  "st s V L M P R \<Longrightarrow> i \<in> L \<Longrightarrow> V i = Some x \<Longrightarrow> get x = Inr v \<Longrightarrow> Q v s \<Longrightarrow> runs (fieldM get (Some i)) s Q"
  unfolding fieldM_def runs_bind by (erule (2) runs_deref) simp

lemma runs_update:
  assumes "st s V L M P R" "i \<in> L" "V i = Some x" "upd x = Inr x'" "sleIndex x' = i" "entry_ok x'"
    and Q: "\<And>s'. st s' (V(i \<mapsto> x')) L M (if i \<in> M then P else insert i P) R \<Longrightarrow> Q () s'"
  shows "runs (updateM upd (Some i)) s Q"
proof -
  obtain e where e: "map_of (mEntries s) i = Some e" "V i = Some (mEntry e)" "mAction e \<noteq> taaDELETE"
    "i \<noteq> 0" "action_ok (mLedger s) i e" "i \<in> M \<longrightarrow> mAction e \<noteq> taaCACHED"
    by (rule st_entry [OF assms(1,2)])
  let ?e = "e\<lparr>mEntry := x'\<rparr>"
  have ok: "action_ok (mLedger s) i ?e" using e(5) by (simp add: action_ok_def)
  have mk: "i \<in> M \<Longrightarrow> mAction e \<in> {taaMODIFY, taaCREATE}" using e(3,5,6) by (cases "mAction e") (auto simp: action_ok_def)
  have "st (set_entry i ?e s) (V(i \<mapsto> x')) (insert i L) (if mAction e \<in> {taaMODIFY, taaCREATE} then insert i M else M - {i})
      (if mAction e = taaCACHED \<and> getSLE (mLedger s) i \<noteq> Some x' then insert i P else P - {i}) R"
    using st_set_entry [OF assms(1), of ?e i] assms(2,5,6) e(3,4) ok by simp
  then have "st (set_entry i ?e s) (V(i \<mapsto> x')) L M (if i \<in> M then P else insert i P) R"
    by (rule st_weaken) (use e(6) mk in auto)
  then have "Q () (set_entry i ?e s)" by (rule Q)
  then show ?thesis using e(1,2) assms(3,4) by (simp add: runs_def updateM_def set_entry_def)
qed

lemma runs_cache:
  assumes "st s V L M P R"
    and Q: "\<And>s'. st s' V (if V i = None then L else insert i L) M P R \<Longrightarrow> Q (if V i = None then None else Some i) s'"
  shows "runs (entryCache i) s Q"
proof (cases "i = 0")
  case True
  then have "V i = None" using st_view [OF assms(1)] by (cases "V i") auto
  then show ?thesis using True Q [of s] assms(1) by (simp add: entryCache_def)
next
  case i: False
  have t: "les_typed s" and V: "view s = V" using assms(1) by (auto simp: st_def)
  show ?thesis
  proof (cases "map_of (mEntries s) i")
    case None
    then have V_i: "V i = getSLE (mLedger s) i" using V by (auto simp: view_def)
    show ?thesis
    proof (cases "V i")
      case None
      with V_i Q [of s] assms(1) i \<open>map_of (mEntries s) i = None\<close> show ?thesis
        by (simp add: entryCache_def getEntry_def runs_def bindM_def getSLE_def getSLEi_def)
    next
      case (Some x)
      then have x: "getSLE (mLedger s) i = Some x" "sleIndex x = i" "entry_ok x"
        using V_i st_view [OF assms(1)] by auto
      let ?e = "\<lparr>mEntry = x, mAction = taaCACHED, entrySeq = mSeq s\<rparr>"
      have "i \<notin> M" using None assms(1) by (auto simp: st_def marked_def)
      then have "st (set_entry i ?e s) V (insert i L) M P R"
        using st_weaken [OF st_set_entry [OF assms(1), of ?e i], of "insert i L" M P] x i Some
        by (auto simp: action_ok_def fun_upd_idem)
      then have "Q (Some i) (set_entry i ?e s)" using Q [of "set_entry i ?e s"] Some by simp
      then show ?thesis
        using i None x
        by (simp add: entryCache_def getEntry_def runs_def bindM_def getSLE_def getSLEi_def entryCache_sle_def retM_def)
    qed
  next
    case (Some e)
    note tp = les_typedD(3) [OF t Some]
    define e' s' where "e' = e\<lparr>entrySeq := mSeq s\<rparr>" and "s' = (if entrySeq e \<noteq> mSeq s then set_entry i e' s else s)"
    have V_i: "V i = (if mAction e = taaDELETE then None else Some (mEntry e))" using V Some by (auto simp: view_def)
    have L_i: "i \<in> loaded s \<longleftrightarrow> mAction e \<noteq> taaDELETE" "i \<in> marked s \<longleftrightarrow> mAction e \<in> {taaMODIFY, taaCREATE}"
        "i \<in> pending s \<longleftrightarrow> mAction e = taaCACHED \<and> getSLE (mLedger s) i \<noteq> Some (mEntry e)"
      using Some by (auto simp: loaded_def pending_def marked_def)
    have sel: "mEntry e' = mEntry e" "mAction e' = mAction e" "action_ok (mLedger s) i e'"
      using tp by (simp_all add: e'_def action_ok_def)
    have full: "st s V (loaded s) (marked s) (pending s) R" using assms(1) by (auto simp: st_def)
    have "st (set_entry i e' s) (V(i := V i)) (if mAction e = taaDELETE then loaded s - {i} else insert i (loaded s))
       (if i \<in> marked s then insert i (marked s) else marked s - {i})
       (if i \<in> pending s then insert i (pending s) else pending s - {i}) R"
      using st_set_entry [OF full, of e' i, unfolded sel(1,2)] tp sel(3) unfolding V_i L_i(2,3) by simp
    then have "st s' V (loaded s) (marked s) (pending s) R"
      using full L_i unfolding s'_def by (auto simp: insert_absorb split: if_splits)
    then have "st s' V (if V i = None then L else insert i L) M P R"
      by (rule st_weaken) (use assms(1) L_i(1) V_i in \<open>auto simp: st_def split: if_splits\<close>)
    then have "Q (if V i = None then None else Some i) s'" by (rule Q)
    then show ?thesis
      using i Some V_i
      by (auto simp: entryCache_def getEntry_def runs_def bindM_def retM_def Let_def s'_def e'_def split: if_splits)
  qed
qed

lemma runs_modify:
  assumes "st s V L M P R" "i \<in> L" and Q: "\<And>s'. st s' V L (insert i M) (P - {i}) R \<Longrightarrow> Q () s'"
  shows "runs (entryModify (Some i)) s Q"
proof -
  obtain e where e: "map_of (mEntries s) i = Some e" "V i = Some (mEntry e)" "mAction e \<noteq> taaDELETE"
    "sleIndex (mEntry e) = i" "i \<noteq> 0" "entry_ok (mEntry e)" "action_ok (mLedger s) i e"
    by (rule st_entry [OF assms(1,2)])
  define a where "a = (if mAction e = taaCACHED then taaMODIFY else mAction e)"
  let ?e = "\<lparr>mEntry = mEntry e, mAction = a, entrySeq = mSeq s\<rparr>"
  have a: "a \<noteq> taaDELETE" "a \<noteq> taaCACHED" "a \<in> {taaMODIFY, taaCREATE}" "action_ok (mLedger s) i ?e"
    using e(3,7) by (auto simp: a_def action_ok_def split: LedgerEntryAction.splits)
  have "st (set_entry i ?e s) V L (insert i M) (P - {i}) R"
    using st_set_entry [OF assms(1), of ?e i] e a assms(2) by (simp add: insert_absorb fun_upd_idem)
  then have "Q () (set_entry i ?e s)" by (rule Q)
  moreover have "entryModify_sle (mEntry e) s = Inr ((), set_entry i ?e s)"
    using e by (cases e) (auto simp: entryModify_sle_def a_def action_ok_def split: LedgerEntryAction.splits)
  ultimately have "runs (entryModify_sle (mEntry e)) s Q" by (simp add: runs_def)
  then show ?thesis unfolding entryModify_def runs_bind by (rule runs_deref [OF assms(1,2) e(2)])
qed

lemma runs_delete:
  assumes "st s V L M P R" "i \<in> L" and Q: "\<And>s'. st s' (V(i := None)) (L - {i}) (M - {i}) (P - {i}) R \<Longrightarrow> Q () s'"
  shows "runs (entryDelete (Some i)) s Q"
proof -
  obtain e where e: "map_of (mEntries s) i = Some e" "V i = Some (mEntry e)" "mAction e \<noteq> taaDELETE"
    "sleIndex (mEntry e) = i" "i \<noteq> 0" "entry_ok (mEntry e)" "action_ok (mLedger s) i e"
    by (rule st_entry [OF assms(1,2)])
  let ?e = "\<lparr>mEntry = mEntry e, mAction = taaDELETE, entrySeq = mSeq s\<rparr>"
  have "runs (entryDelete_sle (mEntry e)) s Q"
  proof (cases "mAction e = taaCREATE")
    case True
    then have "getSLE (mLedger s) i = None" using e(7) by (simp add: action_ok_def)
    from Q [OF st_erase_entry [OF assms(1) this]] show ?thesis
      using e True by (simp add: runs_def entryDelete_sle_def)
  next
    case False
    then have "action_ok (mLedger s) i ?e"
      using e(3,7) by (auto simp: action_ok_def split: LedgerEntryAction.splits)
    then have "st (set_entry i ?e s) (V(i := None)) (L - {i}) (M - {i}) (P - {i}) R"
      using st_set_entry [OF assms(1), of ?e i] e by simp
    from Q [OF this] show ?thesis
      using e False by (cases "mAction e") (auto simp: runs_def entryDelete_sle_def action_ok_def)
  qed
  then show ?thesis unfolding entryDelete_def runs_bind by (rule runs_deref [OF assms(1,2) e(2)])
qed

lemma runs_create:
  assumes "st s V L M P R" "V i = None" "i \<noteq> 0" "STLedgerEntry t i = Inr x"
    and Q: "\<And>s'. st s' (V(i \<mapsto> x)) (insert i L) (insert i M) P R \<Longrightarrow> Q (Some i) s'"
  shows "runs (entryCreate t i) s Q"
proof -
  obtain es where es: "findByType t = Some es" using assms(4) by (cases "findByType t") (auto simp: STLedgerEntry_def)
  have x: "sleIndex x = i" "entry_ok x" using STLedgerEntry_spec [OF es, of i] assms(4) by auto
  have tp: "les_typed s" and V: "view s = V" "pending s \<subseteq> P" using assms(1) by (auto simp: st_def)
  define a where "a = (if map_of (mEntries s) i = None then taaCREATE else taaMODIFY)"
  let ?e = "\<lparr>mEntry = x, mAction = a, entrySeq = mSeq s\<rparr>"
  have del: "mAction e = taaDELETE" if "map_of (mEntries s) i = Some e" for e
    using that assms(2) V by (auto simp: view_def split: if_splits)
  have ok: "action_ok (mLedger s) i ?e"
    using assms(2) V(1) del les_typedD(3) [OF tp, of i "the (map_of (mEntries s) i)"]
    by (cases "map_of (mEntries s) i") (auto simp: view_def action_ok_def a_def)
  have "st (set_entry i ?e s) (V(i \<mapsto> x)) (insert i L) (insert i M) P R"
    using st_weaken [OF st_set_entry [OF assms(1), of ?e i], of "insert i L" "insert i M" P] x assms(3) ok
    by (auto simp: a_def split: if_splits)
  then have "Q (Some i) (set_entry i ?e s)" by (rule Q)
  moreover have "entryCreate_sle x s = Inr ((), set_entry i ?e s)"
    using x del by (cases "map_of (mEntries s) i") (auto simp: entryCreate_sle_def a_def)
  ultimately show ?thesis using x assms(4) by (simp add: entryCreate_def runs_bind) (simp add: runs_def)
qed

lemma runs_put:
  assumes "st s V L M P R" "i \<in> L" "V i = Some x" "hasField f x" "stype v = fieldType f"
    and Q: "\<And>s'. st s' (V(i \<mapsto> put f v x)) L M (if i \<in> M then P else insert i P) R \<Longrightarrow> Q () s'"
  shows "runs (updateM (setField f v) (Some i)) s Q"
proof -
  have x: "sleIndex x = i" "entry_ok x" using st_view [OF assms(1,3)] by auto
  then have "setField f v x = Inr (put f v x)" "sleIndex (put f v x) = i" "entry_ok (put f v x)"
    using assms(4,5) by (simp_all add: setField_put entry_ok_put)
  then show ?thesis using assms(1-3) Q by (auto intro: runs_update)
qed

text \<open>With nothing pending: a change that is reported, and a change to an entry already marked.\<close>

lemma runs_put_modify:
  assumes "st s V L M {} R" "i \<in> L" "V i = Some x" "hasField f x" "stype v = fieldType f"
    and Q: "\<And>s'. st s' (V(i \<mapsto> put f v x)) L (insert i M) {} R \<Longrightarrow> Q () s'"
  shows "runs (updateM (setField f v) (Some i)) s (\<lambda>_ s'. runs (entryModify (Some i)) s' Q)"
proof (rule runs_put [OF assms(1-5)])
  fix s' assume "st s' (V(i \<mapsto> put f v x)) L M (if i \<in> M then {} else {i}) R"
  then show "runs (entryModify (Some i)) s' Q"
    by (rule runs_modify [OF _ assms(2)]) (use Q in \<open>auto split: if_splits\<close>)
qed

lemma runs_put_marked:
  assumes "st s V L M P R" "i \<in> L" "i \<in> M" "V i = Some x" "hasField f x" "stype v = fieldType f"
    and Q: "\<And>s'. st s' (V(i \<mapsto> put f v x)) L M P R \<Longrightarrow> Q () s'"
  shows "runs (updateM (setField f v) (Some i)) s Q"
  by (rule runs_put [OF assms(1,2,4,5,6)]) (use Q assms(3) in simp)

lemma runs_update_marked:
  assumes "st s V L M P R" "i \<in> L" "i \<in> M" "V i = Some x" "upd x = Inr x'" "sleIndex x' = i" "entry_ok x'"
    and Q: "\<And>s'. st s' (V(i \<mapsto> x')) L M P R \<Longrightarrow> Q () s'"
  shows "runs (updateM upd (Some i)) s Q"
  by (rule runs_update, rule assms(1), rule assms(2), rule assms(4), rule assms(5), rule assms(6), rule assms(7))
    (use Q assms(3) in simp)

lemma runs_modify_clean:
  assumes "st s V L M {} R" "i \<in> L" and Q: "\<And>s'. st s' V L (insert i M) {} R \<Longrightarrow> Q () s'"
  shows "runs (entryModify (Some i)) s Q"
  by (rule runs_modify [OF assms(1,2)]) (use Q in simp)

subsection \<open>Write-back\<close>

lemma getSLE_write:
  assumes "ledger_ok l" "sleIndex (mEntry e) = k" "k \<noteq> 0" "entry_ok (mEntry e)" "action_ok l k e"
    "mAction e = taaCACHED \<longrightarrow> getSLE l k = Some (mEntry e)"
  shows "getSLE (write_entry (k, e) l) = (getSLE l)(k := if mAction e = taaDELETE then None else Some (mEntry e))"
    and "ledger_ok (write_entry (k, e) l)"
proof -
  have v: "smap_valid (mAccountStateMap l)" using assms(1) by (simp add: ledger_ok_def)
  show g: "getSLE (write_entry (k, e) l) = (getSLE l)(k := if mAction e = taaDELETE then None else Some (mEntry e))"
    using assms(2-) std.lookup_insert [OF v] std.lookup_erase [OF v]
    by (rule_tac ext) (auto simp: write_entry_def writeBack_def delItem_def getSLE_def action_ok_def Let_def
        split: LedgerEntryAction.splits)
  have "smap_valid (mAccountStateMap (write_entry (k, e) l))"
    using v std.valid_insert [OF v] std.valid_erase [OF v]
    by (auto simp: write_entry_def writeBack_def delItem_def Let_def split: LedgerEntryAction.splits)
  then show "ledger_ok (write_entry (k, e) l)"
    using assms(1-4) unfolding ledger_ok_def g by auto
qed

lemma fold_write:
  assumes "ledger_ok l" "smap_valid m"
    and "\<And>k e. map_of m k = Some e \<Longrightarrow> sleIndex (mEntry e) = k \<and> k \<noteq> 0 \<and> entry_ok (mEntry e) \<and>
       action_ok l k e \<and> (mAction e = taaCACHED \<longrightarrow> getSLE l k = Some (mEntry e))"
  shows "ledger_ok (fold write_entry m l) \<and> getSLE (fold write_entry m l) i =
    (case map_of m i of Some e \<Rightarrow> if mAction e = taaDELETE then None else Some (mEntry e) | None \<Rightarrow> getSLE l i)"
  using assms
proof (induction m arbitrary: l)
  case (Cons ke m)
  obtain k e where ke: "ke = (k, e)" by (cases ke)
  have v: "smap_valid m" and above: "map_of m j = Some e' \<Longrightarrow> j \<noteq> k" for j e'
    using Cons.prems(2) ke by (auto simp: smap_valid_Cons dest!: map_of_SomeD)
  have k: "sleIndex (mEntry e) = k \<and> k \<noteq> 0 \<and> entry_ok (mEntry e) \<and>
       action_ok l k e \<and> (mAction e = taaCACHED \<longrightarrow> getSLE l k = Some (mEntry e))"
    using Cons.prems(3) [of k e] ke by simp
  note w = getSLE_write [OF Cons.prems(1), of e k]
  have "ledger_ok (fold write_entry m (write_entry (k, e) l)) \<and> getSLE (fold write_entry m (write_entry (k, e) l)) i =
    (case map_of m i of Some e \<Rightarrow> if mAction e = taaDELETE then None else Some (mEntry e)
     | None \<Rightarrow> getSLE (write_entry (k, e) l) i)"
  proof (rule Cons.IH [OF _ v])
    show "ledger_ok (write_entry (k, e) l)" using w k by simp
    fix j e' assume j: "map_of m j = Some e'"
    with above have "j \<noteq> k" by blast
    with j Cons.prems(3) [of j e'] ke w k
    show "sleIndex (mEntry e') = j \<and> j \<noteq> 0 \<and> entry_ok (mEntry e') \<and> action_ok (write_entry (k, e) l) j e' \<and>
        (mAction e' = taaCACHED \<longrightarrow> getSLE (write_entry (k, e) l) j = Some (mEntry e'))"
      by (auto simp: action_ok_def split: LedgerEntryAction.splits)
  qed
  then show ?case using ke w k above by (auto split: option.splits)
qed simp

lemma txnWrite_view:
  assumes "les_ok s"
  shows "getSLE (mLedger (txnWrite s)) = view s" "ledger_ok (mLedger (txnWrite s))"
proof -
  have t: "les_typed s" and p: "pending s = {}" using assms by (auto simp: les_ok_def)
  have e: "sleIndex (mEntry e) = k \<and> k \<noteq> 0 \<and> entry_ok (mEntry e) \<and>
       action_ok (mLedger s) k e \<and> (mAction e = taaCACHED \<longrightarrow> getSLE (mLedger s) k = Some (mEntry e))"
    if "map_of (mEntries s) k = Some e" for k e
    using les_typedD(3) [OF t that] that p by (auto simp: pending_def)
  note f = fold_write [OF les_typedD(2,1) [OF t] e]
  show "getSLE (mLedger (txnWrite s)) = view s" using f by (auto simp: txnWrite_def view_def)
  show "ledger_ok (mLedger (txnWrite s))" using f by (simp add: txnWrite_def)
qed

lemma les_ok_init: "ledger_ok l \<Longrightarrow> les_ok (les_init l i n p s)" "ledger_ok l \<Longrightarrow> les_ok (LedgerEntrySet l t b)"
  by (simp_all add: les_ok_def les_typed_def pending_def les_init_def LedgerEntrySet_def smap_valid_def)

lemma view_init: "view (les_init l i n p s) = getSLE l" "view (LedgerEntrySet l t b) = getSLE l"
  by (auto simp: view_def les_init_def LedgerEntrySet_def)

subsection \<open>The next key\<close>

lemma first_live_spec:
  "smap_valid m \<Longrightarrow>
    (case first_live h m of
       None \<Rightarrow> \<forall>j e. h < j \<longrightarrow> map_of m j = Some e \<longrightarrow> mAction e = taaDELETE
     | Some k \<Rightarrow> h < k \<and> (\<exists>e. map_of m k = Some e \<and> mAction e \<noteq> taaDELETE) \<and>
         (\<forall>j e. h < j \<longrightarrow> j < k \<longrightarrow> map_of m j = Some e \<longrightarrow> mAction e = taaDELETE))"
proof (induction m)
  case (Cons x m)
  obtain k' e' where x: "x = (k', e')" by (cases x)
  have IH: "case first_live h m of None \<Rightarrow> \<forall>j e. h < j \<longrightarrow> map_of m j = Some e \<longrightarrow> mAction e = taaDELETE
     | Some k \<Rightarrow> h < k \<and> (\<exists>e. map_of m k = Some e \<and> mAction e \<noteq> taaDELETE) \<and>
         (\<forall>j e. h < j \<longrightarrow> j < k \<longrightarrow> map_of m j = Some e \<longrightarrow> mAction e = taaDELETE)"
    and above: "\<forall>j \<in> fst ` set m. k' < j" using Cons x by (auto simp: smap_valid_Cons)
  have up: "k' < j" if "map_of m j = Some e" for j e using that above map_of_SomeD [OF that] by fastforce
  show ?case
  proof (cases "h < k' \<and> mAction e' \<noteq> taaDELETE")
    case True
    then show ?thesis using x up by (auto dest: less_asym)
  next
    case False
    then have "first_live h (x # m) = first_live h m" using x by auto
    then show ?thesis using IH x False up by (cases "first_live h m") auto
  qed
qed simp

lemma skip_deleted_spec:
  assumes "les_typed s"
  shows "\<exists>n. skip_deleted s h = Some n \<and>
    (if n = 0 then \<forall>j. h < j \<longrightarrow> getSLE (mLedger s) j \<noteq> None \<longrightarrow> view s j = None
     else h < n \<and> view s n \<noteq> None \<and> (\<forall>j. h < j \<longrightarrow> j < n \<longrightarrow> getSLE (mLedger s) j \<noteq> None \<longrightarrow> view s j = None))"
proof (induction "2 ^ 256 - unat h" arbitrary: h rule: less_induct)
  case less
  let ?l = "mLedger s"
  define n where "n = Ledger_getNextLedgerIndex ?l h"
  have lo: "ledger_ok ?l" "smap_valid (mAccountStateMap ?l)" using les_typedD(2) [OF assms] by (auto simp: ledger_ok_def)
  have no0: "map_of (mEntries s) 0 = None" using les_typedD(3) [OF assms, of 0] by (cases "map_of (mEntries s) 0") auto
  have rec: "skip_deleted s h = (case map_of (mEntries s) n of
      Some e \<Rightarrow> if mAction e = taaDELETE then skip_deleted s n else Some n | None \<Rightarrow> Some n)"
    unfolding n_def by (subst skip_deleted.simps) (simp add: Let_def)
  show ?case
  proof (cases "smap_upper_bound h (mAccountStateMap ?l)")
    case None
    then have "n = 0" by (simp add: n_def Ledger_getNextLedgerIndex_def)
    moreover have "\<forall>j. h < j \<longrightarrow> getSLE ?l j = None"
      using std.upper_bound_None_iff [OF lo(2), of h] None by (simp add: getSLE_def)
    ultimately have "n = 0" "\<forall>j. h < j \<longrightarrow> getSLE ?l j = None" by blast+
    with rec no0 show ?thesis by auto
  next
    case (Some kx)
    obtain k x where kx: "kx = (k, x)" by (cases kx)
    have nk: "n = k" using Some kx by (simp add: n_def Ledger_getNextLedgerIndex_def)
    have k: "h < n" "getSLE ?l n = Some x" "\<forall>j. h < j \<longrightarrow> j < n \<longrightarrow> getSLE ?l j = None"
      using std.upper_bound_Some [OF lo(2) Some [unfolded kx]] nk by (auto simp: getSLE_def)
    have n0: "n \<noteq> 0" using k(1) by auto
    show ?thesis
    proof (cases "\<exists>e. map_of (mEntries s) n = Some e \<and> mAction e = taaDELETE")
      case True
      have "unat n < 2 ^ LENGTH(256)" by (rule unsigned_less)
      then have "2 ^ 256 - unat n < 2 ^ 256 - unat h"
        using k(1) by (simp add: word_less_nat_alt)
      from less [OF this] obtain m where m: "skip_deleted s n = Some m"
        "if m = 0 then \<forall>j. n < j \<longrightarrow> getSLE ?l j \<noteq> None \<longrightarrow> view s j = None
         else n < m \<and> view s m \<noteq> None \<and> (\<forall>j. n < j \<longrightarrow> j < m \<longrightarrow> getSLE ?l j \<noteq> None \<longrightarrow> view s j = None)"
        by blast
      have vn: "view s n = None" using True by (auto simp: view_def)
      have gap: "view s j = None" if "h < j" "getSLE ?l j \<noteq> None" "j \<le> n" for j
        using that k(3) vn by (cases "j = n") auto
      have "skip_deleted s h = Some m" using rec True m(1) by auto
      moreover have "view s j = None" if "h < j" "getSLE ?l j \<noteq> None" "m = 0 \<or> j < m" for j
      proof (cases "j \<le> n")
        case True
        with that gap show ?thesis by blast
      next
        case False
        with that m(2) show ?thesis by (auto split: if_splits)
      qed
      moreover have "m \<noteq> 0 \<Longrightarrow> h < m \<and> view s m \<noteq> None" using m(2) k(1) by (auto split: if_splits)
      ultimately have "skip_deleted s h = Some m \<and> (if m = 0 then \<forall>j. h < j \<longrightarrow> getSLE ?l j \<noteq> None \<longrightarrow> view s j = None
         else h < m \<and> view s m \<noteq> None \<and> (\<forall>j. h < j \<longrightarrow> j < m \<longrightarrow> getSLE ?l j \<noteq> None \<longrightarrow> view s j = None))"
        by (simp split: if_splits)
      then show ?thesis by blast
    next
      case False
      then have "skip_deleted s h = Some n" "view s n \<noteq> None"
        using rec k(2) by (auto simp: view_def split: option.splits)
      with k n0 show ?thesis by auto
    qed
  qed
qed

lemma next_index_spec:
  assumes "les_typed s"
  shows "\<exists>n. getNextLedgerIndex s h = Some n \<and>
    (if n = 0 then \<forall>j. h < j \<longrightarrow> view s j = None
     else h < n \<and> view s n \<noteq> None \<and> (\<forall>j. h < j \<longrightarrow> j < n \<longrightarrow> view s j = None))"
proof -
  obtain n where n: "skip_deleted s h = Some n"
    "if n = 0 then \<forall>j. h < j \<longrightarrow> getSLE (mLedger s) j \<noteq> None \<longrightarrow> view s j = None
     else h < n \<and> view s n \<noteq> None \<and> (\<forall>j. h < j \<longrightarrow> j < n \<longrightarrow> getSLE (mLedger s) j \<noteq> None \<longrightarrow> view s j = None)"
    using skip_deleted_spec [OF assms] by blast
  have live: "getSLE (mLedger s) j \<noteq> None \<or> (\<exists>e. map_of (mEntries s) j = Some e \<and> mAction e \<noteq> taaDELETE)"
    if "view s j \<noteq> None" for j
    using that by (auto simp: view_def split: option.splits if_splits)
  have lv: "view s k \<noteq> None" if "map_of (mEntries s) k = Some e" "mAction e \<noteq> taaDELETE" for k e
    using that by (simp add: view_def)
  note f = first_live_spec [OF les_typedD(1) [OF assms], of h]
  show ?thesis
  proof (cases "first_live h (mEntries s)")
    case None
    then have "getNextLedgerIndex s h = Some n" using n(1) by (simp add: getNextLedgerIndex_def)
    moreover have up: "view s j = None" if "h < j" "getSLE (mLedger s) j \<noteq> None \<longrightarrow> view s j = None" for j
      using live [of j] that f None by (cases "view s j") auto
    have "if n = 0 then \<forall>j. h < j \<longrightarrow> view s j = None
       else h < n \<and> view s n \<noteq> None \<and> (\<forall>j. h < j \<longrightarrow> j < n \<longrightarrow> view s j = None)"
    proof (cases "n = 0")
      case True
      with n(2) have "\<forall>j. h < j \<longrightarrow> getSLE (mLedger s) j \<noteq> None \<longrightarrow> view s j = None" by (simp only: if_True refl)
      then have "\<forall>j. h < j \<longrightarrow> view s j = None" using up by blast
      with True show ?thesis by simp
    next
      case False
      from n(2)[unfolded if_not_P [OF False]] have c: "h < n \<and> view s n \<noteq> None \<and>
        (\<forall>j. h < j \<longrightarrow> j < n \<longrightarrow> getSLE (mLedger s) j \<noteq> None \<longrightarrow> view s j = None)" .
      then have "\<forall>j. h < j \<longrightarrow> j < n \<longrightarrow> view s j = None" using up by blast
      with c False show ?thesis by simp
    qed
    ultimately show ?thesis by blast
  next
    case (Some k)
    define r where "r = (if n \<noteq> 0 \<and> n < k then n else k)"
    have k: "h < k" "view s k \<noteq> None" "\<And>j e. h < j \<Longrightarrow> j < k \<Longrightarrow> map_of (mEntries s) j = Some e \<Longrightarrow> mAction e = taaDELETE"
      using f Some lv by auto
    have "getNextLedgerIndex s h = Some r" using n(1) Some by (simp add: getNextLedgerIndex_def r_def)
    moreover have "h < r" "view s r \<noteq> None" using n(2) k by (auto simp: r_def)
    moreover have "view s j = None" if "h < j" "j < r" for j
    proof (rule ccontr)
      assume "view s j \<noteq> None"
      then have "getSLE (mLedger s) j \<noteq> None" using live [of j] k(3) [of j] that by (auto simp: r_def split: if_splits)
      with n(2) that \<open>view s j \<noteq> None\<close> show False by (auto simp: r_def split: if_splits)
    qed
    moreover have "r \<noteq> 0" using \<open>h < r\<close> by auto
    ultimately show ?thesis by auto
  qed
qed

text \<open>A set on an empty ledger in which one directory page has been created.\<close>

definition empty_ledger :: ledger where
  "empty_ledger = \<lparr>mAccountStateMap = [], mTransactionMap = [], mLedgerSeq = 1, mTotCoins = 0, mBaseFee = 10,
     mReferenceFeeUnits = 10, mReserveBase = 20, mReserveIncrement = 5\<rparr>"

lemma empty_ledger_ok: "ledger_ok empty_ledger" "getSLE empty_ledger = Map.empty"
  by (auto simp: ledger_ok_def empty_ledger_def getSLE_def smap_valid_def)

lemma page_set:
  "\<exists>s x. les_ok s \<and> STLedgerEntry ltDIR_NODE 7 = Inr x \<and> view s = [7 \<mapsto> x]"
proof -
  obtain es where es: "findByType ltDIR_NODE = Some es" by (auto simp: findByType_def)
  obtain x where x: "STLedgerEntry ltDIR_NODE 7 = Inr x" using STLedgerEntry_spec(1) [OF es] by blast
  let ?s = "LedgerEntrySet empty_ledger tapNONE False"
  have "st ?s Map.empty {} {} {} (rest ?s)"
    using les_ok_init(2) [OF empty_ledger_ok(1), of tapNONE False]
    by (simp add: les_ok_st view_init empty_ledger_ok)
  then have "runs (entryCreate ltDIR_NODE 7) ?s (\<lambda>_ s'. st s' [7 \<mapsto> x] {7} {7} {} (rest ?s))"
    by (rule runs_create [OF _ _ _ x]) simp_all
  then show ?thesis using x by (auto simp: runs_def dest: st_les_ok split: sum.splits)
qed

text \<open>C20: writing a well-formed set back makes the ledger hold exactly the view of the set, entry by
  entry: created and modified entries with their current fields, deleted ones gone, the rest as
  before.\<close>

theorem write_back_commits_view:
  assumes "les_ok s"
  shows "getSLE (mLedger (txnWrite s)) i = view s i \<and> ledger_ok (mLedger (txnWrite s))"
  using txnWrite_view [OF assms] by simp

text \<open>C36: the successor search returns on every well-formed set, and gives the least key above the
  argument that exists in the view, or zero when there is none.\<close>

theorem next_index_is_least_live:
  assumes "les_typed s"
  shows "\<exists>n. getNextLedgerIndex s h = Some n \<and>
    (if n = 0 then \<forall>j. h < j \<longrightarrow> view s j = None
     else h < n \<and> view s n \<noteq> None \<and> (\<forall>j. h < j \<longrightarrow> j < n \<longrightarrow> view s j = None))"
  by (rule next_index_spec [OF assms])

theorem write_back_commits_view_witness:
  "\<exists>s x. les_ok s \<and> getSLE (mLedger (txnWrite s)) 7 = Some x \<and> sleType x = ltDIR_NODE"
proof -
  obtain s x where s: "les_ok s" "STLedgerEntry ltDIR_NODE 7 = Inr x" "view s = [7 \<mapsto> x]" using page_set by blast
  obtain es where es: "findByType ltDIR_NODE = Some es" by (auto simp: findByType_def)
  have "sleType x = ltDIR_NODE" using STLedgerEntry_spec(1) [OF es, of 7] s(2) by auto
  with s write_back_commits_view [OF s(1), of 7] show ?thesis by auto
qed

theorem next_index_is_least_live_witness:
  "\<exists>s. les_ok s \<and> getNextLedgerIndex s 3 = Some 7"
proof -
  obtain s x where s: "les_ok s" "view s = [7 \<mapsto> x]" using page_set by blast
  then have "les_typed s" by (simp add: les_ok_def)
  from next_index_is_least_live [OF this, of 3] obtain n where n: "getNextLedgerIndex s 3 = Some n"
    "if n = 0 then \<forall>j. 3 < j \<longrightarrow> view s j = None
     else 3 < n \<and> view s n \<noteq> None \<and> (\<forall>j. 3 < j \<longrightarrow> j < n \<longrightarrow> view s j = None)" by blast
  have "view s 7 \<noteq> None" "(3 :: u256) < 7" using s by simp_all
  with n(2) have "view s n \<noteq> None" by (auto split: if_splits)
  with s have "n = 7" by (simp split: if_splits)
  with n(1) s(1) show ?thesis by blast
qed

end
