(* ===== verification/Directory.thy ===== *)
theory Directory
  imports EntrySet
begin

text \<open>
  Directories and owner counts, from \<open>ledger/LedgerEntrySet.cpp\<close>. A directory is a doubly linked list
  of pages of at most 32 keys; page 0 is the root, whose previous link names the last page.
\<close>

definition DIR_NODE_MAX :: nat where "DIR_NODE_MAX = 32"

lemma bindM_cong [fundef_cong]:
  "m s = m' s' \<Longrightarrow> (\<And>x t. m' s' = Inr (x, t) \<Longrightarrow> f x t = g x t) \<Longrightarrow> bindM m f s = bindM m' g s'"
  by (auto simp: bindM_def split: sum.splits)

lemma next_page_closer: "n < (20 :: u64) \<Longrightarrow> 20 - unat (n + 1) < 20 - unat n"
  by (simp add: word_less_nat_alt unat_word_ariths)

abbreviation dirNode :: "app \<Rightarrow> u256 \<Rightarrow> u64 \<Rightarrow> u256" where
  "dirNode A r n \<equiv> getDirNodeIndex (app_sha512 A) r n"

partial_function (option) dirCount_loop ::
    "app \<Rightarrow> u256 \<Rightarrow> u64 \<Rightarrow> u32 \<Rightarrow> les \<Rightarrow> (((TER \<times> u32) \<times> les) result) option" where
  "dirCount_loop A uRootIndex uNodeDir uCount s =
     (case entryCache (dirNode A uRootIndex uNodeDir) s of
        Inl er \<Rightarrow> Some (Inl er)
      | Inr (None, s') \<Rightarrow>
          Some (Inr ((if uNodeDir \<noteq> 0 then tefBAD_LEDGER else tesSUCCESS, uCount), s'))
      | Inr (Some i, s') \<Rightarrow>
          (case bindM (fieldM (getFieldV256 sfIndexes) (Some i)) (\<lambda>sv.
                bindM (fieldM (getFieldU64 sfIndexNext) (Some i)) (\<lambda>nxt. retM (sv, nxt))) s' of
             Inl er \<Rightarrow> Some (Inl er)
           | Inr ((sv, nxt), s'') \<Rightarrow>
               let uCount' = uCount + of_nat (length sv)
               in if nxt = 0 then Some (Inr ((tesSUCCESS, uCount'), s''))
                  else dirCount_loop A uRootIndex nxt uCount' s''))"

definition dirCount :: "app \<Rightarrow> u256 \<Rightarrow> les \<Rightarrow> (((TER \<times> u32) \<times> les) result) option" where
  "dirCount A uRootIndex s = dirCount_loop A uRootIndex 0 0 s"

definition dirIsEmpty :: "app \<Rightarrow> u256 \<Rightarrow> bool lesM" where
  "dirIsEmpty A uRootIndex =
     bindM (entryCache (dirNode A uRootIndex 0)) (\<lambda>sleNode.
       if sleNode = None then retM True
       else bindM (fieldM (getFieldV256 sfIndexes) sleNode) (\<lambda>sv.
         if sv \<noteq> [] then retM False
         else bindM (fieldM (getFieldU64 sfIndexNext) sleNode) (\<lambda>nxt. retM (nxt = 0))))"

text \<open>
  \<open>dirAdd\<close>: the page to append to, its number and its keys so far, or \<open>None\<close> when the page numbers
  are exhausted; then the append. An existing directory is continued on its last page, or on a new
  page when that is full.
\<close>

definition dirAdd_last ::
    "app \<Rightarrow> u256 \<Rightarrow> (sle \<Rightarrow> sle result) \<Rightarrow> sle_ptr \<Rightarrow> u64 \<Rightarrow> sle_ptr \<Rightarrow> (sle_ptr \<times> u64 \<times> u256 list) option lesM" where
  "dirAdd_last A uRootIndex fDescriber sleRoot uNodeDir sleNode =
     bindM (fieldM (getFieldV256 sfIndexes) sleNode) (\<lambda>svIndexes.
       if DIR_NODE_MAX \<noteq> length svIndexes then
         bindM (entryModify sleNode) (\<lambda>_. retM (Some (sleNode, uNodeDir, svIndexes)))
       else if uNodeDir + 1 = 0 then retM None
       else
         bindM (updateM (setFieldU64 sfIndexNext (uNodeDir + 1)) sleNode) (\<lambda>_.
         bindM (entryModify sleNode) (\<lambda>_.
         bindM (updateM (setFieldU64 sfIndexPrevious (uNodeDir + 1)) sleRoot) (\<lambda>_.
         bindM (entryModify sleRoot) (\<lambda>_.
         bindM (entryCreate ltDIR_NODE (dirNode A uRootIndex (uNodeDir + 1))) (\<lambda>sleNew.
         bindM (updateM (setFieldH256 sfRootIndex uRootIndex) sleNew) (\<lambda>_.
         bindM (if uNodeDir + 1 \<noteq> 1 then updateM (setFieldU64 sfIndexPrevious (uNodeDir + 1 - 1)) sleNew
                else retM ()) (\<lambda>_.
         bindM (updateM fDescriber sleNew) (\<lambda>_. retM (Some (sleNew, uNodeDir + 1, [])))))))))))"

definition dirAdd_page :: "app \<Rightarrow> u256 \<Rightarrow> (sle \<Rightarrow> sle result) \<Rightarrow> (sle_ptr \<times> u64 \<times> u256 list) option lesM" where
  "dirAdd_page A uRootIndex fDescriber =
     bindM (entryCache uRootIndex) (\<lambda>sleRoot.
       if sleRoot = None then
         bindM (entryCreate ltDIR_NODE uRootIndex) (\<lambda>sleRoot.
         bindM (updateM (setFieldH256 sfRootIndex uRootIndex) sleRoot) (\<lambda>_.
         bindM (updateM fDescriber sleRoot) (\<lambda>_. retM (Some (sleRoot, 0, [])))))
       else
         bindM (fieldM (getFieldU64 sfIndexPrevious) sleRoot) (\<lambda>uNodeDir.
         bindM (if uNodeDir \<noteq> 0 then entryCache (dirNode A uRootIndex uNodeDir) else retM sleRoot) (\<lambda>sleNode.
           dirAdd_last A uRootIndex fDescriber sleRoot uNodeDir sleNode)))"

definition dirAdd :: "app \<Rightarrow> u256 \<Rightarrow> u256 \<Rightarrow> (sle \<Rightarrow> sle result) \<Rightarrow> (TER \<times> u64) lesM" where
  "dirAdd A uRootIndex uLedgerIndex fDescriber =
     bindM (dirAdd_page A uRootIndex fDescriber) (\<lambda>r.
       case r of
         None \<Rightarrow> retM (tecDIR_FULL, 0)
       | Some (sleNode, uNodeDir, svIndexes) \<Rightarrow>
           bindM (updateM (setFieldV256 sfIndexes (svIndexes @ [uLedgerIndex])) sleNode) (\<lambda>_.
             retM (tesSUCCESS, uNodeDir)))"

text \<open>Removal of a key from a page, keeping the order or moving the last key into the gap.\<close>

definition erase_index :: "bool \<Rightarrow> u256 \<Rightarrow> u256 list \<Rightarrow> u256 list" where
  "erase_index bStable x sv =
     (if length sv > 1 then
        if bStable then remove1 x sv
        else butlast (sv[length (takeWhile (\<lambda>y. y \<noteq> x) sv) := last sv])
      else [])"

text \<open>What becomes of a page that has just been emptied.\<close>

definition dirDelete_emptied :: "app \<Rightarrow> bool \<Rightarrow> u64 \<Rightarrow> u256 \<Rightarrow> sle_ptr \<Rightarrow> TER lesM" where
  "dirDelete_emptied A bKeepRoot uNodeCur uRootIndex sleNode =
     bindM (fieldM (getFieldU64 sfIndexPrevious) sleNode) (\<lambda>uNodePrevious.
     bindM (fieldM (getFieldU64 sfIndexNext) sleNode) (\<lambda>uNodeNext.
       if uNodeCur = 0 then
         if uNodePrevious = 0 then bindM (entryDelete sleNode) (\<lambda>_. retM tesSUCCESS)
         else if bKeepRoot then retM tesSUCCESS
         else if uNodePrevious \<noteq> uNodeNext then retM tesSUCCESS
         else
           bindM (entryCache (dirNode A uRootIndex uNodeNext)) (\<lambda>sleLast.
           bindM (fieldM (getFieldV256 sfIndexes) sleLast) (\<lambda>sv.
             if sv = [] then
               bindM (entryDelete sleNode) (\<lambda>_. bindM (entryDelete sleLast) (\<lambda>_. retM tesSUCCESS))
             else retM tesSUCCESS))
       else if uNodeNext \<noteq> 0 then
         bindM (entryCache (dirNode A uRootIndex uNodePrevious)) (\<lambda>slePrevious.
         bindM (entryCache (dirNode A uRootIndex uNodeNext)) (\<lambda>sleNext.
           if slePrevious = None then retM tefBAD_LEDGER
           else if sleNext = None then retM tefBAD_LEDGER
           else
             bindM (updateM (setFieldU64 sfIndexNext uNodeNext) slePrevious) (\<lambda>_.
             bindM (entryModify slePrevious) (\<lambda>_.
             bindM (updateM (setFieldU64 sfIndexPrevious uNodePrevious) sleNext) (\<lambda>_.
             bindM (entryModify sleNext) (\<lambda>_.
             bindM (entryDelete sleNode) (\<lambda>_. retM tesSUCCESS)))))))
       else if bKeepRoot \<or> uNodePrevious \<noteq> 0 then retM tesSUCCESS
       else
         bindM (entryCache uRootIndex) (\<lambda>sleRoot.
         bindM (fieldM (getFieldV256 sfIndexes) sleRoot) (\<lambda>sv.
           if sv = [] then
             bindM (entryDelete sleRoot) (\<lambda>_. bindM (entryDelete sleNode) (\<lambda>_. retM tesSUCCESS))
           else retM tesSUCCESS))))"

function dirDelete :: "app \<Rightarrow> bool \<Rightarrow> u64 \<Rightarrow> u256 \<Rightarrow> u256 \<Rightarrow> bool \<Rightarrow> bool \<Rightarrow> TER lesM" where
  "dirDelete A bKeepRoot uNodeDir uRootIndex uLedgerIndex bStable bSoft s =
     bindM (entryCache (dirNode A uRootIndex uNodeDir)) (\<lambda>sleNode s.
       if sleNode = None then
         if \<not> bSoft then retM tefBAD_LEDGER s
         else if uNodeDir < 20 then dirDelete A bKeepRoot (uNodeDir + 1) uRootIndex uLedgerIndex bStable True s
         else retM tefBAD_LEDGER s
       else
         bindM (fieldM (getFieldV256 sfIndexes) sleNode) (\<lambda>svIndexes s.
           if uLedgerIndex \<notin> set svIndexes then
             if \<not> bSoft then retM tefBAD_LEDGER s
             else if uNodeDir < 20 then dirDelete A bKeepRoot (uNodeDir + 1) uRootIndex uLedgerIndex bStable True s
             else retM tefBAD_LEDGER s
           else
             let svIndexes = erase_index bStable uLedgerIndex svIndexes
             in bindM (updateM (setFieldV256 sfIndexes svIndexes) sleNode) (\<lambda>_.
                bindM (entryModify sleNode) (\<lambda>_.
                  if svIndexes = [] then dirDelete_emptied A bKeepRoot uNodeDir uRootIndex sleNode
                  else retM tesSUCCESS)) s) s) s"
  by pat_completeness auto
termination
  by (relation "measure (\<lambda>(A, bKeepRoot, uNodeDir, uRootIndex, uLedgerIndex, bStable, bSoft, s). 20 - unat uNodeDir)")
    (simp_all add: next_page_closer)

declare dirDelete.simps [simp del]

text \<open>
  Iteration. \<open>dirNext\<close> answers whether there was an entry, the current page, the position after the
  entry, and the entry, which keeps its old value when a page is missing; on a cyclic chain of
  empty pages it would not end.
\<close>

partial_function (option) dirNext ::
    "app \<Rightarrow> u256 \<Rightarrow> sle_ptr \<Rightarrow> u32 \<Rightarrow> u256 \<Rightarrow> les \<Rightarrow> (((bool \<times> sle_ptr \<times> u32 \<times> u256) \<times> les) result) option" where
  "dirNext A uRootIndex sleNode uDirEntry uEntryIndex s =
     (case fieldM (getFieldV256 sfIndexes) sleNode s of
        Inl er \<Rightarrow> Some (Inl er)
      | Inr (svIndexes, s) \<Rightarrow>
          if unat uDirEntry \<ge> length svIndexes then
            (case fieldM (getFieldU64 sfIndexNext) sleNode s of
               Inl er \<Rightarrow> Some (Inl er)
             | Inr (uNodeNext, s) \<Rightarrow>
                 if uNodeNext = 0 then Some (Inr ((False, sleNode, uDirEntry, 0), s))
                 else (case entryCache (dirNode A uRootIndex uNodeNext) s of
                         Inl er \<Rightarrow> Some (Inl er)
                       | Inr (None, s) \<Rightarrow> Some (Inr ((False, sleNode, 0, uEntryIndex), s))
                       | Inr (Some i, s) \<Rightarrow> dirNext A uRootIndex (Some i) 0 uEntryIndex s))
          else Some (Inr ((True, sleNode, uDirEntry + 1, svIndexes ! unat uDirEntry), s)))"

definition dirFirst :: "app \<Rightarrow> u256 \<Rightarrow> u256 \<Rightarrow> les \<Rightarrow> (((bool \<times> sle_ptr \<times> u32 \<times> u256) \<times> les) result) option" where
  "dirFirst A uRootIndex uEntryIndex s =
     (case entryCache uRootIndex s of
        Inl er \<Rightarrow> Some (Inl er)
      | Inr (sleNode, s) \<Rightarrow> dirNext A uRootIndex sleNode 0 uEntryIndex s)"

subsection \<open>Owner counts and offers\<close>

definition incrementOwnerCount :: "sle_ptr \<Rightarrow> unit lesM" where
  "incrementOwnerCount sleAccount =
     bindM (fieldM (getFieldU32 sfOwnerCount) sleAccount) (\<lambda>current_count.
       if current_count = -1 then retM ()
       else bindM (updateM (setFieldU32 sfOwnerCount (current_count + 1)) sleAccount) (\<lambda>_.
              entryModify sleAccount))"

definition incrementOwnerCount_account :: "app \<Rightarrow> Account \<Rightarrow> unit lesM" where
  "incrementOwnerCount_account A owner =
     bindM (entryCache (getAccountRootIndex (app_sha512 A) owner)) incrementOwnerCount"

definition decrementOwnerCount :: "sle_ptr \<Rightarrow> unit lesM" where
  "decrementOwnerCount sleAccount =
     bindM (fieldM (getFieldU32 sfOwnerCount) sleAccount) (\<lambda>current_count.
       if current_count = 0 then retM ()
       else bindM (updateM (setFieldU32 sfOwnerCount (current_count - 1)) sleAccount) (\<lambda>_.
              entryModify sleAccount))"

definition decrementOwnerCount_account :: "app \<Rightarrow> Account \<Rightarrow> unit lesM" where
  "decrementOwnerCount_account A owner =
     bindM (entryCache (getAccountRootIndex (app_sha512 A) owner)) decrementOwnerCount"

definition offerDelete :: "app \<Rightarrow> sle_ptr \<Rightarrow> TER lesM" where
  "offerDelete A sleOffer =
     (if sleOffer = None then retM tesSUCCESS
      else
        bindM (deref sleOffer) (\<lambda>e.
        bindM (fieldM (getFieldAccount160 sfAccount) sleOffer) (\<lambda>owner.
        bindM (fieldM (getFieldAmount sfTakerGets) sleOffer) (\<lambda>_.
        bindM (fieldM (getFieldU64 sfOwnerNode) sleOffer) (\<lambda>uOwnerNode.
        bindM (fieldM (getFieldH256 sfBookDirectory) sleOffer) (\<lambda>uDirectory.
        bindM (fieldM (getFieldU64 sfBookNode) sleOffer) (\<lambda>uBookNode.
        bindM (dirDelete A False uOwnerNode (getOwnerDirIndex (app_sha512 A) owner) (sleIndex e) False
                 (\<not> isFieldPresent sfOwnerNode e)) (\<lambda>terResult.
        bindM (dirDelete A False uBookNode uDirectory (sleIndex e) True False) (\<lambda>terResult2.
        bindM (if terResult = tesSUCCESS then decrementOwnerCount_account A owner else retM ()) (\<lambda>_.
        bindM (entryDelete sleOffer) (\<lambda>_.
          retM (if terResult = tesSUCCESS then terResult2 else terResult))))))))))))"

subsection \<open>The contents of a directory\<close>

text \<open>
  A page with given links: the links of page number \<open>k\<close> in a chain of page numbers are the next
  number or zero, and the previous number, which for the root is the last one.
\<close>

definition page_entries :: "app \<Rightarrow> (u256 \<rightharpoonup> sle) \<Rightarrow> u256 \<Rightarrow> u64 \<Rightarrow> u256 list" where
  "page_entries A V r n = (case V (dirNode A r n) of Some e \<Rightarrow> valV256 sfIndexes e | None \<Rightarrow> [])"

definition dir_entries :: "app \<Rightarrow> (u256 \<rightharpoonup> sle) \<Rightarrow> u256 \<Rightarrow> u64 list \<Rightarrow> u256 list" where
  "dir_entries A V r pages = concat (map (page_entries A V r) pages)"

definition page_ok :: "u64 \<Rightarrow> u64 \<Rightarrow> sle \<Rightarrow> bool" where
  "page_ok nxt prv e \<longleftrightarrow> sleType e = ltDIR_NODE \<and> valU64 sfIndexNext e = nxt \<and> valU64 sfIndexPrevious e = prv \<and>
     length (valV256 sfIndexes e) \<le> DIR_NODE_MAX"

definition next_of :: "u64 list \<Rightarrow> nat \<Rightarrow> u64" where
  "next_of pages k = (if Suc k < length pages then pages ! Suc k else 0)"

definition prev_of :: "u64 list \<Rightarrow> nat \<Rightarrow> u64" where
  "prev_of pages k = (if k = 0 then last pages else pages ! (k - 1))"

definition is_dir :: "app \<Rightarrow> (u256 \<rightharpoonup> sle) \<Rightarrow> u256 \<Rightarrow> u64 list \<Rightarrow> bool" where
  "is_dir A V r pages \<longleftrightarrow> pages \<noteq> [] \<and> hd pages = 0 \<and> sorted_wrt (<) pages \<and> inj_on (dirNode A r) (set pages) \<and>
     (\<forall>k < length pages. \<exists>e. V (dirNode A r (pages ! k)) = Some e \<and> page_ok (next_of pages k) (prev_of pages k) e)"

definition dir_or_none :: "app \<Rightarrow> (u256 \<rightharpoonup> sle) \<Rightarrow> u256 \<Rightarrow> u64 list \<Rightarrow> bool" where
  "dir_or_none A V r pages = (if pages = [] then V r = None else is_dir A V r pages)"

definition next_page_free :: "app \<Rightarrow> (u256 \<rightharpoonup> sle) \<Rightarrow> u256 \<Rightarrow> u64 list \<Rightarrow> bool" where
  "next_page_free A V r pages \<longleftrightarrow>
     (let n = last pages + 1 in n = 0 \<or> dirNode A r n \<notin> dirNode A r ` set pages \<and> V (dirNode A r n) = None \<and> dirNode A r n \<noteq> 0)"

definition dir_added :: "app \<Rightarrow> u256 \<Rightarrow> u256 \<Rightarrow> u64 list \<Rightarrow> les \<Rightarrow> TER \<times> u64 \<Rightarrow> les \<Rightarrow> bool" where
  "dir_added A r x pages s res s' \<longleftrightarrow> les_ok s' \<and> rest s' = rest s \<and>
     (case res of (ter, n) \<Rightarrow>
        ter = tesSUCCESS \<and> (\<exists>pages'. is_dir A (view s') r pages' \<and> set pages' = insert n (set pages) \<and>
          dir_entries A (view s') r pages' = dir_entries A (view s) r pages @ [x] \<and>
          x \<in> set (page_entries A (view s') r n) \<and>
          (\<forall>i. i \<notin> dirNode A r ` set pages' \<longrightarrow> view s' i = view s i)) \<or>
        ter = tecDIR_FULL \<and> pages \<noteq> [] \<and> last pages = -1 \<and> view s' = view s)"

lemma dirNode_0 [simp]: "dirNode A r 0 = r"
  by (simp add: getDirNodeIndex_def)

lemma is_dirD:
  assumes "is_dir A V r pages" "k < length pages"
  obtains e where "V (dirNode A r (pages ! k)) = Some e" "page_ok (next_of pages k) (prev_of pages k) e"
  using assms by (auto simp: is_dir_def)

lemma is_dir_nth_inj:
  assumes "is_dir A V r pages" "j < length pages" "k < length pages"
  shows "dirNode A r (pages ! j) = dirNode A r (pages ! k) \<longleftrightarrow> j = k"
proof -
  have "distinct pages" using assms(1) strict_sorted_iff by (auto simp: is_dir_def)
  moreover have "dirNode A r (pages ! j) = dirNode A r (pages ! k) \<longleftrightarrow> pages ! j = pages ! k"
    using assms by (auto simp: is_dir_def dest: inj_onD)
  ultimately show ?thesis using assms(2,3) by (simp add: nth_eq_iff_index_eq)
qed

lemma is_dir_root: "is_dir A V r pages \<Longrightarrow> pages ! 0 = 0 \<and> 0 < length pages"
  by (cases pages) (auto simp: is_dir_def)

lemma is_dir_pos: "is_dir A V r pages \<Longrightarrow> 0 < k \<Longrightarrow> k < length pages \<Longrightarrow> pages ! k \<noteq> 0"
  using is_dir_root [of A V r pages] sorted_wrt_nth_less [of "(<)" pages 0 k] by (auto simp: is_dir_def)

lemma page_fields:
  assumes "page_ok nxt prv e" "entry_ok e"
  shows "getFieldU64 sfIndexNext e = Inr nxt" "getFieldU64 sfIndexPrevious e = Inr prv"
    "getFieldV256 sfIndexes e = Inr (valV256 sfIndexes e)"
  using assms hasField_dir [of e] by (simp_all add: page_ok_def get_val)

lemma new_page:
  obtains e where "STLedgerEntry ltDIR_NODE i = Inr e" "entry_ok e" "sleType e = ltDIR_NODE" "sleIndex e = i"
    "valV256 sfIndexes e = []" "valU64 sfIndexNext e = 0" "valU64 sfIndexPrevious e = 0"
proof -
  obtain es where es: "findByType ltDIR_NODE = Some es" by (auto simp: findByType_def)
  note n = STLedgerEntry_spec [OF es, of i]
  show ?thesis
    by (rule that [OF n(1) n(2)])
      (use es in \<open>auto simp: put_def valV256_def valU64_def set_template_def findByType_def addCommonFields_def sfields\<close>)
qed

text \<open>What a directory relies on from the functions that describe its pages.\<close>

locale page_describer =
  fixes describe :: "sle \<Rightarrow> sle result"
  assumes describes: "entry_ok e \<Longrightarrow> sleType e = ltDIR_NODE \<Longrightarrow>
    \<exists>e'. describe e = Inr e' \<and> entry_ok e' \<and> sleIndex e' = sleIndex e \<and> sleType e' = ltDIR_NODE \<and>
      valV256 sfIndexes e' = valV256 sfIndexes e \<and> valU64 sfIndexNext e' = valU64 sfIndexNext e \<and>
      valU64 sfIndexPrevious e' = valU64 sfIndexPrevious e"
begin

lemma add_first:
  assumes "st s V L M {} R" "V r = None" "r \<noteq> 0"
    and Q: "\<And>s' e L' M'. st s' (V(r \<mapsto> e)) L' M' {} R \<Longrightarrow> page_ok 0 0 e \<Longrightarrow> valV256 sfIndexes e = [x] \<Longrightarrow>
      Q (tesSUCCESS, 0) s'"
  shows "runs (dirAdd A r x describe) s Q"
proof -
  obtain e where e: "STLedgerEntry ltDIR_NODE r = Inr e" "entry_ok e" "sleType e = ltDIR_NODE" "sleIndex e = r"
    "valV256 sfIndexes e = []" "valU64 sfIndexNext e = 0" "valU64 sfIndexPrevious e = 0" by (rule new_page)
  define e1 where "e1 = put sfRootIndex (STHash256 r) e"
  have h: "hasField sfRootIndex e" using e(3) by (rule hasField_dir)
  have e1: "entry_ok e1" "sleType e1 = ltDIR_NODE" "sleIndex e1 = r"
    "valV256 sfIndexes e1 = []" "valU64 sfIndexNext e1 = 0" "valU64 sfIndexPrevious e1 = 0"
    using e h by (simp_all add: e1_def entry_ok_put)
  obtain e2 where e2: "describe e1 = Inr e2" "entry_ok e2" "sleIndex e2 = r" "sleType e2 = ltDIR_NODE"
      "valV256 sfIndexes e2 = []" "valU64 sfIndexNext e2 = 0" "valU64 sfIndexPrevious e2 = 0"
    using describes [OF e1(1,2)] e1 by auto
  have h2: "hasField sfIndexes e2" using e2(4) by (rule hasField_dir)
  show ?thesis
    unfolding dirAdd_def dirAdd_page_def runs_bind
    apply (rule runs_cache [OF assms(1)])
    apply (simp add: assms(2) runs_bind)
    apply (rule runs_create, assumption, rule assms(2), rule assms(3), rule e(1))
    apply (simp add: setFieldH256_def)
    apply (rule runs_put, assumption, simp, simp, rule h, simp)
    apply (simp add: runs_bind e1_def [symmetric])
    apply (rule runs_update, assumption, simp, simp, rule e2(1), simp add: e2, simp add: e2)
    apply (simp add: runs_bind setFieldV256_def)
    apply (rule runs_put, assumption, simp, simp, rule h2, simp)
    apply simp
    apply (rule Q, assumption)
     apply (simp_all add: page_ok_def e2 DIR_NODE_MAX_def)
    done
qed

end

lemma last_nth: "pages \<noteq> [] \<Longrightarrow> last pages = pages ! (length pages - 1)"
  by (simp add: last_conv_nth)

lemma dir_entries_cong: "(\<And>n. n \<in> set pages \<Longrightarrow> page_entries A V r n = page_entries A V' r n) \<Longrightarrow>
    dir_entries A V r pages = dir_entries A V' r pages"
  by (simp add: dir_entries_def cong: map_cong)

text \<open>Linking a new last page into the chain.\<close>

lemma extend_dir:
  assumes dir: "is_dir A V r pages" and n: "n = last pages + 1" "n \<noteq> 0" "dirNode A r n \<notin> dirNode A r ` set pages"
    and l: "l = dirNode A r (last pages)" "V l = Some e" and V1: "V1 = V(l \<mapsto> put sfIndexNext (STUInt64 n) e)" "V1 r = Some er"
    and V2: "V2 = V1(r \<mapsto> put sfIndexPrevious (STUInt64 n) er)" and new: "page_ok 0 (last pages) e3" "valV256 sfIndexes e3 = [x]"
    and V3: "V3 = V2(dirNode A r n \<mapsto> e3)"
  shows "is_dir A V3 r (pages @ [n]) \<and> dir_entries A V3 r (pages @ [n]) = dir_entries A V r pages @ [x]"
proof -
  let ?m = "length pages"
  have p: "pages \<noteq> []" "hd pages = 0" "sorted_wrt (<) pages" "inj_on (dirNode A r) (set pages)" "pages ! 0 = 0" "0 < ?m"
    using dir is_dir_root [OF dir] by (auto simp: is_dir_def)
  have lastn: "last pages < n"
    using n(1,2) unatSuc [of "last pages"] by (simp add: word_less_nat_alt add.commute)
  have le: "p \<le> last pages" if "p \<in> set pages" for p
    using that p(1,3) by (induction pages) (auto simp: less_imp_le)
  have sorted: "sorted_wrt (<) (pages @ [n])" using p(3) le lastn by (auto simp: sorted_wrt_append) (meson le_less_trans)
  have inj: "inj_on (dirNode A r) (set (pages @ [n]))" using p(4) n(3) by (auto simp: inj_on_insert)
  have idx: "dirNode A r (pages ! j) = dirNode A r (pages ! k) \<longleftrightarrow> j = k" if "j < ?m" "k < ?m" for j k
    by (rule is_dir_nth_inj [OF dir that])
  have l': "l = dirNode A r (pages ! (?m - 1))" using l(1) p(1) by (simp add: last_nth)
  have r: "r = dirNode A r (pages ! 0)" using p(5) by simp
  have newi: "dirNode A r (pages ! k) \<noteq> dirNode A r n" if "k < ?m" for k using n(3) that by (metis imageI nth_mem)
  have at: "\<exists>e'. V3 (dirNode A r (pages ! k)) = Some e' \<and> page_ok (next_of (pages @ [n]) k) (prev_of (pages @ [n]) k) e' \<and>
      valV256 sfIndexes e' = page_entries A V r (pages ! k)" if k: "k < ?m" for k
  proof -
    obtain ek where ek: "V (dirNode A r (pages ! k)) = Some ek" "page_ok (next_of pages k) (prev_of pages k) ek"
      by (rule is_dirD [OF dir k])
    have l_eq: "dirNode A r (pages ! k) = l \<longleftrightarrow> k = ?m - 1" using idx [OF k, of "?m - 1"] l' p(6) by simp
    have r_eq: "dirNode A r (pages ! k) = r \<longleftrightarrow> k = 0" using idx [OF k p(6)] r by simp
    define f where "f = (if k = ?m - 1 then put sfIndexNext (STUInt64 n) ek else ek)"
    have V1k: "V1 (dirNode A r (pages ! k)) = Some f" using l_eq ek(1) l(2) by (auto simp: V1(1) f_def)
    have V3k: "V3 (dirNode A r (pages ! k)) = Some (if k = 0 then put sfIndexPrevious (STUInt64 n) f else f)"
      using V1k V1(2) r_eq newi [OF k] by (auto simp: V3 V2)
    have "page_ok (next_of (pages @ [n]) k) (prev_of (pages @ [n]) k) (if k = 0 then put sfIndexPrevious (STUInt64 n) f else f)"
      using ek(2) k p(6) by (auto simp: page_ok_def f_def next_of_def prev_of_def nth_append)
    moreover have "valV256 sfIndexes (if k = 0 then put sfIndexPrevious (STUInt64 n) f else f) = page_entries A V r (pages ! k)"
      using ek(1) by (simp add: f_def page_entries_def)
    ultimately show ?thesis using V3k by blast
  qed
  have "\<exists>e'. V3 (dirNode A r ((pages @ [n]) ! k)) = Some e' \<and> page_ok (next_of (pages @ [n]) k) (prev_of (pages @ [n]) k) e'"
    if "k < length (pages @ [n])" for k
  proof (cases "k < ?m")
    case True
    with at [of k] show ?thesis by (auto simp: nth_append)
  next
    case False
    then have k: "k = ?m" using that by simp
    then show ?thesis using new(1) p(1,6) by (simp add: V3 next_of_def prev_of_def nth_append last_nth)
  qed
  then have "is_dir A V3 r (pages @ [n])" using p(1,2) sorted inj unfolding is_dir_def by (auto simp: hd_append)
  moreover have "page_entries A V3 r q = page_entries A V r q" if "q \<in> set pages" for q
  proof -
    obtain k where k: "k < ?m" "q = pages ! k" using \<open>q \<in> set pages\<close> by (auto simp: in_set_conv_nth)
    then show ?thesis using at [OF k(1)] by (auto simp: page_entries_def)
  qed
  then have "dir_entries A V3 r pages = dir_entries A V r pages" by (rule dir_entries_cong)
  moreover have "dir_entries A V3 r (pages @ [n]) = dir_entries A V3 r pages @ [x]"
    using new(2) by (simp add: V3 page_entries_def dir_entries_def)
  ultimately show ?thesis by simp
qed

text \<open>Changing the keys of one page.\<close>

lemma update_page:
  assumes dir: "is_dir A V r pages" and k: "k < length pages" and e: "V (dirNode A r (pages ! k)) = Some e"
    and sv: "length sv \<le> DIR_NODE_MAX" and V': "V' = V(dirNode A r (pages ! k) \<mapsto> put sfIndexes (STVector256 sv) e)"
  shows "is_dir A V' r pages \<and> (\<forall>j < length pages. page_entries A V' r (pages ! j) =
    (if j = k then sv else page_entries A V r (pages ! j)))"
proof -
  have idx: "dirNode A r (pages ! j) = dirNode A r (pages ! k) \<longleftrightarrow> j = k" if "j < length pages" for j
    by (rule is_dir_nth_inj [OF dir that k])
  have "\<exists>e'. V' (dirNode A r (pages ! j)) = Some e' \<and> page_ok (next_of pages j) (prev_of pages j) e' \<and>
      valV256 sfIndexes e' = (if j = k then sv else page_entries A V r (pages ! j))" if j: "j < length pages" for j
  proof -
    obtain ej where ej: "V (dirNode A r (pages ! j)) = Some ej" "page_ok (next_of pages j) (prev_of pages j) ej"
      by (rule is_dirD [OF dir j])
    show ?thesis
    proof (cases "j = k")
      case True
      with ej e sv show ?thesis by (simp add: V' page_ok_def)
    next
      case False
      with ej idx [OF j] show ?thesis by (simp add: V' page_entries_def)
    qed
  qed
  then show ?thesis using dir unfolding is_dir_def by (fastforce simp: page_entries_def)
qed

lemma dir_entries_split:
  assumes "k < length pages"
  shows "dir_entries A V r pages = concat (map (page_entries A V r) (take k pages)) @ page_entries A V r (pages ! k) @
    concat (map (page_entries A V r) (drop (Suc k) pages))"
  unfolding dir_entries_def by (subst (1) id_take_nth_drop [OF assms]) simp

lemma dir_entries_update:
  assumes "k < length pages" "\<forall>j < length pages. page_entries A V' r (pages ! j) =
    (if j = k then sv else page_entries A V r (pages ! j))"
  shows "dir_entries A V' r pages = concat (map (page_entries A V r) (take k pages)) @ sv @
    concat (map (page_entries A V r) (drop (Suc k) pages))"
proof -
  have m: "map (page_entries A V' r) (take k pages) = map (page_entries A V r) (take k pages)"
    "map (page_entries A V' r) (drop (Suc k) pages) = map (page_entries A V r) (drop (Suc k) pages)"
    using assms by (auto simp: list_eq_iff_nth_eq)
  have "page_entries A V' r (pages ! k) = sv" using assms by simp
  then show ?thesis unfolding dir_entries_split [OF assms(1), of A V' r] m by simp
qed

context page_describer
begin

lemma add_more:
  assumes st: "st s V L M {} R" and dir: "is_dir A V r pages" and l: "l = dirNode A r (last pages)"
    and n: "n = last pages + 1" and fresh: "n \<noteq> 0 \<Longrightarrow> dirNode A r n \<notin> dirNode A r ` set pages \<and> V (dirNode A r n) = None \<and> dirNode A r n \<noteq> 0"
    and e: "V l = Some e"
    and room: "\<And>s' L' M'. length (valV256 sfIndexes e) < DIR_NODE_MAX \<Longrightarrow>
      st s' (V(l \<mapsto> put sfIndexes (STVector256 (valV256 sfIndexes e @ [x])) e)) L' M' {} R \<Longrightarrow> Q (tesSUCCESS, last pages) s'"
    and full: "\<And>s' L' M'. length (valV256 sfIndexes e) = DIR_NODE_MAX \<Longrightarrow> n = 0 \<Longrightarrow> st s' V L' M' {} R \<Longrightarrow> Q (tecDIR_FULL, 0) s'"
    and grow: "\<And>s' L' M' V1 er e3. length (valV256 sfIndexes e) = DIR_NODE_MAX \<Longrightarrow> n \<noteq> 0 \<Longrightarrow>
      V1 = V(l \<mapsto> put sfIndexNext (STUInt64 n) e) \<Longrightarrow> V1 r = Some er \<Longrightarrow>
      page_ok 0 (last pages) e3 \<Longrightarrow> valV256 sfIndexes e3 = [x] \<Longrightarrow>
      st s' (V1(r \<mapsto> put sfIndexPrevious (STUInt64 n) er, dirNode A r n \<mapsto> e3)) L' M' {} R \<Longrightarrow> Q (tesSUCCESS, n) s'"
  shows "runs (dirAdd A r x describe) s Q"
proof -
  have p: "pages \<noteq> []" "pages ! 0 = 0" "0 < length pages" using dir is_dir_root [OF dir] by (auto simp: is_dir_def)
  obtain e0 where e0: "V r = Some e0" "page_ok (next_of pages 0) (last pages) e0"
    using is_dirD [OF dir p(3)] p(2) by (auto simp: prev_of_def)
  have "page_ok (next_of pages (length pages - 1)) (prev_of pages (length pages - 1)) e"
    using is_dirD [OF dir, of "length pages - 1"] p e l by (auto simp: last_nth)
  then obtain nx pv where pe: "page_ok nx pv e" by blast
  have ok: "entry_ok e0" "entry_ok e" using st_view [OF st] e0 e by auto
  have len: "length (valV256 sfIndexes e) \<le> DIR_NODE_MAX" and ty: "sleType e = ltDIR_NODE" "sleType e0 = ltDIR_NODE"
    using pe e0 by (auto simp: page_ok_def)
  have h: "hasField sfIndexes e" "hasField sfIndexNext e" using hasField_dir [OF ty(1)] by auto
  let ?Vn = "V(l \<mapsto> put sfIndexNext (STUInt64 n) e)"
  obtain er where er: "?Vn r = Some er" "hasField sfIndexPrevious er"
    using e0(1) hasField_dir [OF ty(1)] hasField_dir [OF ty(2)] by (cases "r = l") auto
  have fr: "n \<noteq> 0 \<Longrightarrow> dirNode A r n \<noteq> r" "n \<noteq> 0 \<Longrightarrow> dirNode A r n \<noteq> l"
    using fresh e0(1) e by auto
  define c where "c = (\<lambda>ret. case ret of
         None \<Rightarrow> retM (tecDIR_FULL, 0)
       | Some (sleNode, uNodeDir, svIndexes) \<Rightarrow>
           bindM (updateM (setFieldV256 sfIndexes (svIndexes @ [x])) sleNode) (\<lambda>_. retM (tesSUCCESS, uNodeDir :: u64)))"
  have step: "runs (dirAdd_last A r describe (Some r) (last pages) (Some l)) s' (\<lambda>ret s''. runs (c ret) s'' Q)"
    if s': "st s' V (insert l (insert r L)) M {} R" for s'
  proof (cases "length (valV256 sfIndexes e) = DIR_NODE_MAX")
    case False
    show ?thesis
      unfolding dirAdd_last_def runs_bind
      apply (rule runs_field, rule s', simp, rule e, rule page_fields(3) [OF pe ok(2)])
      apply (simp add: False [symmetric] runs_bind)
      apply (rule runs_modify, rule s', simp)
      apply (simp add: c_def runs_bind setFieldV256_def)
      apply (rule runs_put, assumption, simp, rule e, rule h, simp)
      apply simp
      apply (rule room)
      using False len apply simp
      apply assumption
      done
  next
    case True
    show ?thesis
    proof (cases "n = 0")
      case n0: True
      show ?thesis
        unfolding dirAdd_last_def runs_bind
        apply (rule runs_field, rule s', simp, rule e, rule page_fields(3) [OF pe ok(2)])
        using True n0 n s' apply (simp add: c_def full)
        done
    next
      case n0: False
      obtain e1 where e1: "STLedgerEntry ltDIR_NODE (dirNode A r n) = Inr e1" "entry_ok e1" "sleType e1 = ltDIR_NODE"
        "sleIndex e1 = dirNode A r n" "valV256 sfIndexes e1 = []" "valU64 sfIndexNext e1 = 0" "valU64 sfIndexPrevious e1 = 0"
        by (rule new_page)
      define e2 where "e2 = put sfRootIndex (STHash256 r) e1"
      define e3 where "e3 = (if n \<noteq> 1 then put sfIndexPrevious (STUInt64 (last pages)) e2 else e2)"
      note h1 = hasField_dir [OF e1(3)]
      have h2: "hasField sfIndexPrevious e2" using h1 by (simp add: e2_def)
      have e3: "entry_ok e3" "sleType e3 = ltDIR_NODE" "sleIndex e3 = dirNode A r n" "valV256 sfIndexes e3 = []"
          "valU64 sfIndexNext e3 = 0" "valU64 sfIndexPrevious e3 = last pages"
        using e1 h1 h2 n by (auto simp: e3_def e2_def entry_ok_put)
      obtain e4 where e4: "describe e3 = Inr e4" "entry_ok e4" "sleIndex e4 = dirNode A r n" "sleType e4 = ltDIR_NODE"
          "valV256 sfIndexes e4 = []" "valU64 sfIndexNext e4 = 0" "valU64 sfIndexPrevious e4 = last pages"
        using describes [OF e3(1,2)] e3 by auto
      have h4: "hasField sfIndexes e4" using e4(4) by (rule hasField_dir)
      note fr' = fresh [OF n0] fr [OF n0]
      have mid: "runs (if n \<noteq> 1 then updateM (setFieldU64 sfIndexPrevious (n - 1)) (Some (dirNode A r n)) else retM ()) s1 Q1"
        if "st s1 (V'(dirNode A r n \<mapsto> e2)) L' M' {} R" "dirNode A r n \<in> L'" "dirNode A r n \<in> M'"
          "\<And>s'. st s' (V'(dirNode A r n \<mapsto> e3)) L' M' {} R \<Longrightarrow> Q1 () s'" for s1 V' L' M' Q1
      proof (cases "n = 1")
        case True
        then show ?thesis using that(1,4) by (simp add: e3_def)
      next
        case False
        have "runs (updateM (setField sfIndexPrevious (STUInt64 (n - 1))) (Some (dirNode A r n))) s1 Q1"
          by (rule runs_put_marked, rule that(1), rule that(2), rule that(3), simp, rule h2, simp)
            (use that(4) False n in \<open>simp add: e3_def\<close>)
        then show ?thesis using False by (simp add: setFieldU64_def)
      qed
      show ?thesis
        unfolding dirAdd_last_def runs_bind n [symmetric]
        apply (rule runs_field, rule s', simp, rule e, rule page_fields(3) [OF pe ok(2)])
        apply (simp add: True n0 runs_bind setFieldU64_def setFieldH256_def)
        apply (rule runs_put_modify, rule s', simp, rule e, rule h, simp)
        apply (rule runs_put_modify, assumption, simp, rule er, rule er, simp)
        apply (rule runs_create, assumption)
        using fr' apply simp
        using fr' apply simp
         apply (rule e1)
        apply (rule runs_put_marked, assumption, simp, simp, simp, rule h1, simp)
        apply (fold e2_def)
        apply (rule mid, simp only: fun_upd_upd, simp, simp)
        apply (rule runs_update_marked, assumption, simp, simp, simp, rule e4(1), rule e4(3), rule e4(2))
        apply (simp add: c_def runs_bind setFieldV256_def)
        apply (rule runs_put_marked, assumption, simp, simp, simp, rule h4, simp)
        apply simp
        apply (rule grow [OF True n0 refl er(1), rotated 2], assumption)
         apply (simp_all add: page_ok_def e4 DIR_NODE_MAX_def)
        done
    qed
  qed
  show ?thesis
    unfolding dirAdd_def dirAdd_page_def runs_bind c_def [symmetric]
    apply (rule runs_cache [OF st])
    apply (simp add: e0(1) runs_bind)
    apply (rule runs_field, assumption, simp, rule e0(1), rule page_fields(2) [OF e0(2) ok(1)])
    apply (cases "last pages = 0")
    subgoal for s'
      using step [of s'] l by simp
    subgoal for s'
      apply (simp add: runs_bind)
      apply (rule runs_cache, assumption)
      using e l step apply simp
      done
    done
qed

end

interpretation owner: page_describer "ownerDirDescriber a" for a
proof
  fix e :: sle
  assume e: "entry_ok e" "sleType e = ltDIR_NODE"
  note h = hasField_dir [OF e(2)]
  show "\<exists>e'. ownerDirDescriber a e = Inr e' \<and> entry_ok e' \<and> sleIndex e' = sleIndex e \<and> sleType e' = ltDIR_NODE \<and>
      valV256 sfIndexes e' = valV256 sfIndexes e \<and> valU64 sfIndexNext e' = valU64 sfIndexNext e \<and>
      valU64 sfIndexPrevious e' = valU64 sfIndexPrevious e"
    using e h by (simp add: ownerDirDescriber_def set_put entry_ok_put)
qed

interpretation book: page_describer "qualityDirDescriber pays gets rate" for pays gets rate
proof
  fix e :: sle
  assume e: "entry_ok e" "sleType e = ltDIR_NODE"
  note h = hasField_dir [OF e(2)]
  show "\<exists>e'. qualityDirDescriber pays gets rate e = Inr e' \<and> entry_ok e' \<and> sleIndex e' = sleIndex e \<and>
      sleType e' = ltDIR_NODE \<and> valV256 sfIndexes e' = valV256 sfIndexes e \<and>
      valU64 sfIndexNext e' = valU64 sfIndexNext e \<and> valU64 sfIndexPrevious e' = valU64 sfIndexPrevious e"
    using e h by (simp add: qualityDirDescriber_def set_put entry_ok_put)
qed

context page_describer
begin

lemma add_spec:
  assumes s: "les_ok s" and r: "r \<noteq> 0" and dir: "dir_or_none A (view s) r pages"
    and fresh: "pages \<noteq> [] \<longrightarrow> next_page_free A (view s) r pages"
  shows "runs (dirAdd A r x describe) s (dir_added A r x pages s)"
proof (cases "pages = []")
  case True
  then have none: "view s r = None" using dir by (simp add: dir_or_none_def)
  show ?thesis
  proof (rule add_first [OF s [unfolded les_ok_st] none r])
    fix s' e L' M' assume s': "st s' ((view s)(r \<mapsto> e)) L' M' {} (rest s)" and e: "page_ok 0 0 e" "valV256 sfIndexes e = [x]"
    have v: "view s' = (view s)(r \<mapsto> e)" using s' by (simp add: st_def)
    have "is_dir A (view s') r [0]" using e by (simp add: is_dir_def v next_of_def prev_of_def)
    moreover have "dir_entries A (view s') r [0] = [x]" "page_entries A (view s') r 0 = [x]"
      using e by (simp_all add: dir_entries_def page_entries_def v)
    ultimately show "dir_added A r x pages s (tesSUCCESS, 0) s'"
      using st_les_ok [OF s'] True by (auto simp: dir_added_def dir_entries_def v intro!: exI [of _ "[0]"])
  qed
next
  case False
  then have d: "is_dir A (view s) r pages" using dir by (simp add: dir_or_none_def)
  define k where "k = length pages - 1"
  have k: "k < length pages" "last pages = pages ! k" using False by (simp_all add: k_def last_nth)
  obtain e where e: "view s (dirNode A r (pages ! k)) = Some e" by (rule is_dirD [OF d k(1)])
  note l = e [folded k(2)]
  have fr: "last pages + 1 \<noteq> 0 \<Longrightarrow> dirNode A r (last pages + 1) \<notin> dirNode A r ` set pages \<and>
      view s (dirNode A r (last pages + 1)) = None \<and> dirNode A r (last pages + 1) \<noteq> 0"
    using fresh False by (simp add: next_page_free_def Let_def)
  have lp: "last pages \<in> set pages" using False by simp
  have rp: "r \<in> dirNode A r ` set pages" using is_dir_root [OF d] nth_mem [of 0 pages] by force
  show ?thesis
  proof (rule add_more [OF s [unfolded les_ok_st] d refl refl fr l])
    fix s' L' M' assume len: "length (valV256 sfIndexes e) < DIR_NODE_MAX"
      and s': "st s' ((view s)(dirNode A r (last pages) \<mapsto> put sfIndexes (STVector256 (valV256 sfIndexes e @ [x])) e)) L' M' {} (rest s)"
    have v: "view s' = (view s)(dirNode A r (pages ! k) \<mapsto> put sfIndexes (STVector256 (valV256 sfIndexes e @ [x])) e)"
      using s' by (simp add: st_def k)
    have u: "is_dir A (view s') r pages \<and> (\<forall>j < length pages. page_entries A (view s') r (pages ! j) =
        (if j = k then valV256 sfIndexes e @ [x] else page_entries A (view s) r (pages ! j)))"
      by (rule update_page [OF d k(1) e _ v]) (use len in simp)
    have old: "page_entries A (view s) r (pages ! k) = valV256 sfIndexes e" using e by (simp add: page_entries_def)
    have "drop (Suc k) pages = []" by (simp add: k_def)
    then have "dir_entries A (view s') r pages = dir_entries A (view s) r pages @ [x]"
      using dir_entries_update [OF k(1) conjunct2 [OF u]] dir_entries_split [OF k(1), of A "view s" r] old by simp
    moreover have "x \<in> set (page_entries A (view s') r (last pages))" using u k by simp
    moreover have "view s' i = view s i" if "i \<notin> dirNode A r ` set pages" for i
      using that nth_mem [OF k(1)] by (auto simp: v)
    ultimately show "dir_added A r x pages s (tesSUCCESS, last pages) s'"
      using st_les_ok [OF s'] u lp unfolding dir_added_def
      by (auto simp: insert_absorb intro!: exI [of _ pages])
  next
    fix s' L' M' assume "last pages + 1 = 0" and s': "st s' (view s) L' M' {} (rest s)"
    then have "last pages = -1" by (simp add: eq_neg_iff_add_eq_0)
    then show "dir_added A r x pages s (tecDIR_FULL, 0) s'"
      using st_les_ok [OF s'] False by (simp add: dir_added_def)
  next
    fix s' L' M' V1 er e3
    assume n0: "last pages + 1 \<noteq> 0" and V1: "V1 = (view s)(dirNode A r (last pages) \<mapsto> put sfIndexNext (STUInt64 (last pages + 1)) e)"
      "V1 r = Some er" and e3: "page_ok 0 (last pages) e3" "valV256 sfIndexes e3 = [x]"
      and s': "st s' (V1(r \<mapsto> put sfIndexPrevious (STUInt64 (last pages + 1)) er, dirNode A r (last pages + 1) \<mapsto> e3)) L' M' {} (rest s)"
    have v: "view s' = V1(r \<mapsto> put sfIndexPrevious (STUInt64 (last pages + 1)) er, dirNode A r (last pages + 1) \<mapsto> e3)"
      using s' by (simp add: st_def)
    have x: "is_dir A (view s') r (pages @ [last pages + 1]) \<and>
        dir_entries A (view s') r (pages @ [last pages + 1]) = dir_entries A (view s) r pages @ [x]"
      by (rule extend_dir [OF d refl n0 _ refl l V1 refl e3 v]) (use fr [OF n0] in simp)
    moreover have "x \<in> set (page_entries A (view s') r (last pages + 1))" using e3 by (simp add: v page_entries_def)
    moreover have "view s' i = view s i" if "i \<notin> dirNode A r ` set (pages @ [last pages + 1])" for i
      using that lp rp by (auto simp: v V1(1))
    moreover have "set (pages @ [last pages + 1]) = insert (last pages + 1) (set pages)" by simp
    ultimately have "\<exists>pages'. is_dir A (view s') r pages' \<and> set pages' = insert (last pages + 1) (set pages) \<and>
        dir_entries A (view s') r pages' = dir_entries A (view s) r pages @ [x] \<and>
        x \<in> set (page_entries A (view s') r (last pages + 1)) \<and> (\<forall>i. i \<notin> dirNode A r ` set pages' \<longrightarrow> view s' i = view s i)"
      by blast
    moreover have "les_ok s'" "rest s' = rest s" using st_les_ok [OF s'] by auto
    ultimately show "dir_added A r x pages s (tesSUCCESS, last pages + 1) s'" by (simp add: dir_added_def)
  qed
qed

end

text \<open>C21: adding a key to an owner or book directory of a well-formed set returns; unless the page
  numbers are exhausted, the key is appended to the keys of the directory, on the reported page,
  the pages stay linked and within their capacity, and no other entry changes.\<close>

theorem dirAdd_appends:
  assumes "les_ok s" "r \<noteq> 0" "dir_or_none A (view s) r pages" "pages \<noteq> [] \<longrightarrow> next_page_free A (view s) r pages"
    and "d = ownerDirDescriber a \<or> d = qualityDirDescriber pays gets rate"
  shows "\<exists>res s'. dirAdd A r x d s = Inr (res, s') \<and> dir_added A r x pages s res s'"
  using owner.add_spec [OF assms(1-4), of x a] book.add_spec [OF assms(1-4), of x pays gets rate] assms(5)
  by (auto elim!: runsE)

theorem dirAdd_appends_witness:
  "\<exists>res s'. dirAdd example_app 9 5 (ownerDirDescriber 3) (LedgerEntrySet empty_ledger tapNONE False) = Inr (res, s') \<and>
     dir_added example_app 9 5 [] (LedgerEntrySet empty_ledger tapNONE False) res s'"
proof (rule dirAdd_appends)
  show "les_ok (LedgerEntrySet empty_ledger tapNONE False)" by (rule les_ok_init(2) [OF empty_ledger_ok(1)])
  show "dir_or_none example_app (view (LedgerEntrySet empty_ledger tapNONE False)) 9 []"
    by (simp add: dir_or_none_def view_init empty_ledger_ok)
  show "ownerDirDescriber 3 = ownerDirDescriber 3 \<or> ownerDirDescriber 3 = qualityDirDescriber xrpIssue xrpIssue 0" by simp
qed simp_all

end
