(* ===== verification/DirectoryOps.thy ===== *)
theory DirectoryOps
  imports Directory "HOL-Library.Multiset"
begin

text \<open>
  What removal, iteration and counting do to a well-formed directory: \<open>dirDelete\<close> takes one
  occurrence of the key out and keeps the chain of pages well-formed, \<open>dirFirst\<close> and \<open>dirNext\<close> hand out
  every key and then stop, \<open>dirCount\<close> counts them, and \<open>dirIsEmpty\<close> answers true only for a lone
  root page.
\<close>

text \<open>
  What removal leaves of the pages of a directory: a chain of some of the old pages, or nothing;
  the other pages are deleted, and entries that are not pages of the directory are untouched.
\<close>

definition pages_left :: "app \<Rightarrow> u256 \<Rightarrow> u64 list \<Rightarrow> (u256 \<rightharpoonup> sle) \<Rightarrow> (u256 \<rightharpoonup> sle) \<Rightarrow> u64 list \<Rightarrow> bool" where
  "pages_left A r pages V V' pages' \<longleftrightarrow>
     dir_or_none A V' r pages' \<and> set pages' \<subseteq> set pages \<and>
     (\<forall>n \<in> set pages - set pages'. V' (dirNode A r n) = None) \<and>
     (\<forall>i. i \<notin> dirNode A r ` set pages \<longrightarrow> V' i = V i)"

definition dir_removed :: "app \<Rightarrow> u256 \<Rightarrow> u256 \<Rightarrow> bool \<Rightarrow> u64 list \<Rightarrow> les \<Rightarrow> les \<Rightarrow> bool" where
  "dir_removed A r x bStable pages s s' \<longleftrightarrow> les_ok s' \<and> rest s' = rest s \<and>
     (\<exists>pages'. pages_left A r pages (view s) (view s') pages' \<and>
        mset (dir_entries A (view s') r pages') = mset (dir_entries A (view s) r pages) - {#x#} \<and>
        (bStable \<longrightarrow> (\<exists>ys zs. dir_entries A (view s) r pages = ys @ x # zs \<and> dir_entries A (view s') r pages' = ys @ zs)))"

text \<open>The loop in which callers go through a directory: the keys in the order \<open>dirNext\<close> hands them out.\<close>

partial_function (option) dir_walk :: "app \<Rightarrow> u256 \<Rightarrow> sle_ptr \<Rightarrow> u32 \<Rightarrow> u256 \<Rightarrow> les \<Rightarrow> ((u256 list \<times> les) result) option" where
  "dir_walk A r sleNode uDirEntry uEntryIndex s =
     Option.bind (dirNext A r sleNode uDirEntry uEntryIndex s) (\<lambda>res.
       case res of
         Inl er \<Rightarrow> Some (Inl er)
       | Inr ((found, sleNode, uDirEntry, uEntryIndex), s) \<Rightarrow>
           if \<not> found then Some (Inr ([], s))
           else Option.bind (dir_walk A r sleNode uDirEntry uEntryIndex s) (\<lambda>rest.
                  Some (map_sum id (map_prod ((#) uEntryIndex) id) rest)))"

definition dir_all :: "app \<Rightarrow> u256 \<Rightarrow> les \<Rightarrow> ((u256 list \<times> les) result) option" where
  "dir_all A r s =
     Option.bind (dirFirst A r 0 s) (\<lambda>res.
       case res of
         Inl er \<Rightarrow> Some (Inl er)
       | Inr ((found, sleNode, uDirEntry, uEntryIndex), s) \<Rightarrow>
           if \<not> found then Some (Inr ([], s))
           else Option.bind (dir_walk A r sleNode uDirEntry uEntryIndex s) (\<lambda>rest.
                  Some (map_sum id (map_prod ((#) uEntryIndex) id) rest)))"

definition keys_from :: "app \<Rightarrow> (u256 \<rightharpoonup> sle) \<Rightarrow> u256 \<Rightarrow> u64 list \<Rightarrow> nat \<Rightarrow> nat \<Rightarrow> u256 list" where
  "keys_from A V r pages k j = drop j (page_entries A V r (pages ! k)) @ concat (map (page_entries A V r) (drop (Suc k) pages))"

text \<open>Removing one key from a page.\<close>

lemma erase_index_mset:
  assumes "x \<in> set sv"
  shows "mset (erase_index b x sv) = mset sv - {#x#}"
proof (cases "length sv > 1 \<and> \<not> b")
  case True
  define i where "i = length (takeWhile (\<lambda>y. y \<noteq> x) sv)"
  obtain ys zs where s: "sv = ys @ x # zs" "x \<notin> set ys" using split_list_first [OF assms] by blast
  then have "takeWhile (\<lambda>y. y \<noteq> x) sv = ys" by (simp add: takeWhile_eq_all_conv [THEN iffD2] takeWhile_append)
  then have i: "i < length sv" "sv ! i = x" using s(1) by (simp_all add: i_def)
  have ne: "sv \<noteq> []" using assms by auto
  define t where "t = sv[i := last sv]"
  have t: "t \<noteq> []" "last t = last sv"
    using ne i by (auto simp: t_def last_list_update)
  have "mset t = mset sv - {#x#} + {#last sv#}" using mset_update [OF i(1), of "last sv"] i(2) by (simp add: t_def)
  moreover have "mset t = mset (butlast t) + {#last t#}" using t(1) by (metis append_butlast_last_id mset.simps mset_append)
  ultimately have "mset (butlast t) = mset sv - {#x#}" using t(2) by simp
  then show ?thesis using True by (simp add: erase_index_def t_def i_def)
next
  case False
  moreover have "sv = [x]" if "\<not> length sv > 1" using assms that by (cases sv) auto
  ultimately show ?thesis by (auto simp: erase_index_def)
qed

lemma erase_index_stable:
  assumes "x \<in> set sv"
  obtains ys zs where "sv = ys @ x # zs" "erase_index True x sv = ys @ zs"
proof -
  obtain ys zs where s: "sv = ys @ x # zs" "x \<notin> set ys" using split_list_first [OF assms] by blast
  then have "erase_index True x sv = ys @ zs" by (simp add: erase_index_def remove1_append)
  with s show ?thesis using that by blast
qed

lemma erase_index_length: "length (erase_index b x sv) \<le> length sv"
  by (simp add: erase_index_def length_remove1)

text \<open>Taking an empty page out of the middle of the chain.\<close>

lemma unlink_page:
  assumes dir: "is_dir A V r pages" and k: "0 < k" "Suc k < length pages"
    and p: "V (dirNode A r (pages ! (k - 1))) = Some ep" and n: "V (dirNode A r (pages ! Suc k)) = Some en"
    and e: "page_entries A V r (pages ! k) = []"
    and V': "V' = V(dirNode A r (pages ! (k - 1)) \<mapsto> put sfIndexNext (STUInt64 (pages ! Suc k)) ep,
      dirNode A r (pages ! Suc k) \<mapsto> put sfIndexPrevious (STUInt64 (pages ! (k - 1))) en, dirNode A r (pages ! k) := None)"
    and pages': "pages' = take k pages @ drop (Suc k) pages"
  shows "is_dir A V' r pages' \<and> dir_entries A V' r pages' = dir_entries A V r pages"
proof -
  define pos where "pos j = (if j < k then j else Suc j)" for j
  have len: "length pages' = length pages - 1" using k by (simp add: pages')
  have nth: "pages' ! j = pages ! pos j" "pos j < length pages" "pos j \<noteq> k" if "j < length pages'" for j
    using that k by (auto simp: pages' pos_def nth_append)
  have idx: "dirNode A r (pages ! i) = dirNode A r (pages ! j) \<longleftrightarrow> i = j" if "i < length pages" "j < length pages" for i j
    by (rule is_dir_nth_inj [OF dir that])
  have last: "last pages' = last pages" using k by (simp add: pages' last_append last_drop)
  have nxt: "next_of pages' j = (if pos j = k - 1 then pages ! Suc k else next_of pages (pos j))" if "j < length pages'" for j
    using that k len nth(1) [of "Suc j"] by (auto simp: next_of_def pos_def)
  have prv: "prev_of pages' j = (if pos j = Suc k then pages ! (k - 1) else prev_of pages (pos j))" if "j < length pages'" for j
    using that k len nth(1) [of "j - 1"] by (auto simp: prev_of_def pos_def last split: if_splits)
  have at: "\<exists>e'. V' (dirNode A r (pages' ! j)) = Some e' \<and> page_ok (next_of pages' j) (prev_of pages' j) e' \<and>
      valV256 sfIndexes e' = page_entries A V r (pages' ! j)" if j: "j < length pages'" for j
  proof -
    note i = nth [OF j]
    obtain ei where ei: "V (dirNode A r (pages ! pos j)) = Some ei" "page_ok (next_of pages (pos j)) (prev_of pages (pos j)) ei"
      by (rule is_dirD [OF dir i(2)])
    have d: "dirNode A r (pages ! pos j) \<noteq> dirNode A r (pages ! k)"
      "dirNode A r (pages ! pos j) = dirNode A r (pages ! (k - 1)) \<longleftrightarrow> pos j = k - 1"
      "dirNode A r (pages ! pos j) = dirNode A r (pages ! Suc k) \<longleftrightarrow> pos j = Suc k"
      using idx [OF i(2), of k] idx [OF i(2), of "k - 1"] idx [OF i(2), of "Suc k"] i(3) k by auto
    then show ?thesis
      using ei p n unfolding nxt [OF j] prv [OF j] i(1) V' by (auto simp: page_ok_def page_entries_def)
  qed
  have sub: "set pages' \<subseteq> set pages" by (auto simp: pages' dest: in_set_takeD in_set_dropD)
  have "sorted_wrt (<) pages'" "inj_on (dirNode A r) (set pages')" "pages' \<noteq> []" "hd pages' = 0"
  proof -
    have s: "sorted_wrt (<) (take k pages @ pages ! k # drop (Suc k) pages)"
      using dir k id_take_nth_drop [of k pages] by (simp add: is_dir_def)
    then show "sorted_wrt (<) pages'" by (simp add: pages' sorted_wrt_append)
    show "inj_on (dirNode A r) (set pages')" using dir sub by (auto simp: is_dir_def intro: inj_on_subset)
    show "pages' \<noteq> []" using k by (simp add: pages')
    show "hd pages' = 0" using dir k is_dir_root [OF dir] by (cases pages; cases k) (auto simp: pages' is_dir_def)
  qed
  then have "is_dir A V' r pages'" using at unfolding is_dir_def by blast
  moreover have "page_entries A V' r q = page_entries A V r q" if "q \<in> set pages'" for q
    using that at by (fastforce simp: in_set_conv_nth page_entries_def)
  then have "dir_entries A V' r pages' = dir_entries A V r pages'" by (rule dir_entries_cong)
  moreover have "dir_entries A V r pages' = dir_entries A V r pages"
    using e k by (subst (2) dir_entries_split [of k]) (simp_all add: pages' dir_entries_def)
  ultimately show ?thesis by simp
qed

lemma pages_left_same: "is_dir A V r pages \<Longrightarrow> pages_left A r pages V V pages"
  by (simp add: pages_left_def dir_or_none_def is_dir_def)

lemma dir_entries_Nil [simp]: "dir_entries A V r [] = []"
  by (simp add: dir_entries_def)

lemma pages_left_none:
  assumes "V' = (\<lambda>i. if i \<in> dirNode A r ` set pages then None else V i)" "0 \<in> set pages"
  shows "pages_left A r pages V V' []"
proof -
  have "r \<in> dirNode A r ` set pages" using assms(2) by (metis dirNode_0 image_eqI)
  then show ?thesis using assms(1) by (auto simp: pages_left_def dir_or_none_def)
qed

lemma two_pages:
  assumes "is_dir A V r pages" "length pages = 2"
  shows "pages = [0, pages ! 1]" "pages ! 1 \<noteq> 0" "dirNode A r (pages ! 1) \<noteq> r"
proof -
  show p: "pages = [0, pages ! 1]" using assms is_dir_root [OF assms(1)] by (cases pages) (auto simp: length_Suc_conv)
  show "pages ! 1 \<noteq> 0" using is_dir_pos [OF assms(1), of 1] assms(2) by simp
  show "dirNode A r (pages ! 1) \<noteq> r"
    using is_dir_nth_inj [OF assms(1), of 1 0] assms(2) is_dir_root [OF assms(1)] by simp
qed

text \<open>
  A page that has just been emptied, by its place in the chain. In each case the pages that stay
  form a chain with the same keys.
\<close>

lemma emptied_links:
  assumes "st s V L M P R" "is_dir A V r pages" "k < length pages" "V (dirNode A r (pages ! k)) = Some e"
  shows "getFieldU64 sfIndexNext e = Inr (next_of pages k)" "getFieldU64 sfIndexPrevious e = Inr (prev_of pages k)"
    "getFieldV256 sfIndexes e = Inr (valV256 sfIndexes e)"
proof -
  have "page_ok (next_of pages k) (prev_of pages k) e" using is_dirD [OF assms(2,3)] assms(4) by auto
  from page_fields [OF this] st_view [OF assms(1,4)]
  show "getFieldU64 sfIndexNext e = Inr (next_of pages k)" "getFieldU64 sfIndexPrevious e = Inr (prev_of pages k)"
    "getFieldV256 sfIndexes e = Inr (valV256 sfIndexes e)" by auto
qed

lemma page_zero: "is_dir A V r pages \<Longrightarrow> j < length pages \<Longrightarrow> pages ! j = 0 \<longleftrightarrow> j = 0"
  using is_dir_pos [of A V r pages j] is_dir_root [of A V r pages] by (cases "j = 0") auto

lemma two_pages_emptied:
  assumes "is_dir A V r pages" "length pages = 2" "page_entries A V r (pages ! 0) = []" "page_entries A V r (pages ! 1) = []"
  shows "dir_entries A V r pages = [] \<and> dirNode A r ` set pages = {r, dirNode A r (pages ! 1)}"
proof -
  have "pages = [0, pages ! 1]" by (rule two_pages(1) [OF assms(1,2)])
  then obtain b where "pages = [0, b]" by blast
  with assms(3,4) show ?thesis by (simp add: dir_entries_def)
qed

lemma emptied_gone:
  assumes "is_dir A V r pages" "st s' (\<lambda>i. if i \<in> dirNode A r ` set pages then None else V i) L' M' {} R"
    "dir_entries A V r pages = []"
    and Q: "\<And>s' V' L' M' pages'. st s' V' L' M' {} R \<Longrightarrow> pages_left A r pages V V' pages' \<Longrightarrow>
      dir_entries A V' r pages' = dir_entries A V r pages \<Longrightarrow> Q tesSUCCESS s'"
  shows "Q tesSUCCESS s'"
proof (rule Q [OF assms(2)])
  show "pages_left A r pages V (\<lambda>i. if i \<in> dirNode A r ` set pages then None else V i) []"
    by (rule pages_left_none [OF refl]) (use is_dir_root [OF assms(1)] in \<open>metis nth_mem\<close>)
qed (simp add: assms(3))

lemma emptied_only:
  assumes st: "st s V L M {} R" and dir: "is_dir A V r pages" and k: "k < length pages"
    and e: "V (dirNode A r (pages ! k)) = Some e" "valV256 sfIndexes e = []" and l: "dirNode A r (pages ! k) \<in> L"
    and Q: "\<And>s' V' L' M' pages'. st s' V' L' M' {} R \<Longrightarrow> pages_left A r pages V V' pages' \<Longrightarrow>
      dir_entries A V' r pages' = dir_entries A V r pages \<Longrightarrow> Q tesSUCCESS s'"
    and only: "length pages = 1" "k = 0"
  shows "runs (dirDelete_emptied A keep (pages ! k) r (Some (dirNode A r (pages ! k)))) s Q"
proof -
  note pf = emptied_links [OF st dir k e(1)]
  note pos = page_zero [OF dir] and rt = is_dir_root [OF dir]
  have gone: "Q tesSUCCESS s'" if "st s' V' L' M' {} R" "V' = (\<lambda>i. if i \<in> dirNode A r ` set pages then None else V i)"
    "dir_entries A V r pages = []" for s' V' L' M'
    by (rule emptied_gone [where Q = Q, OF dir that(1)[unfolded that(2)] that(3)]) (rule Q)
  have pe: "page_entries A V r (pages ! k) = []" using e by (simp add: page_entries_def)
  have p: "pages = [0]" using rt only by (cases pages) auto
  show ?thesis
    unfolding dirDelete_emptied_def runs_bind
    apply (rule runs_field, rule st, rule l, rule e(1), rule pf(2))
    apply (rule runs_field, rule st, rule l, rule e(1), rule pf(1))
    using only apply (simp add: p prev_of_def runs_bind)
    apply (rule runs_delete, rule st)
    using l only p apply simp
    apply simp
    apply (rule gone, assumption)
    using pe p only apply (auto simp: fun_eq_iff dir_entries_def)
    done
qed

lemma emptied_root:
  assumes st: "st s V L M {} R" and dir: "is_dir A V r pages" and k: "k < length pages"
    and e: "V (dirNode A r (pages ! k)) = Some e" "valV256 sfIndexes e = []" and l: "dirNode A r (pages ! k) \<in> L"
    and Q: "\<And>s' V' L' M' pages'. st s' V' L' M' {} R \<Longrightarrow> pages_left A r pages V V' pages' \<Longrightarrow>
      dir_entries A V' r pages' = dir_entries A V r pages \<Longrightarrow> Q tesSUCCESS s'"
    and root: "1 < length pages" "k = 0"
  shows "runs (dirDelete_emptied A keep (pages ! k) r (Some (dirNode A r (pages ! k)))) s Q"
proof -
  note pf = emptied_links [OF st dir k e(1)]
  note pos = page_zero [OF dir] and rt = is_dir_root [OF dir]
  have stay: "Q tesSUCCESS s'" if "st s' V L' M' {} R" for s' L' M'
    by (rule Q [OF that pages_left_same [OF dir] refl])
  have gone: "Q tesSUCCESS s'" if "st s' V' L' M' {} R" "V' = (\<lambda>i. if i \<in> dirNode A r ` set pages then None else V i)"
    "dir_entries A V r pages = []" for s' V' L' M'
    by (rule emptied_gone [where Q = Q, OF dir that(1)[unfolded that(2)] that(3)]) (rule Q)
  have pe: "page_entries A V r (pages ! k) = []" using e by (simp add: page_entries_def)
  have ne: "pages \<noteq> []" using rt by auto
  have last: "last pages \<noteq> 0" using pos [of "length pages - 1"] root(1) by (simp add: last_nth [OF ne])
  show ?thesis
  proof (cases "keep \<or> last pages \<noteq> pages ! 1")
    case True
    show ?thesis
      unfolding dirDelete_emptied_def runs_bind
      apply (rule runs_field, rule st, rule l, rule e(1), rule pf(2))
      apply (rule runs_field, rule st, rule l, rule e(1), rule pf(1))
      using root True last conjunct1 [OF rt] apply (auto simp: prev_of_def next_of_def intro: stay [OF st])
      done
  next
    case False
    have "length pages - 1 < length pages" using root(1) by simp
    from is_dir_nth_inj [OF dir this root(1)] have "length pages - 1 = 1" using False by (simp add: last_nth [OF ne])
    then have len: "length pages = 2" by simp
    obtain e1 where e1: "V (dirNode A r (pages ! Suc 0)) = Some e1" "page_ok (next_of pages 1) (prev_of pages 1) e1"
      using is_dirD [OF dir root(1)] by (metis One_nat_def)
    note pf1 = page_fields [OF e1(2) conjunct2 [OF conjunct2 [OF st_view [OF st e1(1)]]]]
    note t2 = two_pages [OF dir len]
    show ?thesis
      unfolding dirDelete_emptied_def runs_bind
      apply (rule runs_field, rule st, rule l, rule e(1), rule pf(2))
      apply (rule runs_field, rule st, rule l, rule e(1), rule pf(1))
      using root False last conjunct1 [OF rt] apply (simp add: prev_of_def next_of_def runs_bind)
      apply (rule runs_cache, rule st)
      apply (simp add: e1(1))
      apply (rule runs_field, assumption, simp, rule e1(1), rule pf1(3))
      apply (cases "valV256 sfIndexes e1 = []")
       apply (simp add: runs_bind)
       apply (rule runs_delete, assumption)
      using l conjunct1 [OF rt] root apply simp
       apply (rule runs_delete, assumption)
      using t2 apply simp
       apply simp
       apply (rule gone, assumption)
      using two_pages_emptied [OF dir len] pe root e1(1) apply (auto simp: fun_eq_iff page_entries_def)[2]
      apply simp
      apply (rule stay, assumption)
      done
  qed
qed

lemma emptied_middle:
  assumes st: "st s V L M {} R" and dir: "is_dir A V r pages" and k: "k < length pages"
    and e: "V (dirNode A r (pages ! k)) = Some e" "valV256 sfIndexes e = []" and l: "dirNode A r (pages ! k) \<in> L"
    and Q: "\<And>s' V' L' M' pages'. st s' V' L' M' {} R \<Longrightarrow> pages_left A r pages V V' pages' \<Longrightarrow>
      dir_entries A V' r pages' = dir_entries A V r pages \<Longrightarrow> Q tesSUCCESS s'"
    and mid: "0 < k" "Suc k < length pages"
  shows "runs (dirDelete_emptied A keep (pages ! k) r (Some (dirNode A r (pages ! k)))) s Q"
proof -
  note pf = emptied_links [OF st dir k e(1)]
  note pos = page_zero [OF dir] and rt = is_dir_root [OF dir]
  have pe: "page_entries A V r (pages ! k) = []" using e by (simp add: page_entries_def)
  obtain q where q: "k = Suc q" using mid(1) by (cases k) auto
  have kk: "q < length pages" using k q by simp
  obtain ep where ep: "V (dirNode A r (pages ! q)) = Some ep" "page_ok (next_of pages q) (prev_of pages q) ep"
    by (rule is_dirD [OF dir kk])
  obtain en where en: "V (dirNode A r (pages ! Suc k)) = Some en" "page_ok (next_of pages (Suc k)) (prev_of pages (Suc k)) en"
    by (rule is_dirD [OF dir mid(2)])
  have ne: "dirNode A r (pages ! q) \<noteq> dirNode A r (pages ! Suc k)" "dirNode A r (pages ! q) \<noteq> dirNode A r (pages ! k)"
    "dirNode A r (pages ! Suc k) \<noteq> dirNode A r (pages ! k)"
    using is_dir_nth_inj [OF dir kk mid(2)] is_dir_nth_inj [OF dir kk k] is_dir_nth_inj [OF dir mid(2) k] q by auto
  have h: "hasField sfIndexNext ep" "hasField sfIndexPrevious en"
    using hasField_dir [of ep] hasField_dir [of en] ep(2) en(2) by (simp_all add: page_ok_def)
  have k0: "pages ! k \<noteq> 0" "pages ! Suc k \<noteq> 0" using pos [OF k] pos [OF mid(2)] mid(1) by auto
  have links: "next_of pages k = pages ! Suc k" "prev_of pages k = pages ! q" using mid q by (simp_all add: next_of_def prev_of_def)
  define pages' where "pages' = take k pages @ drop (Suc k) pages"
  define V' where "V' = V(dirNode A r (pages ! q) \<mapsto> put sfIndexNext (STUInt64 (pages ! Suc k)) ep,
    dirNode A r (pages ! Suc k) \<mapsto> put sfIndexPrevious (STUInt64 (pages ! q)) en, dirNode A r (pages ! k) := None)"
  have u: "is_dir A V' r pages' \<and> dir_entries A V' r pages' = dir_entries A V r pages"
    by (rule unlink_page [OF dir mid]) (use ep(1) en(1) pe q in \<open>simp_all add: V'_def pages'_def\<close>)
  have split: "set pages = insert (pages ! k) (set pages')"
    by (subst id_take_nth_drop [OF k]) (simp add: pages'_def)
  have in_set: "pages ! q \<in> set pages" "pages ! Suc k \<in> set pages" using kk mid(2) by simp_all
  have "\<forall>n \<in> set pages - set pages'. V' (dirNode A r n) = None" using split by (auto simp: V'_def)
  moreover have "V' i = V i" if "i \<notin> dirNode A r ` set pages" for i
  proof -
    have "i \<noteq> dirNode A r (pages ! q)" "i \<noteq> dirNode A r (pages ! Suc k)" "i \<noteq> dirNode A r (pages ! k)"
      using that in_set nth_mem [OF k] by auto
    then show ?thesis by (simp add: V'_def)
  qed
  ultimately have left: "pages_left A r pages V V' pages'"
    using u split unfolding pages_left_def dir_or_none_def by (simp add: is_dir_def) blast
  show ?thesis
    unfolding dirDelete_emptied_def runs_bind
    apply (rule runs_field, rule st, rule l, rule e(1), rule pf(2))
    apply (rule runs_field, rule st, rule l, rule e(1), rule pf(1))
    apply (simp add: k0 links runs_bind setFieldU64_def)
    apply (rule runs_cache, rule st)
    apply (simp add: ep(1))
    apply (rule runs_cache, assumption)
    apply (simp add: en(1) runs_bind links setFieldU64_def)
    apply (rule runs_put_modify, assumption, simp, rule ep(1), rule h(1), simp)
    apply (rule runs_put_modify, assumption, simp, simp add: ne [symmetric] en(1), rule h(2), simp)
    apply (rule runs_delete, assumption, use l in simp)
    apply (simp add: V'_def [symmetric])
    apply (rule Q, assumption, rule left, use u in simp)
    done
qed

lemma emptied_last:
  assumes st: "st s V L M {} R" and dir: "is_dir A V r pages" and k: "k < length pages"
    and e: "V (dirNode A r (pages ! k)) = Some e" "valV256 sfIndexes e = []" and l: "dirNode A r (pages ! k) \<in> L"
    and Q: "\<And>s' V' L' M' pages'. st s' V' L' M' {} R \<Longrightarrow> pages_left A r pages V V' pages' \<Longrightarrow>
      dir_entries A V' r pages' = dir_entries A V r pages \<Longrightarrow> Q tesSUCCESS s'"
    and lst: "0 < k" "Suc k = length pages"
  shows "runs (dirDelete_emptied A keep (pages ! k) r (Some (dirNode A r (pages ! k)))) s Q"
proof -
  note pf = emptied_links [OF st dir k e(1)]
  note pos = page_zero [OF dir] and rt = is_dir_root [OF dir]
  have stay: "Q tesSUCCESS s'" if "st s' V L' M' {} R" for s' L' M'
    by (rule Q [OF that pages_left_same [OF dir] refl])
  have gone: "Q tesSUCCESS s'" if "st s' V' L' M' {} R" "V' = (\<lambda>i. if i \<in> dirNode A r ` set pages then None else V i)"
    "dir_entries A V r pages = []" for s' V' L' M'
    by (rule emptied_gone [where Q = Q, OF dir that(1)[unfolded that(2)] that(3)]) (rule Q)
  have pe: "page_entries A V r (pages ! k) = []" using e by (simp add: page_entries_def)
  have k0: "pages ! k \<noteq> 0" using pos [OF k] lst by auto
  have nx: "next_of pages k = 0" using lst by (simp add: next_of_def)
  show ?thesis
  proof (cases "keep \<or> prev_of pages k \<noteq> 0")
    case True
    show ?thesis
      unfolding dirDelete_emptied_def runs_bind
      apply (rule runs_field, rule st, rule l, rule e(1), rule pf(2))
      apply (rule runs_field, rule st, rule l, rule e(1), rule pf(1))
      using True k0 nx apply (auto intro: stay [OF st])
      done
  next
    case False
    have "k - 1 < length pages" using k by simp
    from pos [OF this] have "k - 1 = 0" using False lst by (simp add: prev_of_def)
    then have len: "length pages = 2" "k = 1" using lst by linarith+
    note t2 = two_pages [OF dir len(1)]
    obtain er where er: "V r = Some er" "page_ok (next_of pages 0) (prev_of pages 0) er"
      using is_dirD [OF dir conjunct2 [OF rt]] conjunct1 [OF rt] by (metis dirNode_0)
    note pfr = page_fields [OF er(2) conjunct2 [OF conjunct2 [OF st_view [OF st er(1)]]]]
    show ?thesis
      unfolding dirDelete_emptied_def runs_bind
      apply (rule runs_field, rule st, rule l, rule e(1), rule pf(2))
      apply (rule runs_field, rule st, rule l, rule e(1), rule pf(1))
      using False k0 nx apply (simp add: runs_bind)
      apply (rule runs_cache, rule st)
      apply (simp add: er(1))
      apply (rule runs_field, assumption, simp, rule er(1), rule pfr(3))
      apply (cases "valV256 sfIndexes er = []")
       apply (simp add: runs_bind)
       apply (rule runs_delete, assumption, simp)
       apply (rule runs_delete, assumption)
      using t2 l len apply simp
       apply simp
       apply (rule gone, assumption)
      using two_pages_emptied [OF dir len(1)] pe len er(1) conjunct1 [OF rt] apply (auto simp: fun_eq_iff page_entries_def)[2]
      apply simp
      apply (rule stay, assumption)
      done
  qed
qed

lemma emptied_spec:
  assumes st: "st s V L M {} R" and dir: "is_dir A V r pages" and k: "k < length pages"
    and e: "V (dirNode A r (pages ! k)) = Some e" "valV256 sfIndexes e = []" and l: "dirNode A r (pages ! k) \<in> L"
    and Q: "\<And>s' V' L' M' pages'. st s' V' L' M' {} R \<Longrightarrow> pages_left A r pages V V' pages' \<Longrightarrow>
      dir_entries A V' r pages' = dir_entries A V r pages \<Longrightarrow> Q tesSUCCESS s'"
  shows "runs (dirDelete_emptied A keep (pages ! k) r (Some (dirNode A r (pages ! k)))) s Q"
proof -
  consider (only) "length pages = 1" "k = 0" | (root) "1 < length pages" "k = 0"
    | (mid) "0 < k" "Suc k < length pages" | (lst) "0 < k" "Suc k = length pages" using k by linarith
  then show ?thesis
    by cases (rule emptied_only emptied_root emptied_middle emptied_last; (rule assms)?; assumption)+
qed

lemmas dirDelete_fun = ext [OF dirDelete.simps]

lemma pages_left_frame:
  assumes "pages_left A r pages V1 V' pages'" "\<And>i. i \<notin> dirNode A r ` set pages \<Longrightarrow> V1 i = V i"
  shows "pages_left A r pages V V' pages'"
  using assms by (simp add: pages_left_def)

lemma remove_spec:
  assumes s: "les_ok s" and dir: "is_dir A (view s) r pages" and n: "n \<in> set pages"
    and x: "x \<in> set (page_entries A (view s) r n)"
  shows "runs (dirDelete A keep n r x bStable soft) s (\<lambda>ter s'. ter = tesSUCCESS \<and> dir_removed A r x bStable pages s s')"
proof -
  obtain k where k: "k < length pages" "n = pages ! k" using n by (auto simp: in_set_conv_nth)
  let ?V = "view s" and ?i = "dirNode A r (pages ! k)"
  obtain e where e: "?V ?i = Some e" "page_ok (next_of pages k) (prev_of pages k) e" by (rule is_dirD [OF dir k(1)])
  note st = s [unfolded les_ok_st]
  note f = emptied_links(3) [OF st dir k(1) e(1)]
  define sv where "sv = valV256 sfIndexes e"
  define sv' where "sv' = erase_index bStable x sv"
  have x': "x \<in> set sv" using x k(2) e(1) by (simp add: page_entries_def sv_def)
  have h: "hasField sfIndexes e" using e(2) by (simp add: page_ok_def hasField_dir)
  define V1 where "V1 = ?V(?i \<mapsto> put sfIndexes (STVector256 sv') e)"
  have "length sv' \<le> DIR_NODE_MAX"
    using e(2) erase_index_length [of bStable x sv] by (simp add: sv'_def sv_def page_ok_def)
  from update_page [OF dir k(1) e(1) this V1_def]
  have d1: "is_dir A V1 r pages" and pe: "\<forall>j < length pages. page_entries A V1 r (pages ! j) =
      (if j = k then sv' else page_entries A ?V r (pages ! j))" by auto
  let ?a = "concat (map (page_entries A ?V r) (take k pages))" and ?b = "concat (map (page_entries A ?V r) (drop (Suc k) pages))"
  have ents: "dir_entries A ?V r pages = ?a @ sv @ ?b" "dir_entries A V1 r pages = ?a @ sv' @ ?b"
    using dir_entries_split [OF k(1), of A ?V r] e(1) dir_entries_update [OF k(1) pe] by (simp_all add: page_entries_def sv_def)
  have ms: "mset (dir_entries A V1 r pages) = mset (dir_entries A ?V r pages) - {#x#}"
    unfolding ents by (simp add: sv'_def erase_index_mset [OF x'] multiset_eq_iff x' in_multiset_in_set not_in_iff [symmetric] count_greater_zero_iff)
  have stab: "\<exists>ys zs. dir_entries A ?V r pages = ys @ x # zs \<and> dir_entries A V1 r pages = ys @ zs" if b: "bStable"
  proof -
    obtain ys zs where "sv = ys @ x # zs" "sv' = ys @ zs" using erase_index_stable [OF x'] b by (auto simp: sv'_def)
    then show ?thesis unfolding ents by (intro exI [of _ "?a @ ys"] exI [of _ "zs @ ?b"]) simp
  qed
  have out: "V1 i = ?V i" if "i \<notin> dirNode A r ` set pages" for i
    using that nth_mem [OF k(1)] by (auto simp: V1_def)
  have removed: "dir_removed A r x bStable pages s s'"
    if "st s' V' L' M' {} (rest s)" "pages_left A r pages V1 V' pages'" "dir_entries A V' r pages' = dir_entries A V1 r pages" for s' V' L' M' pages'
    using st_les_ok [OF that(1)] pages_left_frame [OF that(2) out] that(3) ms stab unfolding dir_removed_def by auto
  have same: "x \<in> set (valV256 sfIndexes e)" using x' by (simp add: sv_def)
  show ?thesis
    apply (subst dirDelete_fun)
    unfolding runs_bind k(2)
    apply (rule runs_cache, rule st)
    apply (simp add: e(1) runs_bind)
    apply (rule runs_field, assumption, simp, rule e(1), rule f)
    apply (simp add: x' runs_bind Let_def setFieldV256_def sv_def [symmetric] sv'_def [symmetric] split del: if_split)
    apply (rule runs_put_modify, assumption, simp, rule e(1), rule h, simp)
    apply (simp add: V1_def [symmetric])
    apply (cases "sv' = []")
     apply simp
     apply (rule emptied_spec, assumption, rule d1, rule k(1))
        apply (simp add: V1_def)
       apply simp
      apply simp
     apply (intro conjI refl, rule removed, assumption, assumption, assumption)
    apply simp
    apply (rule removed, assumption, rule pages_left_same [OF d1], rule refl)
    done
qed

lemma st_field: "st s V L M P R \<Longrightarrow> i \<in> L \<Longrightarrow> V i = Some x \<Longrightarrow> get x = Inr v \<Longrightarrow> fieldM get (Some i) s = Inr (v, s)"
  by (erule (1) st_entry) (simp add: fieldM_def deref_def bindM_def liftM_def)

lemma st_cache:
  assumes "st s V L M P R" "V i = Some x"
  obtains s' where "entryCache i s = Inr (Some i, s')" "st s' V (insert i L) M P R"
  using runsE [OF runs_cache [OF assms(1), where i = i and Q = "\<lambda>p s'. p = Some i \<and> st s' V (insert i L) M P R"]] assms(2) by auto

lemma page_entries_small: "is_dir A V r pages \<Longrightarrow> k < length pages \<Longrightarrow> length (page_entries A V r (pages ! k)) \<le> 32"
  by (erule (1) is_dirD) (simp add: page_entries_def page_ok_def DIR_NODE_MAX_def)

lemma next_spec:
  assumes "st s V L M {} R" "is_dir A V r pages" "k < length pages" "dirNode A r (pages ! k) \<in> L"
    "j \<le> length (page_entries A V r (pages ! k))"
  shows "\<exists>s' L' k' j'. st s' V L' M {} R \<and>
    dirNext A r (Some (dirNode A r (pages ! k))) (of_nat j) x s =
      Some (Inr (if keys_from A V r pages k j = [] then (False, Some (dirNode A r (pages ! k')), of_nat j', 0)
                 else (True, Some (dirNode A r (pages ! k')), of_nat (Suc j'), hd (keys_from A V r pages k j)), s')) \<and>
    (keys_from A V r pages k j \<noteq> [] \<longrightarrow> k' < length pages \<and> dirNode A r (pages ! k') \<in> L' \<and>
      Suc j' \<le> length (page_entries A V r (pages ! k')) \<and> keys_from A V r pages k' (Suc j') = tl (keys_from A V r pages k j))"
  using assms
proof (induction "length pages - k" arbitrary: s L k j)
  case (Suc d)
  note st = Suc.prems(1) and dir = Suc.prems(2) and k = Suc.prems(3) and l = Suc.prems(4) and j = Suc.prems(5)
  obtain e where e: "V (dirNode A r (pages ! k)) = Some e" by (rule is_dirD [OF dir k])
  note f = emptied_links [OF st dir k e]
  note sv = st_field [where get = "getFieldV256 sfIndexes", OF st l e f(3)]
    and nx = st_field [where get = "getFieldU64 sfIndexNext", OF st l e f(1)]
  have pe: "page_entries A V r (pages ! k) = valV256 sfIndexes e" using e by (simp add: page_entries_def)
  have u: "unat (of_nat j :: u32) = j" using j page_entries_small [OF dir k] by (simp add: unat_of_nat take_bit_nat_eq_self)
  show ?case
  proof (cases "j < length (valV256 sfIndexes e)")
    case True
    then have "keys_from A V r pages k j = valV256 sfIndexes e ! j # keys_from A V r pages k (Suc j)"
      by (simp add: keys_from_def pe Cons_nth_drop_Suc [symmetric])
    with True st k l show ?thesis
      apply -
      apply (rule exI [of _ s], rule exI [of _ L], rule exI [of _ k], rule exI [of _ j])
      apply (subst dirNext.simps)
      apply (auto simp: sv u pe add.commute)
      done
  next
    case False
    then have jj: "j = length (page_entries A V r (pages ! k))" using j pe by simp
    show ?thesis
    proof (cases "Suc k < length pages")
      case False
      then have "keys_from A V r pages k j = []" "next_of pages k = 0" using jj by (simp_all add: keys_from_def next_of_def)
      then show ?thesis
        using \<open>\<not> j < _\<close> st by (subst dirNext.simps) (auto simp: sv nx u)
    next
      case True
      obtain e' where e': "V (dirNode A r (pages ! Suc k)) = Some e'" by (rule is_dirD [OF dir True])
      obtain s' where s': "entryCache (dirNode A r (pages ! Suc k)) s = Inr (Some (dirNode A r (pages ! Suc k)), s')"
        "st s' V (insert (dirNode A r (pages ! Suc k)) L) M {} R" by (rule st_cache [OF st e'])
      have n0: "next_of pages k = pages ! Suc k" "pages ! Suc k \<noteq> 0"
        using True is_dir_pos [OF dir _ True] by (simp_all add: next_of_def)
      have eq: "keys_from A V r pages (Suc k) 0 = keys_from A V r pages k j"
        using True by (simp add: keys_from_def jj Cons_nth_drop_Suc [symmetric])
      have step: "dirNext A r (Some (dirNode A r (pages ! k))) (of_nat j) x s =
          dirNext A r (Some (dirNode A r (pages ! Suc k))) (of_nat 0) x s'"
        using \<open>\<not> j < _\<close> n0 by (subst dirNext.simps) (simp add: sv nx u s'(1))
      have d: "d = length pages - Suc k" using Suc.hyps(2) by simp
      show ?thesis
        unfolding step eq [symmetric] by (rule Suc.hyps(1) [OF d s'(2) dir True]) simp_all
    qed
  qed
qed simp

lemma walk_spec:
  assumes "st s V L M {} R" "is_dir A V r pages" "k < length pages" "dirNode A r (pages ! k) \<in> L"
    "j \<le> length (page_entries A V r (pages ! k))"
  shows "\<exists>s' L'. st s' V L' M {} R \<and> dir_walk A r (Some (dirNode A r (pages ! k))) (of_nat j) x s = Some (Inr (keys_from A V r pages k j, s'))"
  using assms
proof (induction "length (keys_from A V r pages k j)" arbitrary: s L k j x)
  case 0
  then have "keys_from A V r pages k j = []" by simp
  with next_spec [OF 0(2-6), of x] show ?case by (subst dir_walk.simps) auto
next
  case (Suc d)
  obtain s' L' k' j' where n: "st s' V L' M {} R" "k' < length pages" "dirNode A r (pages ! k') \<in> L'"
      "Suc j' \<le> length (page_entries A V r (pages ! k'))" "keys_from A V r pages k' (Suc j') = tl (keys_from A V r pages k j)"
    and eq: "dirNext A r (Some (dirNode A r (pages ! k))) (of_nat j) x s =
      Some (Inr ((True, Some (dirNode A r (pages ! k')), of_nat (Suc j'), hd (keys_from A V r pages k j)), s'))"
    using next_spec [OF Suc.prems, of x] Suc.hyps(2) by (auto split: if_splits)
  have "d = length (keys_from A V r pages k' (Suc j'))" using Suc.hyps(2) n(5) by simp
  from Suc.hyps(1) [OF this n(1) Suc.prems(2) n(2-4)] obtain s'' L'' where
    "st s'' V L'' M {} R" "dir_walk A r (Some (dirNode A r (pages ! k'))) (of_nat (Suc j')) (hd (keys_from A V r pages k j)) s' =
      Some (Inr (keys_from A V r pages k' (Suc j'), s''))" by blast
  then show ?case using eq n(5) Suc.hyps(2) by (subst dir_walk.simps) (cases "keys_from A V r pages k j", auto)
qed

lemma dir_all_walk:
  assumes "entryCache r s = Inr (p, s')"
  shows "dir_all A r s = dir_walk A r p 0 0 s'"
  unfolding dir_all_def dirFirst_def by (subst dir_walk.simps) (simp add: assms)

lemma dir_all_spec:
  assumes "les_ok s" "is_dir A (view s) r pages"
  shows "\<exists>s'. dir_all A r s = Some (Inr (dir_entries A (view s) r pages, s')) \<and> les_ok s' \<and> view s' = view s \<and> rest s' = rest s"
proof -
  have rt: "pages ! 0 = 0" "0 < length pages" using is_dir_root [OF assms(2)] by simp_all
  obtain e where e: "view s r = Some e" using is_dirD [OF assms(2) rt(2)] rt(1) by (metis dirNode_0)
  obtain s1 where s1: "entryCache r s = Inr (Some r, s1)" "st s1 (view s) (insert r {}) {} {} (rest s)"
    by (rule st_cache [OF assms(1)[unfolded les_ok_st] e])
  have "keys_from A (view s) r pages 0 0 = dir_entries A (view s) r pages"
    using dir_entries_split [OF rt(2), of A "view s" r] by (simp add: keys_from_def)
  with walk_spec [OF s1(2) assms(2) rt(2), of 0 0] rt(1) obtain s' L' where
    "st s' (view s) L' {} {} (rest s)" "dir_walk A r (Some r) 0 0 s1 = Some (Inr (dir_entries A (view s) r pages, s'))"
    by auto
  then show ?thesis using dir_all_walk [OF s1(1), of A] st_les_ok by fastforce
qed

lemma count_spec:
  assumes "st s V L M {} R" "is_dir A V r pages" "k < length pages"
  shows "\<exists>s' L'. st s' V L' M {} R \<and> dirCount_loop A r (pages ! k) c s =
    Some (Inr ((tesSUCCESS, c + of_nat (length (keys_from A V r pages k 0))), s'))"
  using assms
proof (induction "length pages - k" arbitrary: s L k c)
  case (Suc d)
  note st = Suc.prems(1) and dir = Suc.prems(2) and k = Suc.prems(3)
  obtain e where e: "V (dirNode A r (pages ! k)) = Some e" by (rule is_dirD [OF dir k])
  obtain s1 where s1: "entryCache (dirNode A r (pages ! k)) s = Inr (Some (dirNode A r (pages ! k)), s1)"
    "st s1 V (insert (dirNode A r (pages ! k)) L) M {} R" by (rule st_cache [OF st e])
  note f = emptied_links [OF st dir k e]
  have fv: "fieldM (getFieldV256 sfIndexes) (Some (dirNode A r (pages ! k))) s1 = Inr (valV256 sfIndexes e, s1)"
    by (rule st_field [OF s1(2)]) (use e f in simp_all)
  have fn: "fieldM (getFieldU64 sfIndexNext) (Some (dirNode A r (pages ! k))) s1 = Inr (next_of pages k, s1)"
    by (rule st_field [OF s1(2)]) (use e f in simp_all)
  have pe: "page_entries A V r (pages ! k) = valV256 sfIndexes e" using e by (simp add: page_entries_def)
  show ?case
  proof (cases "Suc k < length pages")
    case False
    then have "keys_from A V r pages k 0 = valV256 sfIndexes e" "next_of pages k = 0" by (simp_all add: keys_from_def next_of_def pe)
    then show ?thesis using s1 by (subst dirCount_loop.simps) (auto simp: fv fn bindM_def retM_def)
  next
    case True
    have n0: "next_of pages k = pages ! Suc k" "pages ! Suc k \<noteq> 0"
      using True is_dir_pos [OF dir _ True] by (simp_all add: next_of_def)
    have eq: "length (keys_from A V r pages k 0) = length (valV256 sfIndexes e) + length (keys_from A V r pages (Suc k) 0)"
      using True by (simp add: keys_from_def pe Cons_nth_drop_Suc [symmetric])
    have step: "dirCount_loop A r (pages ! k) c s = dirCount_loop A r (pages ! Suc k) (c + of_nat (length (valV256 sfIndexes e))) s1"
      using n0 by (subst dirCount_loop.simps) (simp add: s1(1) fv fn bindM_def retM_def Let_def)
    have d: "d = length pages - Suc k" using Suc.hyps(2) by simp
    from Suc.hyps(1) [OF d s1(2) dir True, of "c + of_nat (length (valV256 sfIndexes e))"]
    show ?thesis unfolding step eq by (simp add: add.assoc)
  qed
qed simp

text \<open>A set on an empty ledger with an owner directory that holds one key.\<close>

lemma example_dir:
  "\<exists>s pages. les_ok s \<and> is_dir example_app (view s) 9 pages \<and> 0 \<in> set pages \<and>
     5 \<in> set (page_entries example_app (view s) 9 0) \<and> dir_entries example_app (view s) 9 pages = [5]"
proof -
  let ?s = "LedgerEntrySet empty_ledger tapNONE False"
  have ok: "les_ok ?s" by (rule les_ok_init(2) [OF empty_ledger_ok(1)])
  have none: "dir_or_none example_app (view ?s) 9 []" by (simp add: dir_or_none_def view_init empty_ledger_ok)
  obtain res s' where s': "dir_added example_app 9 5 [] ?s res s'"
    using owner.add_spec [OF ok _ none, of 5 3] by (auto elim!: runsE)
  then obtain n pages where p: "les_ok s'" "is_dir example_app (view s') 9 pages" "set pages = {n}"
    "dir_entries example_app (view s') 9 pages = [5]" "5 \<in> set (page_entries example_app (view s') 9 n)"
    by (auto simp: dir_added_def split: prod.splits)
  moreover have "n = 0" using is_dir_root [OF p(2)] p(3) nth_mem [of 0 pages] by auto
  ultimately show ?thesis by blast
qed

text \<open>C22: removing a key from the page that holds it returns with success on every well-formed set.
  The keys of the directory lose exactly one occurrence of it (with the order kept when the removal
  is stable), the remaining pages form a well-formed chain of some of the old pages or the whole
  directory is gone, dropped pages are deleted, and nothing outside the directory changes.\<close>

theorem dirDelete_removes:
  assumes "les_ok s" "is_dir A (view s) r pages" "n \<in> set pages" "x \<in> set (page_entries A (view s) r n)"
  shows "\<exists>s'. dirDelete A keep n r x bStable soft s = Inr (tesSUCCESS, s') \<and> dir_removed A r x bStable pages s s'"
  using remove_spec [OF assms, of keep bStable soft] by (auto elim!: runsE)

theorem dirDelete_removes_witness:
  "\<exists>s s' pages. dirDelete example_app False 0 9 5 True False s = Inr (tesSUCCESS, s') \<and>
     dir_removed example_app 9 5 True pages s s'"
proof -
  obtain s pages where s: "les_ok s" "is_dir example_app (view s) 9 pages" "0 \<in> set pages"
    "5 \<in> set (page_entries example_app (view s) 9 0)" using example_dir by blast
  from dirDelete_removes [OF s] show ?thesis by blast
qed

text \<open>C23: going through a directory with \<open>dirFirst\<close> and then \<open>dirNext\<close> until it reports no entry comes
  to an end on every well-formed directory, and has then handed out all its keys, each in its
  place, without changing any entry.\<close>

theorem directory_walk_ends:
  assumes "les_ok s" "is_dir A (view s) r pages"
  shows "\<exists>s'. dir_all A r s = Some (Inr (dir_entries A (view s) r pages, s')) \<and> les_ok s' \<and> view s' = view s"
  using dir_all_spec [OF assms] by blast

theorem directory_walk_ends_witness:
  "\<exists>s s'. dir_all example_app 9 s = Some (Inr ([5], s')) \<and> les_ok s' \<and> view s' = view s"
proof -
  obtain s pages where s: "les_ok s" "is_dir example_app (view s) 9 pages" "dir_entries example_app (view s) 9 pages = [5]"
    using example_dir by blast
  with directory_walk_ends [OF s(1,2)] show ?thesis by auto
qed

text \<open>The number \<open>dirCount\<close> reports, and when \<open>dirIsEmpty\<close> holds: only for a root page alone.\<close>

lemma dirCount_keys:
  assumes "les_ok s" "is_dir A (view s) r pages"
  shows "\<exists>s'. dirCount A r s = Some (Inr ((tesSUCCESS, of_nat (length (dir_entries A (view s) r pages))), s')) \<and>
    les_ok s' \<and> view s' = view s"
proof -
  have rt: "pages ! 0 = 0" "0 < length pages" using is_dir_root [OF assms(2)] by simp_all
  have "keys_from A (view s) r pages 0 0 = dir_entries A (view s) r pages"
    using dir_entries_split [OF rt(2), of A "view s" r] by (simp add: keys_from_def)
  with count_spec [OF assms(1)[unfolded les_ok_st] assms(2) rt(2), of 0] rt(1) show ?thesis
    by (auto simp: dirCount_def dest: st_les_ok)
qed

lemma dirIsEmpty_single_page:
  assumes "les_ok s" "is_dir A (view s) r pages"
  shows "runs (dirIsEmpty A r) s (\<lambda>b s'. b = (dir_entries A (view s) r pages = [] \<and> length pages = 1) \<and> les_ok s' \<and> view s' = view s)"
proof -
  note st = assms(1)[unfolded les_ok_st]
  have rt: "pages ! 0 = 0" "0 < length pages" using is_dir_root [OF assms(2)] by simp_all
  obtain e where e: "view s r = Some e" using is_dirD [OF assms(2) rt(2)] rt(1) by (metis dirNode_0)
  have f: "getFieldV256 sfIndexes e = Inr (valV256 sfIndexes e)" "getFieldU64 sfIndexNext e = Inr (next_of pages 0)"
    using emptied_links [OF st assms(2) rt(2)] e rt(1) by simp_all
  have nx: "next_of pages 0 = 0 \<longleftrightarrow> length pages = 1"
    using is_dir_pos [OF assms(2), of 1] rt(2) by (cases pages; cases "tl pages") (simp_all add: next_of_def)
  have one: "dir_entries A (view s) r pages = valV256 sfIndexes e" if "length pages = 1"
  proof -
    have "pages = [0]" using that rt(1) by (cases pages) auto
    then show ?thesis using e by (simp add: dir_entries_def page_entries_def)
  qed
  have "valV256 sfIndexes e = []" if "dir_entries A (view s) r pages = []"
    using that e rt dir_entries_split [OF rt(2), of A "view s" r] by (simp add: page_entries_def)
  then have b: "dir_entries A (view s) r pages = [] \<and> length pages = 1 \<longleftrightarrow> valV256 sfIndexes e = [] \<and> next_of pages 0 = 0"
    using nx one by auto
  show ?thesis
    unfolding dirIsEmpty_def runs_bind b
    apply (rule runs_cache, rule st)
    apply (simp add: e runs_bind)
    apply (rule runs_field, assumption, simp, rule e, rule f)
    apply (cases "valV256 sfIndexes e = []")
     apply (simp add: runs_bind)
     apply (rule runs_field, assumption, simp, rule e, rule f)
     apply (auto dest: st_les_ok)
    done
qed

end
