(* ===== verification/Credit.thy ===== *)
theory Credit
  imports DirectoryOps
begin

text \<open>
  Balances and trust lines, from \<open>ledger/LedgerEntrySet.cpp\<close>: what an account holds and can spend,
  freezing, the creation and deletion of lines, credits along a line, and the transfers of native
  and issued currency with their fees.

  A trust line is one entry shared by its two accounts; the account with the smaller identifier is
  the low side, and the balance is in the terms of the low side. Assertions are no part of the
  released program and are left out.
\<close>

unbundle bit_operations_syntax

datatype FreezeHandling = fhIGNORE_FREEZE | fhZERO_IF_FROZEN

definition QUALITY_ONE :: u32 where "QUALITY_ONE = 1000000000"

text \<open>Operations on the ledger underneath the set.\<close>

definition reserveM :: "app \<Rightarrow> u32 \<Rightarrow> u64 lesM" where
  "reserveM A n = (\<lambda>s. case getReserve A (sint n) (mLedger s) of
      Inl er \<Rightarrow> Inl er
    | Inr (r, l) \<Rightarrow> Inr (r, s\<lparr>mLedger := l\<rparr>))"

subsection \<open>Holdings\<close>

definition isGlobalFrozen :: "app \<Rightarrow> Account \<Rightarrow> bool lesM" where
  "isGlobalFrozen A issuer =
     (if isSWT issuer then retM False
      else bindM (entryCache (getAccountRootIndex (app_sha512 A) issuer)) (\<lambda>p.
        if p = None then retM False
        else bindM (deref p) (\<lambda>e. retM (isFlag lsfGlobalFreeze e))))"

definition isFrozen :: "app \<Rightarrow> Account \<Rightarrow> Currency \<Rightarrow> Account \<Rightarrow> bool lesM" where
  "isFrozen A acc cur issuer =
     (if isSWT cur then retM False
      else bindM (entryCache (getAccountRootIndex (app_sha512 A) issuer)) (\<lambda>p.
        bindM (if p = None then retM False else bindM (deref p) (\<lambda>e. retM (isFlag lsfGlobalFreeze e))) (\<lambda>g.
          if g then retM True
          else if issuer \<noteq> acc then
            bindM (entryCache (getSkywellStateIndex (app_sha512 A) acc issuer cur)) (\<lambda>p.
              if p = None then retM False
              else bindM (deref p) (\<lambda>e. retM (isFlag (if issuer > acc then lsfHighFreeze else lsfLowFreeze) e)))
          else retM False)))"

definition skywellHolds :: "app \<Rightarrow> Account \<Rightarrow> Currency \<Rightarrow> Account \<Rightarrow> FreezeHandling \<Rightarrow> stamount lesM" where
  "skywellHolds A acc cur issuer zeroIfFrozen =
     bindM (entryCache (getSkywellStateIndex (app_sha512 A) acc issuer cur)) (\<lambda>state.
     bindM (if state = None then retM (clear_issue \<lparr>currency = cur, account = issuer\<rparr> (STAmount_u64 0 False))
            else bindM (if zeroIfFrozen = fhZERO_IF_FROZEN then isFrozen A acc cur issuer else retM False) (\<lambda>frozen.
              if frozen then retM (clear_issue \<lparr>currency = cur, account = issuer\<rparr> (STAmount_u64 0 False))
              else bindM (fieldM (getFieldAmount sfBalance) state) (\<lambda>saBalance.
                retM (setIssuer issuer (if acc > issuer then negate saBalance else saBalance))))) (\<lambda>saBalance.
       adjustedBalance acc issuer saBalance))"

definition accountHolds :: "app \<Rightarrow> Account \<Rightarrow> Currency \<Rightarrow> Account \<Rightarrow> FreezeHandling \<Rightarrow> stamount lesM" where
  "accountHolds A acc cur issuer zeroIfFrozen =
     (if cur = 0 then
        bindM (entryCache (getAccountRootIndex (app_sha512 A) acc)) (\<lambda>sleAccount.
        bindM (fieldM (getFieldU32 sfOwnerCount) sleAccount) (\<lambda>n.
        bindM (reserveM A n) (\<lambda>uReserve.
        bindM (fieldM (getFieldAmount sfBalance) sleAccount) (\<lambda>saBalance.
        bindM (liftM (amount_less_u64 saBalance uReserve)) (\<lambda>less.
        bindM (if less then retM (clear (STAmount_u64 0 False)) else liftM (amount_sub_u64 saBalance uReserve)) (\<lambda>saAmount.
          adjustedBalance acc issuer saAmount))))))
      else skywellHolds A acc cur issuer zeroIfFrozen)"

definition accountFunds :: "app \<Rightarrow> Account \<Rightarrow> stamount \<Rightarrow> FreezeHandling \<Rightarrow> stamount lesM" where
  "accountFunds A acc saDefault zeroIfFrozen =
     (if \<not> mIsNative saDefault \<and> account (mIssue saDefault) = acc then retM saDefault
      else accountHolds A acc (currency (mIssue saDefault)) (account (mIssue saDefault)) zeroIfFrozen)"

subsection \<open>Lines\<close>

text \<open>
  \<open>trustCreate\<close>: the line is entered into the owner directories of both accounts, then its limits,
  qualities, flags and balance are set and the owner count of the account is raised.
\<close>

definition add_to_owner :: "app \<Rightarrow> Account \<Rightarrow> u256 \<Rightarrow> (TER \<times> u64) lesM" where
  "add_to_owner A owner index =
     dirAdd A (getOwnerDirIndex (app_sha512 A) owner) index (ownerDirDescriber owner)"

definition set_line :: "bool \<Rightarrow> bool \<Rightarrow> Account \<Rightarrow> Account \<Rightarrow> sle_ptr \<Rightarrow> u64 \<Rightarrow> u64 \<Rightarrow> stamount \<Rightarrow> stamount \<Rightarrow> u32 \<Rightarrow> u32 \<Rightarrow> unit lesM" where
  "set_line bSetHigh bSetDst uSrcAccountID uDstAccountID state uLowNode uHighNode saBalance saLimit uQualityIn uQualityOut =
     bindM (updateM (setFieldU64 sfLowNode uLowNode) state) (\<lambda>_.
     bindM (updateM (setFieldU64 sfHighNode uHighNode) state) (\<lambda>_.
     bindM (updateM (setFieldAmount (if bSetHigh then sfHighLimit else sfLowLimit) saLimit) state) (\<lambda>_.
     bindM (liftM (STAmount_issue \<lparr>currency = currency (mIssue saBalance),
              account = (if bSetDst then uSrcAccountID else uDstAccountID)\<rparr> 0 0 False)) (\<lambda>other.
     bindM (updateM (setFieldAmount (if bSetHigh then sfLowLimit else sfHighLimit) other) state) (\<lambda>_.
     bindM (whenM (uQualityIn \<noteq> 0)
              (updateM (setFieldU32 (if bSetHigh then sfHighQualityIn else sfLowQualityIn) uQualityIn) state)) (\<lambda>_.
       whenM (uQualityOut \<noteq> 0)
         (updateM (setFieldU32 (if bSetHigh then sfHighQualityOut else sfLowQualityOut) uQualityOut) state)))))))"

definition trustCreate :: "app \<Rightarrow> bool \<Rightarrow> Account \<Rightarrow> Account \<Rightarrow> u256 \<Rightarrow> sle_ptr \<Rightarrow> bool \<Rightarrow> bool \<Rightarrow> bool \<Rightarrow>
    stamount \<Rightarrow> stamount \<Rightarrow> u32 \<Rightarrow> u32 \<Rightarrow> TER lesM" where
  "trustCreate A bSrcHigh uSrcAccountID uDstAccountID uIndex sleAccount bAuth bNoSkywell bFreeze saBalance saLimit
       uQualityIn uQualityOut =
     (let uLowAccountID = (if \<not> bSrcHigh then uSrcAccountID else uDstAccountID);
          uHighAccountID = (if bSrcHigh then uSrcAccountID else uDstAccountID)
      in
        bindM (entryCreate ltSKYWELL_STATE uIndex) (\<lambda>state.
        bindM (add_to_owner A uLowAccountID uIndex) (\<lambda>(terResult, uLowNode).
          if terResult \<noteq> tesSUCCESS then retM terResult
          else
            bindM (add_to_owner A uHighAccountID uIndex) (\<lambda>(terResult, uHighNode).
              if terResult \<noteq> tesSUCCESS then retM terResult
              else
                let bSetDst = (account (mIssue saLimit) = uDstAccountID);
                    bSetHigh = (bSrcHigh \<noteq> bSetDst)
                in
                  bindM (entryCache (getAccountRootIndex (app_sha512 A) (if bSetHigh then uLowAccountID else uHighAccountID))) (\<lambda>slePeer.
                  bindM (set_line bSetHigh bSetDst uSrcAccountID uDstAccountID state uLowNode uHighNode saBalance saLimit
                           uQualityIn uQualityOut) (\<lambda>_.
                  bindM (deref slePeer) (\<lambda>peer.
                    let uFlags = (if bSetHigh then lsfHighReserve else lsfLowReserve);
                        uFlags = (if bAuth then uFlags OR (if bSetHigh then lsfHighAuth else lsfLowAuth) else uFlags);
                        uFlags = (if bNoSkywell then uFlags OR (if bSetHigh then lsfHighNoSkywell else lsfLowNoSkywell) else uFlags);
                        uFlags = (if bFreeze then uFlags OR (if \<not> bSetHigh then lsfLowFreeze else lsfHighFreeze) else uFlags);
                        uFlags = (if getFlags peer AND lsfDefaultSkywell = 1
                                  then uFlags OR (if bSetHigh then lsfLowNoSkywell else lsfHighNoSkywell) else uFlags)
                    in
                      bindM (updateM (setFieldU32 sfFlags uFlags) state) (\<lambda>_.
                      bindM (incrementOwnerCount sleAccount) (\<lambda>_.
                      bindM (updateM (setFieldAmount sfBalance (if bSetHigh then amount_uminus saBalance else saBalance)) state) (\<lambda>_.
                      bindM (cacheCredit uSrcAccountID uDstAccountID saBalance) (\<lambda>_.
                        retM tesSUCCESS)))))))))))"

definition relationCreate :: "app \<Rightarrow> bool \<Rightarrow> Account \<Rightarrow> Account \<Rightarrow> u256 \<Rightarrow> sle_ptr \<Rightarrow> stamount \<Rightarrow> stamount \<Rightarrow> u32 \<Rightarrow> u32 \<Rightarrow> TER lesM" where
  "relationCreate A bSrcHigh uSrcAccountID uDstAccountID uIndex sleAccount saBalance saLimit uQualityIn uQualityOut =
     (let uLowAccountID = (if \<not> bSrcHigh then uSrcAccountID else uDstAccountID);
          uHighAccountID = (if bSrcHigh then uSrcAccountID else uDstAccountID)
      in
        bindM (entryCreate ltTrust_STATE uIndex) (\<lambda>state.
        bindM (add_to_owner A uLowAccountID uIndex) (\<lambda>(terResult, uLowNode).
          if terResult \<noteq> tesSUCCESS then retM terResult
          else
            bindM (add_to_owner A uHighAccountID uIndex) (\<lambda>(terResult, uHighNode).
              if terResult \<noteq> tesSUCCESS then retM terResult
              else
                let bSetDst = (account (mIssue saLimit) = uDstAccountID);
                    bSetHigh = (bSrcHigh \<noteq> bSetDst)
                in
                  bindM (entryCache (getAccountRootIndex (app_sha512 A) (if bSetHigh then uLowAccountID else uHighAccountID))) (\<lambda>slePeer.
                  bindM (set_line bSetHigh bSetDst uSrcAccountID uDstAccountID state uLowNode uHighNode saBalance saLimit
                           uQualityIn uQualityOut) (\<lambda>_.
                  bindM (incrementOwnerCount sleAccount) (\<lambda>_.
                  bindM (updateM (setFieldAmount sfBalance (if bSetHigh then amount_uminus saBalance else saBalance)) state) (\<lambda>_.
                  bindM (cacheCredit uSrcAccountID uDstAccountID saBalance) (\<lambda>_.
                    retM tesSUCCESS)))))))))"

definition signCreate :: "app \<Rightarrow> u256 \<Rightarrow> sle_ptr \<Rightarrow> Account \<Rightarrow> u16 \<Rightarrow> u32 \<Rightarrow> u32 \<Rightarrow> (sfield \<times> stvar) list list \<Rightarrow> TER lesM" where
  "signCreate A uIndex sleAccount uSrcAccountID uMasterWeight uQuorum uQuorumHigh saSignEntries =
     bindM (entryCreate ltSIGNER_LIST uIndex) (\<lambda>state.
     bindM (add_to_owner A uSrcAccountID uIndex) (\<lambda>(terResult, uNode).
       if terResult \<noteq> tesSUCCESS then retM terResult
       else
         bindM (updateM (setFieldAccount sfAccount uSrcAccountID) state) (\<lambda>_.
         bindM (whenM (uMasterWeight \<noteq> 0) (updateM (setFieldU16 sfMasterWeight uMasterWeight) state)) (\<lambda>_.
         bindM (whenM (uQuorum \<noteq> 0) (updateM (setFieldU32 sfQuorum uQuorum) state)) (\<lambda>_.
         bindM (whenM (uQuorumHigh \<noteq> 0) (updateM (setFieldU32 sfQuorumHigh uQuorumHigh) state)) (\<lambda>_.
         bindM (whenM (saSignEntries \<noteq> []) (updateM (setFieldArray sfSignerEntries saSignEntries) state)) (\<lambda>_.
         bindM (incrementOwnerCount sleAccount) (\<lambda>_.
           retM tesSUCCESS))))))))"

definition trustDelete :: "app \<Rightarrow> sle_ptr \<Rightarrow> Account \<Rightarrow> Account \<Rightarrow> TER lesM" where
  "trustDelete A state uLowAccountID uHighAccountID =
     bindM (deref state) (\<lambda>e.
     bindM (fieldM (getFieldU64 sfLowNode) state) (\<lambda>uLowNode.
     bindM (fieldM (getFieldU64 sfHighNode) state) (\<lambda>uHighNode.
     bindM (dirDelete A False uLowNode (getOwnerDirIndex (app_sha512 A) uLowAccountID) (sleIndex e) False
              (\<not> isFieldPresent sfLowNode e)) (\<lambda>terResult.
     bindM (if terResult = tesSUCCESS
            then dirDelete A False uHighNode (getOwnerDirIndex (app_sha512 A) uHighAccountID) (sleIndex e) False
                   (\<not> isFieldPresent sfHighNode e)
            else retM terResult) (\<lambda>terResult.
     bindM (entryDelete state) (\<lambda>_. retM terResult))))))"

subsection \<open>Credits along a line\<close>

text \<open>
  Whether a sender whose balance on the line is used up no longer needs it: the flag of the
  reserve is set, the no-rippling flag is the sender's default, and nothing else keeps the line.
  \<open>high\<close> tells on which side the sender is.
\<close>

definition side :: "bool \<Rightarrow> 'a \<Rightarrow> 'a \<Rightarrow> 'a" where
  "side high onHigh onLow = (if high then onHigh else onLow)"

definition line_unused :: "bool \<Rightarrow> sle_ptr \<Rightarrow> u32 \<Rightarrow> u32 \<Rightarrow> bool lesM" where
  "line_unused high state flags account_flags =
     (if (flags AND side high lsfHighNoSkywell lsfLowNoSkywell \<noteq> 0) \<noteq> (account_flags AND lsfDefaultSkywell \<noteq> 0) then retM False
      else if flags AND side high lsfHighFreeze lsfLowFreeze \<noteq> 0 then retM False
      else bindM (fieldM (getFieldAmount (side high sfHighLimit sfLowLimit)) state) (\<lambda>limit.
        if \<not> is_zero limit then retM False
        else bindM (fieldM (getFieldU32 (side high sfHighQualityIn sfLowQualityIn)) state) (\<lambda>qin.
          if qin \<noteq> 0 then retM False
          else bindM (fieldM (getFieldU32 (side high sfHighQualityOut sfLowQualityOut)) state) (\<lambda>qout.
            retM (qout = 0)))))"

definition skywellCredit :: "app \<Rightarrow> Account \<Rightarrow> Account \<Rightarrow> stamount \<Rightarrow> TER lesM" where
  "skywellCredit A uSenderID uReceiverID saAmount =
     (let bSenderHigh = (uSenderID > uReceiverID);
          cur = currency (mIssue saAmount);
          uIndex = getSkywellStateIndex (app_sha512 A) uSenderID uReceiverID cur
      in
        bindM (entryCache uIndex) (\<lambda>state.
          if state = None then
            bindM (liftM (STAmount_issue \<lparr>currency = cur, account = uReceiverID\<rparr> 0 0 False)) (\<lambda>saReceiverLimit.
            bindM (entryCache (getAccountRootIndex (app_sha512 A) uReceiverID)) (\<lambda>sleAccount.
            bindM (deref sleAccount) (\<lambda>e.
              trustCreate A bSenderHigh uSenderID uReceiverID uIndex sleAccount False
                (getFlags e AND lsfDefaultSkywell = 1) False (setIssuer noAccount saAmount) saReceiverLimit 0 0)))
          else
            bindM (cacheCredit uSenderID uReceiverID saAmount) (\<lambda>_.
            bindM (fieldM (getFieldAmount sfBalance) state) (\<lambda>bal.
              let saBefore = (if bSenderHigh then negate bal else bal)
              in
                bindM (liftM (amount_sub saBefore saAmount)) (\<lambda>saBalance.
                bindM (fieldM (getFieldU32 sfFlags) state) (\<lambda>uFlags.
                bindM (if signum saBefore > 0 \<and> signum saBalance \<le> 0 \<and> uFlags AND side bSenderHigh lsfHighReserve lsfLowReserve \<noteq> 0
                       then bindM (entryCache (getAccountRootIndex (app_sha512 A) uSenderID)) (\<lambda>p.
                              bindM (deref p) (\<lambda>e. line_unused bSenderHigh state uFlags (getFlags e)))
                       else retM False) (\<lambda>unused.
                bindM (if unused then
                         bindM (decrementOwnerCount_account A uSenderID) (\<lambda>_.
                         bindM (updateM (setFieldU32 sfFlags (uFlags AND NOT (side bSenderHigh lsfHighReserve lsfLowReserve))) state) (\<lambda>_.
                           retM (is_zero saBalance \<and> uFlags AND side bSenderHigh lsfLowReserve lsfHighReserve = 0)))
                       else retM False) (\<lambda>bDelete.
                bindM (updateM (setFieldAmount sfBalance (if bSenderHigh then negate saBalance else saBalance)) state) (\<lambda>_.
                  if bDelete then
                    trustDelete A state (if bSenderHigh then uReceiverID else uSenderID) (if \<not> bSenderHigh then uReceiverID else uSenderID)
                  else bindM (entryModify state) (\<lambda>_. retM tesSUCCESS))))))))))"

subsection \<open>Transfer fees\<close>

definition obj_getFieldAmount :: "sfield \<Rightarrow> (sfield \<times> stvar) list \<Rightarrow> stamount result" where
  "obj_getFieldAmount f fs =
     (case map_of fs f of
        None \<Rightarrow> Inl (RuntimeError ''Field not found'')
      | Some (STAmount a) \<Rightarrow> Inr a
      | Some _ \<Rightarrow> Inl (RuntimeError ''Wrong field type''))"

fun currency_rate :: "app \<Rightarrow> Currency \<Rightarrow> (sfield \<times> stvar) list list \<Rightarrow> u32 option result" where
  "currency_rate A cur [] = Inr None"
| "currency_rate A cur (rate # rates) =
     bindE (obj_getFieldAmount sfAmount rate) (\<lambda>fee.
       if cur = currency (mIssue fee) then
         (case lexical_cast_u32 (app_boost A) (getText fee) of None \<Rightarrow> Inl BadCast | Some q \<Rightarrow> Inr (Some q))
       else currency_rate A cur rates)"

definition account_rate :: "sle_ptr \<Rightarrow> u32 lesM" where
  "account_rate sleAccount =
     (if sleAccount = None then retM QUALITY_ONE
      else bindM (deref sleAccount) (\<lambda>e. if isFieldPresent sfTransferRate e then liftM (getFieldU32 sfTransferRate e) else retM QUALITY_ONE))"

definition skywellTransferRate :: "app \<Rightarrow> Account \<Rightarrow> Currency \<Rightarrow> u32 lesM" where
  "skywellTransferRate A issuer cur =
     bindM (entryCache (getAccountRootIndex (app_sha512 A) issuer)) (\<lambda>sleAccount.
       if cur = noCurrency then account_rate sleAccount
       else
         bindM (if sleAccount = None then retM None
                else bindM (deref sleAccount) (\<lambda>e.
                  if isFieldPresent sfCurrencyRates e
                  then bindM (liftM (getFieldArray sfCurrencyRates e)) (\<lambda>rates. liftM (currency_rate A cur rates))
                  else retM None)) (\<lambda>q.
           case q of Some quality \<Rightarrow> retM quality | None \<Rightarrow> account_rate sleAccount))"

definition skywellTransferRate_between :: "app \<Rightarrow> Account \<Rightarrow> Account \<Rightarrow> Account \<Rightarrow> Currency \<Rightarrow> u32 lesM" where
  "skywellTransferRate_between A uSenderID uReceiverID issuer cur =
     (if uSenderID = issuer \<or> uReceiverID = issuer then retM QUALITY_ONE else skywellTransferRate A issuer cur)"

definition skywellTransferFee :: "app \<Rightarrow> Account \<Rightarrow> Account \<Rightarrow> Account \<Rightarrow> stamount \<Rightarrow> stamount lesM" where
  "skywellTransferFee A src dst issuer saAmount =
     (if src \<noteq> issuer \<and> dst \<noteq> issuer then
        bindM (skywellTransferRate A issuer (currency (mIssue saAmount))) (\<lambda>uTransitRate.
          if QUALITY_ONE \<noteq> uTransitRate then
            bindM (liftM (amountFromRate (ucast uTransitRate))) (\<lambda>rate.
            bindM (liftM (multiply (app_bn A) saAmount rate (mIssue saAmount))) (\<lambda>saTransferTotal.
              liftM (amount_sub saTransferTotal saAmount)))
          else liftM (zeroed saAmount))
      else liftM (zeroed saAmount))"

text \<open>\<open>skywellSend\<close> answers the result and what the sender paid.\<close>

definition skywellSend :: "app \<Rightarrow> Account \<Rightarrow> Account \<Rightarrow> stamount \<Rightarrow> (TER \<times> stamount) lesM" where
  "skywellSend A uSenderID uReceiverID saAmount =
     (let issuer = account (mIssue saAmount)
      in if uSenderID = issuer \<or> uReceiverID = issuer \<or> issuer = noAccount then
           bindM (skywellCredit A uSenderID uReceiverID saAmount) (\<lambda>_. retM (tesSUCCESS, saAmount))
         else
           bindM (skywellTransferFee A uSenderID uReceiverID issuer saAmount) (\<lambda>saTransitFee.
           bindM (if is_zero saTransitFee then retM saAmount else liftM (amount_add saAmount saTransitFee)) (\<lambda>total.
             let saActual = setIssuer issuer total
             in
               bindM (skywellCredit A issuer uReceiverID saAmount) (\<lambda>terResult.
                 if terResult = tesSUCCESS
                 then bindM (skywellCredit A uSenderID issuer saActual) (\<lambda>terResult. retM (terResult, saActual))
                 else retM (terResult, saActual)))))"

subsection \<open>Transfers\<close>

definition failed_processing :: "les \<Rightarrow> TER" where
  "failed_processing s = (if mParams s AND tapOPEN_LEDGER \<noteq> 0 then telFAILED_PROCESSING else tecFAILED_PROCESSING)"

definition accountSend :: "app \<Rightarrow> Account \<Rightarrow> Account \<Rightarrow> stamount \<Rightarrow> TER lesM" where
  "accountSend A uSenderID uReceiverID saAmount =
     (if is_zero saAmount \<or> uSenderID = uReceiverID then retM tesSUCCESS
      else if \<not> mIsNative saAmount then bindM (skywellSend A uSenderID uReceiverID saAmount) (\<lambda>(ter, _). retM ter)
      else
        bindM (cacheCredit uSenderID uReceiverID saAmount) (\<lambda>_.
        bindM (if uSenderID \<noteq> 0 then entryCache (getAccountRootIndex (app_sha512 A) uSenderID) else retM None) (\<lambda>sender.
        bindM (if uReceiverID \<noteq> 0 then entryCache (getAccountRootIndex (app_sha512 A) uReceiverID) else retM None) (\<lambda>receiver.
        bindM (if sender = None then retM tesSUCCESS
               else
                 bindM (fieldM (getFieldAmount sfBalance) sender) (\<lambda>bal.
                 bindM (liftM (amount_less bal saAmount)) (\<lambda>short.
                   if short then (\<lambda>s. retM (failed_processing s) s)
                   else
                     bindM (liftM (amount_sub bal saAmount)) (\<lambda>bal.
                     bindM (updateM (setFieldAmount sfBalance bal) sender) (\<lambda>_.
                     bindM (entryModify sender) (\<lambda>_. retM tesSUCCESS)))))) (\<lambda>terResult.
          if terResult = tesSUCCESS \<and> receiver \<noteq> None then
            bindM (fieldM (getFieldAmount sfBalance) receiver) (\<lambda>bal.
            bindM (liftM (amount_add bal saAmount)) (\<lambda>bal.
            bindM (updateM (setFieldAmount sfBalance bal) receiver) (\<lambda>_.
            bindM (entryModify receiver) (\<lambda>_. retM terResult))))
          else retM terResult)))))"

definition transfer_xrp :: "app \<Rightarrow> Account \<Rightarrow> Account \<Rightarrow> stamount \<Rightarrow> TER lesM" where
  "transfer_xrp A src dst amount =
     bindM (entryCache (getAccountRootIndex (app_sha512 A) src)) (\<lambda>sender.
     bindM (entryCache (getAccountRootIndex (app_sha512 A) dst)) (\<lambda>receiver.
     bindM (fieldM (getFieldAmount sfBalance) sender) (\<lambda>bal.
     bindM (liftM (amount_less bal amount)) (\<lambda>short.
       if short then (\<lambda>s. retM (failed_processing s) s)
       else
         bindM (liftM (amount_sub bal amount)) (\<lambda>bal.
         bindM (updateM (setFieldAmount sfBalance bal) sender) (\<lambda>_.
         bindM (entryModify sender) (\<lambda>_.
         bindM (fieldM (getFieldAmount sfBalance) receiver) (\<lambda>bal.
         bindM (liftM (amount_add bal amount)) (\<lambda>bal.
         bindM (updateM (setFieldAmount sfBalance bal) receiver) (\<lambda>_.
         bindM (entryModify receiver) (\<lambda>_. retM tesSUCCESS)))))))))))"

definition checkState :: "app \<Rightarrow> sle_ptr \<Rightarrow> bool \<Rightarrow> Account \<Rightarrow> stamount \<Rightarrow> stamount \<Rightarrow> bool lesM" where
  "checkState A state bSenderHigh sender before after =
     bindM (fieldM (getFieldU32 sfFlags) state) (\<lambda>flags.
     bindM (entryCache (getAccountRootIndex (app_sha512 A) sender)) (\<lambda>sender_account.
     bindM (if signum before > 0 \<and> signum after \<le> 0 \<and> flags AND side bSenderHigh lsfHighReserve lsfLowReserve \<noteq> 0
            then bindM (deref sender_account) (\<lambda>e. line_unused bSenderHigh state flags (getFlags e))
            else retM False) (\<lambda>unused.
       if unused then
         bindM (decrementOwnerCount sender_account) (\<lambda>_.
         bindM (updateM (setFieldU32 sfFlags (flags AND NOT (side bSenderHigh lsfHighReserve lsfLowReserve))) state) (\<lambda>_.
           retM (is_zero after \<and> flags AND side bSenderHigh lsfLowReserve lsfHighReserve = 0)))
       else retM False)))"

text \<open>The balance of a line after \<open>src\<close> has sent along it, shared by \<open>issue_iou\<close> and \<open>redeem_iou\<close>.\<close>

definition send_on_line :: "app \<Rightarrow> sle_ptr \<Rightarrow> Account \<Rightarrow> Account \<Rightarrow> stamount \<Rightarrow> TER lesM" where
  "send_on_line A state src dst amount =
     (let bSenderHigh = (src > dst)
      in
        bindM (fieldM (getFieldAmount sfBalance) state) (\<lambda>bal.
          let start_balance = (if bSenderHigh then negate bal else bal)
          in
            bindM (liftM (amount_sub start_balance amount)) (\<lambda>final_balance.
            bindM (checkState A state bSenderHigh src start_balance final_balance) (\<lambda>must_delete.
            bindM (cacheCredit src dst amount) (\<lambda>_.
            bindM (updateM (setFieldAmount sfBalance (if bSenderHigh then negate final_balance else final_balance)) state) (\<lambda>_.
              if must_delete then
                trustDelete A state (if bSenderHigh then dst else src) (if bSenderHigh then src else dst)
              else bindM (entryModify state) (\<lambda>_. retM tesSUCCESS)))))))"

definition issue_iou :: "app \<Rightarrow> Account \<Rightarrow> stamount \<Rightarrow> issue \<Rightarrow> TER lesM" where
  "issue_iou A acc amount iss =
     (let bSenderHigh = (account iss > acc);
          index = getSkywellStateIndex (app_sha512 A) (account iss) acc (currency iss)
      in
        bindM (entryCache index) (\<lambda>state.
          if state = None then
            bindM (liftM (STAmount_issue \<lparr>currency = currency iss, account = acc\<rparr> 0 0 False)) (\<lambda>limit.
            bindM (entryCache (getAccountRootIndex (app_sha512 A) acc)) (\<lambda>receiverAccount.
            bindM (deref receiverAccount) (\<lambda>e.
              trustCreate A bSenderHigh (account iss) acc index receiverAccount False
                (getFlags e AND lsfDefaultSkywell = 1) False (setIssuer noAccount amount) limit 0 0)))
          else send_on_line A state (account iss) acc amount))"

definition redeem_iou :: "app \<Rightarrow> Account \<Rightarrow> stamount \<Rightarrow> issue \<Rightarrow> TER lesM" where
  "redeem_iou A acc amount iss =
     bindM (entryCache (getSkywellStateIndex (app_sha512 A) acc (account iss) (currency iss))) (\<lambda>state.
       if state = None then retM tefINTERNAL
       else send_on_line A state acc (account iss) amount)"

text \<open>The limit of an automatic line is the amount read from the text of ten billion.\<close>

definition issue_trust_auto :: "app \<Rightarrow> Account \<Rightarrow> stamount \<Rightarrow> issue \<Rightarrow> bool \<Rightarrow> TER lesM" where
  "issue_trust_auto A acc amount iss autodel =
     (let bSenderHigh = (acc > account iss);
          index = getSkywellStateIndex (app_sha512 A) acc (account iss) (currency (mIssue amount))
      in
        bindM (entryCache index) (\<lambda>state.
          if state = None \<and> \<not> autodel then
            bindM (liftM (STAmount_issue \<lparr>currency = currency iss, account = acc\<rparr> 0 0 False)) (\<lambda>limit.
            bindM (entryCache (getAccountRootIndex (app_sha512 A) acc)) (\<lambda>receiverAccount.
            bindM (deref receiverAccount) (\<lambda>e.
              trustCreate A bSenderHigh acc (account iss) index receiverAccount False
                (getFlags e AND lsfDefaultSkywell = 0) False (setIssuer noAccount amount)
                (snd (setValue (app_boost A) ''10000000000'' limit)) 0 0)))
          else retM tesSUCCESS))"

subsection \<open>Offers backed by other accounts\<close>

text \<open>The lines of one kind of relation among the entries an account owns.\<close>

fun relation_lines :: "u32 \<Rightarrow> sle option list \<Rightarrow> sle list result" where
  "relation_lines n [] = Inr []"
| "relation_lines n (None # items) = relation_lines n items"
| "relation_lines n (Some e # items) =
     (if sleType e = ltTrust_STATE
      then bindE (getFieldU32 sfRelationType e) (\<lambda>t.
             bindE (relation_lines n items) (\<lambda>es. Inr (if t = n then e # es else es)))
      else relation_lines n items)"

text \<open>
  The issuers of the two limits of a relation tell whose side is whose; \<open>own_side\<close> is the limit of
  \<open>acc\<close> in the currency with the limit of the other side, where that limit passes \<open>test\<close> on its sign.
\<close>

definition own_side :: "Account \<Rightarrow> Currency \<Rightarrow> (int \<Rightarrow> bool) \<Rightarrow> sle \<Rightarrow> (stamount \<times> stamount) option result" where
  "own_side acc cur test e =
     bindE (getFieldAmount sfLowLimit e) (\<lambda>low.
     bindE (getFieldAmount sfHighLimit e) (\<lambda>high.
       Inr (if acc = account (mIssue low) \<and> currency (mIssue low) = cur \<and> test (signum high) then Some (low, high)
            else if acc = account (mIssue high) \<and> currency (mIssue high) = cur \<and> test (signum low) then Some (high, low)
            else None)))"

fun authorized_by :: "Account \<Rightarrow> Currency \<Rightarrow> sle list \<Rightarrow> Account result" where
  "authorized_by acc cur [] = Inr noAccount"
| "authorized_by acc cur (e # es) =
     bindE (own_side acc cur (\<lambda>n. n > 0) e) (\<lambda>r.
       case r of Some (_, other) \<Rightarrow> Inr (account (mIssue other)) | None \<Rightarrow> authorized_by acc cur es)"

definition AuthorizeAccountGet :: "app \<Rightarrow> ledger \<Rightarrow> Account \<Rightarrow> Currency \<Rightarrow> (Account result) option" where
  "AuthorizeAccountGet A l acc cur =
     map_option (\<lambda>r. bindE r (\<lambda>items. bindE (relation_lines 1 items) (authorized_by acc cur)))
       (visitAccountItems A l acc)"

fun offers_total :: "stamount \<Rightarrow> stamount \<Rightarrow> sle option list \<Rightarrow> stamount result" where
  "offers_total saTakerGets tot [] = Inr tot"
| "offers_total saTakerGets tot (item # items) =
     (case item of
        None \<Rightarrow> offers_total saTakerGets tot items
      | Some e \<Rightarrow>
          if sleType e = ltOFFER then
            bindE (getFieldAmount sfTakerGets e) (\<lambda>gets.
              if mIssue gets = mIssue saTakerGets
              then bindE (amount_add tot gets) (\<lambda>tot. offers_total saTakerGets tot items)
              else offers_total saTakerGets tot items)
          else offers_total saTakerGets tot items)"

fun freezes_total :: "Account \<Rightarrow> Currency \<Rightarrow> stamount \<Rightarrow> sle list \<Rightarrow> stamount result" where
  "freezes_total acc cur tot [] = Inr tot"
| "freezes_total acc cur tot (e # es) =
     bindE (own_side acc cur (\<lambda>n. n \<ge> 0) e) (\<lambda>r.
       case r of
         Some (own, _) \<Rightarrow> bindE (amount_add tot own) (\<lambda>tot. freezes_total acc cur tot es)
       | None \<Rightarrow> freezes_total acc cur tot es)"

text \<open>The authorization granted by an account: the last of its matching limits that is positive.\<close>

fun author_limit :: "Account \<Rightarrow> Currency \<Rightarrow> stamount \<Rightarrow> sle list \<Rightarrow> stamount result" where
  "author_limit acc cur authors [] = Inr authors"
| "author_limit acc cur authors (e # es) =
     bindE (getFieldAmount sfLowLimit e) (\<lambda>low.
       if account (mIssue low) = acc \<and> currency (mIssue low) = cur \<and> signum low > 0 then author_limit acc cur low es
       else bindE (getFieldAmount sfHighLimit e) (\<lambda>high.
         author_limit acc cur
           (if account (mIssue high) = acc \<and> currency (mIssue high) = cur \<and> signum high > 0 then high else authors) es))"

text \<open>
  The last part of \<open>accountFundsCheck\<close>: the missing funds are drawn from the account \<open>author\<close>, up to
  the authorization it granted and to what it holds.
\<close>

definition draw_from_author :: "app \<Rightarrow> Account \<Rightarrow> Account \<Rightarrow> stamount \<Rightarrow> stamount \<Rightarrow> stamount \<Rightarrow> stamount \<Rightarrow> sle option list \<Rightarrow> TER lesM" where
  "draw_from_author A acc author saTakerGets ownerFunds saFreeze saTakerGetsFunded items =
     bindM (liftM (bindE (relation_lines 1 items) (author_limit author (currency (mIssue saTakerGets)) (STAmount_u64 0 False)))) (\<lambda>authors.
     bindM (accountFunds A author saTakerGets fhIGNORE_FREEZE) (\<lambda>authorFunds.
     bindM (liftM (amount_le authors authorFunds)) (\<lambda>le.
       let authors = (if le then authors else authorFunds)
       in
         bindM (if is_zero authors then retM False
                else bindM (liftM (amount_add authors ownerFunds)) (\<lambda>t.
                     bindM (liftM (amount_sub t saFreeze)) (\<lambda>t. liftM (amount_ge t saTakerGetsFunded)))) (\<lambda>enough.
           if enough then
             bindM (liftM (amount_sub saTakerGetsFunded ownerFunds)) (\<lambda>t.
             bindM (liftM (amount_add t saFreeze)) (\<lambda>t.
             bindM (accountSend A author acc t) (\<lambda>ter.
               retM (if ter = tesSUCCESS then tesSUCCESS else telINSUF_FUND))))
           else retM telINSUF_FUND))))"

text \<open>
  The entries an account owns are read from the ledger, which the operations on the set do not
  change, so the two visits of the account's entries are one here. The value is \<open>None\<close> where a
  visit would not end.
\<close>

definition accountFundsCheck :: "app \<Rightarrow> Account \<Rightarrow> stamount \<Rightarrow> les \<Rightarrow> ((TER \<times> les) result) option" where
  "accountFundsCheck A acc saTakerGets s =
     (case (if mIsNative saTakerGets then Inr False
            else bindE (getIssuerOpAccountID A (mLedger s)) (\<lambda>op. Inr (op = acc))) of
        Inl er \<Rightarrow> Some (Inl er)
      | Inr True \<Rightarrow> Some (Inr (tesSUCCESS, s))
      | Inr False \<Rightarrow>
          Option.bind (visitAccountItems A (mLedger s) acc) (\<lambda>items.
            case bindE items (\<lambda>items.
                   bindE (offers_total saTakerGets saTakerGets items) (\<lambda>saTakerGetsFunded.
                   bindE (relation_lines 3 items) (\<lambda>freezes.
                   bindE (freezes_total acc (currency (mIssue saTakerGets)) saTakerGets freezes) (\<lambda>saFreeze.
                   bindE (amount_sub saFreeze saTakerGets) (\<lambda>saFreeze.
                   bindE (accountFunds A acc saTakerGets fhIGNORE_FREEZE s) (\<lambda>(ownerFunds, s).
                   bindE (if is_zero ownerFunds then Inr True
                          else bindE (amount_sub ownerFunds saFreeze) (\<lambda>t. amount_less t saTakerGetsFunded)) (\<lambda>short.
                     Inr (short, saTakerGetsFunded, saFreeze, ownerFunds, s)))))))) of
              Inl er \<Rightarrow> Some (Inl er)
            | Inr (short, saTakerGetsFunded, saFreeze, ownerFunds, s) \<Rightarrow>
                if \<not> short then Some (Inr (tesSUCCESS, s))
                else
                  Option.bind (AuthorizeAccountGet A (mLedger s) acc (currency (mIssue saTakerGets))) (\<lambda>author.
                    case author of
                      Inl er \<Rightarrow> Some (Inl er)
                    | Inr author \<Rightarrow>
                        if author = noAccount then Some (Inr (telINSUF_FUND, s))
                        else
                          Option.bind (visitAccountItems A (mLedger s) author) (\<lambda>items.
                            Some (bindE items (\<lambda>items.
                              draw_from_author A acc author saTakerGets ownerFunds saFreeze saTakerGetsFunded items s))))))"

subsection \<open>Scoped deferral\<close>

text \<open>
  The scope remembers whether it was the one to turn the deferral on; leaving it turns the deferral
  off in that case only.
\<close>

definition ScopedDeferCredits :: "les \<Rightarrow> bool \<times> les" where
  "ScopedDeferCredits s = (if areCreditsDeferred s then (False, s) else (True, enableDeferredCredits True s))"

definition leave_ScopedDeferCredits :: "bool \<Rightarrow> les \<Rightarrow> les" where
  "leave_ScopedDeferCredits enabled s = (if enabled then enableDeferredCredits False s else s)"

end
