(* ===== verification/CreditLaws.thy ===== *)
theory CreditLaws
  imports Credit
begin

text \<open>
  The laws of transfers and credits: native currency is conserved, a credit along a line changes the
  line by exactly the amount and releases the reserve of a sender that no longer needs the line,
  and the three routines that move issued currency along a line agree.
\<close>

unbundle bit_operations_syntax

text \<open>The native currency held by all the accounts of a view.\<close>

definition account_roots :: "(u256 \<rightharpoonup> sle) \<Rightarrow> u256 set" where
  "account_roots V = {k. \<exists>e. V k = Some e \<and> sleType e = ltACCOUNT_ROOT}"

definition native_total :: "(u256 \<rightharpoonup> sle) \<Rightarrow> real" where
  "native_total V = (\<Sum>k\<in>account_roots V. amount_value (valAmount sfBalance (the (V k))))"

definition native_root :: "(u256 \<rightharpoonup> sle) \<Rightarrow> u256 \<Rightarrow> sle \<Rightarrow> bool" where
  "native_root V k e \<longleftrightarrow> V k = Some e \<and> sleType e = ltACCOUNT_ROOT \<and> canonical (valAmount sfBalance e) \<and>
     mIsNative (valAmount sfBalance e)"

text \<open>The abstract transfer: the balances of two entries change by the amount, nothing else changes.\<close>

definition moved :: "u256 \<Rightarrow> u256 \<Rightarrow> real \<Rightarrow> (u256 \<rightharpoonup> sle) \<Rightarrow> (u256 \<rightharpoonup> sle) \<Rightarrow> bool" where
  "moved i j x V V' \<longleftrightarrow>
     (\<exists>e f a b. V i = Some e \<and> V j = Some f \<and> V' = V(i \<mapsto> put sfBalance (STAmount a) e, j \<mapsto> put sfBalance (STAmount b) f) \<and>
        amount_value a = amount_value (valAmount sfBalance e) - x \<and>
        amount_value b = amount_value (valAmount sfBalance f) + x)"

text \<open>
  The specification of a credit: the balance of the line in the sender's terms goes down by the
  amount. Where that uses up the sender's balance and nothing else keeps the line for the sender,
  the reserve of the sender is released: its flag is cleared and its owner count lowered.
\<close>

definition line_releasable :: "bool \<Rightarrow> u32 \<Rightarrow> sle \<Rightarrow> bool" where
  "line_releasable high account_flags e \<longleftrightarrow>
     (valU32 sfFlags e AND side high lsfHighNoSkywell lsfLowNoSkywell \<noteq> 0) = (account_flags AND lsfDefaultSkywell \<noteq> 0) \<and>
     valU32 sfFlags e AND side high lsfHighFreeze lsfLowFreeze = 0 \<and>
     mValue (valAmount (side high sfHighLimit sfLowLimit) e) = 0 \<and>
     valU32 (side high sfHighQualityIn sfLowQualityIn) e = 0 \<and>
     valU32 (side high sfHighQualityOut sfLowQualityOut) e = 0"

definition sender_balance :: "bool \<Rightarrow> sle \<Rightarrow> stamount" where
  "sender_balance high e = (if high then negate (valAmount sfBalance e) else valAmount sfBalance e)"

definition releases :: "bool \<Rightarrow> u32 \<Rightarrow> stamount \<Rightarrow> sle \<Rightarrow> bool" where
  "releases high account_flags after e \<longleftrightarrow>
     signum (sender_balance high e) > 0 \<and> signum after \<le> 0 \<and>
     valU32 sfFlags e AND side high lsfHighReserve lsfLowReserve \<noteq> 0 \<and> line_releasable high account_flags e"

definition drops_line :: "bool \<Rightarrow> u32 \<Rightarrow> stamount \<Rightarrow> sle \<Rightarrow> bool" where
  "drops_line high account_flags after e \<longleftrightarrow>
     releases high account_flags after e \<and> mValue after = 0 \<and>
     valU32 sfFlags e AND side high lsfLowReserve lsfHighReserve = 0"

definition lower_owner_count :: "sle \<Rightarrow> sle" where
  "lower_owner_count g = (if valU32 sfOwnerCount g = 0 then g else put sfOwnerCount (STUInt32 (valU32 sfOwnerCount g - 1)) g)"

definition credited_line :: "bool \<Rightarrow> u32 \<Rightarrow> stamount \<Rightarrow> sle \<Rightarrow> sle" where
  "credited_line high account_flags after e =
     put sfBalance (STAmount (if high then negate after else after))
       (if releases high account_flags after e
        then put sfFlags (STUInt32 (valU32 sfFlags e AND NOT (side high lsfHighReserve lsfLowReserve))) e else e)"

definition credited :: "bool \<Rightarrow> u256 \<Rightarrow> u256 \<Rightarrow> stamount \<Rightarrow> (u256 \<rightharpoonup> sle) \<Rightarrow> (u256 \<rightharpoonup> sle)" where
  "credited high owner line after V =
     (let g = the (V owner); e = the (V line)
      in (if releases high (getFlags g) after e then V(owner \<mapsto> lower_owner_count g) else V)
           (line \<mapsto> credited_line high (getFlags g) after e))"

text \<open>A line and the account root of its sender, in a view.\<close>

definition line_and_root :: "(u256 \<rightharpoonup> sle) \<Rightarrow> u256 \<Rightarrow> u256 \<Rightarrow> sle \<Rightarrow> sle \<Rightarrow> bool" where
  "line_and_root V owner line g e \<longleftrightarrow>
     V owner = Some g \<and> sleType g = ltACCOUNT_ROOT \<and> V line = Some e \<and> sleType e = ltSKYWELL_STATE"

subsection \<open>Native currency is conserved\<close>

lemma native_total_put:
  assumes "native_root V k e"
  shows "native_total (V(k \<mapsto> put sfBalance (STAmount a) e)) =
    native_total V - amount_value (valAmount sfBalance e) + amount_value a"
    "account_roots (V(k \<mapsto> put sfBalance (STAmount a) e)) = account_roots V"
proof -
  have r: "account_roots (V(k \<mapsto> put sfBalance (STAmount a) e)) = account_roots V" and k: "k \<in> account_roots V"
    using assms by (auto simp: account_roots_def native_root_def)
  have "finite (account_roots V)" by simp
  then show "native_total (V(k \<mapsto> put sfBalance (STAmount a) e)) =
      native_total V - amount_value (valAmount sfBalance e) + amount_value a"
    using k assms unfolding native_total_def r by (simp add: sum.remove [of _ k] native_root_def)
  show "account_roots (V(k \<mapsto> put sfBalance (STAmount a) e)) = account_roots V" by (rule r)
qed

lemma native_less:
  assumes "canonical a" "mIsNative a" "canonical b" "mIsNative b"
  shows "amount_less a b = Inr (amount_value a < amount_value b)"
proof -
  have c: "isComparable a b" using assms canonical_nativeD(1) by (auto simp: isComparable_def isSWT_amount_def)
  show ?thesis using compare_amount_value [OF assms(1,3) c] c by (simp add: amount_less_def throwComparable_def)
qed

lemma moved_conserves:
  assumes "native_root V i e" "native_root V j f" "i \<noteq> j" "moved i j x V V'"
  shows "native_total V' = native_total V"
proof -
  obtain a b where V': "V' = V(i \<mapsto> put sfBalance (STAmount a) e, j \<mapsto> put sfBalance (STAmount b) f)"
    and v: "amount_value a = amount_value (valAmount sfBalance e) - x" "amount_value b = amount_value (valAmount sfBalance f) + x"
    using assms by (auto simp: moved_def native_root_def)
  have "native_root (V(i \<mapsto> put sfBalance (STAmount a) e)) j f" using assms by (simp add: native_root_def)
  then show ?thesis using native_total_put(1) [OF assms(1), of a] v unfolding V' by (simp add: native_total_put(1))
qed

lemma transfer_xrp_spec:
  fixes A :: app and s :: les and src dst :: Account
  defines "i \<equiv> getAccountRootIndex (app_sha512 A) src" and "j \<equiv> getAccountRootIndex (app_sha512 A) dst"
  assumes ok: "les_ok s" and ij: "i \<noteq> j" and e: "native_root (view s) i e" and f: "native_root (view s) j f"
    and n: "canonical n" "mIsNative n"
  shows "runs (transfer_xrp A src dst n) s (\<lambda>ter s'. les_ok s' \<and> rest s' = rest s \<and>
    (if amount_value (valAmount sfBalance e) < amount_value n then ter = failed_processing s \<and> view s' = view s
     else ter = tesSUCCESS \<and> moved i j (amount_value n) (view s) (view s')))"
    (is "runs _ _ ?Q")
proof -
  let ?V = "view s" and ?R = "rest s"
  note E = e [unfolded native_root_def] and F = f [unfolded native_root_def]
  have eo: "entry_ok e" and fo: "entry_ok f" using E F view_entry(3) [of s] ok by (auto simp: les_ok_def)
  have be: "getFieldAmount sfBalance e = Inr (valAmount sfBalance e)" and bf: "getFieldAmount sfBalance f = Inr (valAmount sfBalance f)"
    using E F eo fo by (auto intro!: get_val(4) hasField_account simp: field_types)
  obtain a where a: "amount_sub (valAmount sfBalance e) n = Inr a" "amount_value a = amount_value (valAmount sfBalance e) - amount_value n"
    using native_sub [of "valAmount sfBalance e" n] E n by auto
  obtain b where b: "amount_add (valAmount sfBalance f) n = Inr b" "amount_value b = amount_value (valAmount sfBalance f) + amount_value n"
    using native_add [of "valAmount sfBalance f" n] F n by auto
  have less: "amount_less (valAmount sfBalance e) n = Inr (amount_value (valAmount sfBalance e) < amount_value n)"
    using native_less E n by blast
  show ?thesis
    unfolding transfer_xrp_def i_def [symmetric] j_def [symmetric] runs_bind setFieldAmount_def
    apply (rule runs_cache, rule ok [unfolded les_ok_st])
    apply (rule runs_cache, assumption)
    subgoal premises st for s1 s2
    proof -
      have st2: "st s2 ?V {i, j} {} {} ?R" using st(2) E F by (auto simp: insert_commute)
      have p: "mParams s2 = mParams s" using stD(3) [OF st2] by simp
      show ?thesis
        using E F
        apply (simp add: runs_bind)
        apply (rule runs_field, rule st2, simp, simp, rule be)
        apply (simp add: less)
        apply (intro conjI impI)
        subgoal using st_les_ok [OF st2] p by (simp add: runs_def retM_def failed_processing_def)
        subgoal
          apply (simp add: a(1) runs_bind)
          apply (rule runs_put_modify, rule st2, simp, simp, rule hasField_account, simp, simp add: field_types)
          apply (rule runs_field, assumption, simp, use ij in simp, rule bf)
          apply (simp add: b(1) runs_bind)
          apply (rule runs_put_modify, assumption, simp, use ij in simp, rule hasField_account, simp, simp add: field_types)
          using a(2) b(2) by (auto simp: moved_def dest: st_les_ok)
        done
    qed
    done
qed

lemma failed_processing_not_success [simp]: "failed_processing s \<noteq> tesSUCCESS"
  by (simp add: failed_processing_def ters)

lemma accountSend_native:
  fixes A :: app and s :: les and src dst :: Account
  defines "i \<equiv> getAccountRootIndex (app_sha512 A) src" and "j \<equiv> getAccountRootIndex (app_sha512 A) dst"
  assumes ok: "les_ok s" and e: "view s i = Some e" and f: "view s j = Some f"
    and n: "mIsNative n" "mValue n \<noteq> 0" and acc: "src \<noteq> dst" "src \<noteq> 0" "dst \<noteq> 0" and d: "mDeferredCredits s = None"
  shows "accountSend A src dst n s = transfer_xrp A src dst n s"
proof -
  obtain s1 where s1: "entryCache i s = Inr (Some i, s1)" "st s1 (view s) {i} {} {} (rest s)"
    using st_cache [OF ok [unfolded les_ok_st] e] by metis
  obtain s2 where s2: "entryCache j s1 = Inr (Some j, s2)"
    using st_cache [OF s1(2) f] by metis
  show ?thesis
    unfolding accountSend_def transfer_xrp_def i_def [symmetric] j_def [symmetric]
    using n acc d by (simp add: bindM_def cacheCredit_def retM_def s1(1) s2 split: sum.split prod.split)
qed

subsection \<open>Credits along an existing line\<close>

lemma side_simps [simp]: "side True a b = a" "side False a b = b"
  by (simp_all add: side_def)

lemma line_field_types [simp]:
  "fieldType (side h sfHighLimit sfLowLimit) = STI_AMOUNT"
  "fieldType (side h sfHighQualityIn sfLowQualityIn) = STI_UINT32"
  "fieldType (side h sfHighQualityOut sfLowQualityOut) = STI_UINT32"
  by (simp_all add: side_def)

lemma runs_field_eq:
  assumes "st s V L M P R" "i \<in> L" "V i = Some e"
  shows "runs (fieldM get (Some i)) s Q = (case get e of Inl _ \<Rightarrow> False | Inr v \<Rightarrow> Q v s)"
    and "runs (deref (Some i)) s Q' = Q' e s"
proof -
  obtain x where "map_of (mEntries s) i = Some x" "mEntry x = e" "mAction x \<noteq> taaDELETE"
    using st_entry [OF assms(1,2)] assms(3) by (metis option.inject)
  then show "runs (fieldM get (Some i)) s Q = (case get e of Inl _ \<Rightarrow> False | Inr v \<Rightarrow> Q v s)"
    and "runs (deref (Some i)) s Q' = Q' e s"
    by (simp_all add: runs_def fieldM_def bindM_def deref_def liftM_def split: sum.split)
qed

lemma line_gets:
  assumes "entry_ok e" "sleType e = ltSKYWELL_STATE"
  shows "getFieldAmount sfBalance e = Inr (valAmount sfBalance e)" "getFieldU32 sfFlags e = Inr (valU32 sfFlags e)"
    "getFieldAmount (side high sfHighLimit sfLowLimit) e = Inr (valAmount (side high sfHighLimit sfLowLimit) e)"
    "getFieldU32 (side high sfHighQualityIn sfLowQualityIn) e = Inr (valU32 (side high sfHighQualityIn sfLowQualityIn) e)"
    "getFieldU32 (side high sfHighQualityOut sfLowQualityOut) e = Inr (valU32 (side high sfHighQualityOut sfLowQualityOut) e)"
  using hasField_line [OF assms(2)] get_val [OF assms(1)] by (simp_all add: side_def)

lemma runs_line_unused:
  assumes st: "st s V L M P R" and i: "i \<in> L" "V i = Some e" "sleType e = ltSKYWELL_STATE"
  shows "runs (line_unused high (Some i) (valU32 sfFlags e) af) s Q = Q (line_releasable high af e) s"
proof -
  have ok: "entry_ok e" using st_view [OF st i(2)] by simp
  show ?thesis
    by (simp add: line_unused_def runs_bind runs_field_eq(1) [OF st i(1,2)] line_gets [OF ok i(3)] line_releasable_def)
qed

lemma runs_lower_count:
  assumes st: "st s V L M {} R" and i: "i \<in> L" "V i = Some g" "sleType g = ltACCOUNT_ROOT"
    and Q: "\<And>s' M'. st s' (V(i \<mapsto> lower_owner_count g)) L M' {} R \<Longrightarrow> M \<subseteq> M' \<Longrightarrow> Q () s'"
  shows "runs (decrementOwnerCount (Some i)) s Q"
proof -
  have "entry_ok g" using st_view [OF st i(2)] by simp
  then have g: "getFieldU32 sfOwnerCount g = Inr (valU32 sfOwnerCount g)"
    using get_val(1) hasField_account(4) [OF i(3)] by simp
  show ?thesis
    unfolding decrementOwnerCount_def runs_bind runs_field_eq(1) [OF st i(1,2)] g sum.case setFieldU32_def
    using Q [of s M] st i
    by (auto simp: runs_bind lower_owner_count_def fun_upd_idem hasField_account intro!: runs_put_modify [OF st i(1,2)] Q)
qed

lemma runs_finish_line:
  assumes st: "st s V L M {} R" and i: "i \<in> L" "V i = Some e" "sleType e = ltSKYWELL_STATE"
    and Q: "\<And>s' M'. st s' (V(i \<mapsto> put sfBalance (STAmount b) (if rel then put sfFlags (STUInt32 fl) e else e))) L M' {} R \<Longrightarrow> Q () s'"
  shows "runs (whenM rel (updateM (setFieldU32 sfFlags fl) (Some i))) s (\<lambda>_ s'.
    runs (updateM (setFieldAmount sfBalance b) (Some i)) s' (\<lambda>_ s'. runs (entryModify (Some i)) s' Q))"
proof (cases rel)
  case False
  then show ?thesis using i
    by (auto simp: whenM_def setFieldAmount_def hasField_line intro!: runs_put_modify [OF st i(1,2)] Q)
next
  case True
  show ?thesis
    using True i unfolding whenM_def setFieldU32_def setFieldAmount_def
    apply simp
    apply (rule runs_put [OF st i(1,2)], simp add: hasField_line, simp)
    apply (rule runs_put, assumption, rule i(1), simp, simp add: hasField_line, simp)
    apply (rule runs_modify, assumption, rule i(1))
    by (rule Q [where M' = "insert i M"]) (simp split: if_splits)
qed

lemma skywellCredit_spec:
  fixes A :: app and s :: les and src dst :: Account and n :: stamount
  defines "r \<equiv> getAccountRootIndex (app_sha512 A) src"
    and "k \<equiv> getSkywellStateIndex (app_sha512 A) src dst (currency (mIssue n))"
  assumes ok: "les_ok s" and d: "mDeferredCredits s = None" and ge: "line_and_root (view s) r k g e"
    and c: "amount_sub (sender_balance (src > dst) e) n = Inr c" and nd: "\<not> drops_line (src > dst) (getFlags g) c e"
  shows "runs (skywellCredit A src dst n) s (\<lambda>ter s'. ter = tesSUCCESS \<and> les_ok s' \<and> rest s' = rest s \<and>
    view s' = credited (src > dst) r k c (view s))"
proof -
  let ?V = "view s" and ?R = "rest s" and ?h = "src > dst" and ?f = "valU32 sfFlags e"
  note G = ge [unfolded line_and_root_def]
  have rk: "r \<noteq> k" using G by auto
  have eok: "entry_ok e" using ok G view_entry(3) [of s k e] by (auto simp: les_ok_def)
  define rel where "rel = releases ?h (getFlags g) c e"
  define fl where "fl = ?f AND NOT (side ?h lsfHighReserve lsfLowReserve)"
  have V': "credited ?h r k c ?V = (if rel then ?V(r \<mapsto> lower_owner_count g) else ?V)
      (k \<mapsto> put sfBalance (STAmount (if ?h then negate c else c)) (if rel then put sfFlags (STUInt32 fl) e else e))"
    using G by (simp add: credited_def credited_line_def rel_def fl_def Let_def)
  have fin: "runs (whenM rel (updateM (setFieldU32 sfFlags fl) (Some k))) s1 (\<lambda>_ s'.
      runs (updateM (setFieldAmount sfBalance (if ?h then negate c else c)) (Some k)) s' (\<lambda>_ s'.
        runs (entryModify (Some k)) s' (\<lambda>_ s'. les_ok s' \<and> rest s' = rest s \<and> view s' = credited ?h r k c ?V)))"
    if "st s1 (if rel then ?V(r \<mapsto> lower_owner_count g) else ?V) L M {} ?R" "k \<in> L" for s1 L M
    by (rule runs_finish_line [OF that, where e = e]) (use G rk in \<open>auto simp: V' dest: st_les_ok\<close>)
  show ?thesis
    unfolding skywellCredit_def Let_def k_def [symmetric] r_def [symmetric] runs_bind
    apply (rule runs_cache, rule ok [unfolded les_ok_st])
    subgoal premises st for s1
    proof -
      have st1: "st s1 ?V {k} {} {} ?R" and d1: "mDeferredCredits s1 = None"
        using st stD(2) [OF st] d G by auto
      have cc: "runs (cacheCredit src dst n) s1 Q = Q () s1" for Q
        using d1 by (simp add: cacheCredit_def runs_def)
      have k: "?V k = Some e" "?V r = Some g" and kt: "sleType e = ltSKYWELL_STATE" "sleType g = ltACCOUNT_ROOT" using G by auto
      define pre where "pre \<longleftrightarrow> 0 < signum (sender_balance ?h e) \<and> signum c \<le> 0 \<and> ?f AND side ?h lsfHighReserve lsfLowReserve \<noteq> 0"
      have rel: "rel \<longleftrightarrow> pre \<and> line_releasable ?h (getFlags g) e" by (auto simp: rel_def releases_def pre_def)
      define del where "del \<longleftrightarrow> mValue c = 0 \<and> ?f AND side ?h lsfLowReserve lsfHighReserve = 0"
      have nd': "rel \<Longrightarrow> del = False"
        using nd by (auto simp: drops_line_def rel_def del_def)
      show ?thesis
        apply (simp add: k runs_bind cc split del: if_split)
        apply (simp add: runs_field_eq(1) [OF st1] k line_gets [OF eok kt(1)] runs_bind c sender_balance_def [symmetric]
            pre_def [symmetric] split del: if_split)
        apply (cases pre)
        subgoal
          apply (simp add: runs_bind k split del: if_split)
          apply (rule runs_cache, rule st1)
          apply (simp add: k split del: if_split)
          apply (rule runs_deref, assumption, simp, rule k(2))
          apply (simp add: runs_line_unused kt k split del: if_split)
          subgoal premises p for s2
          proof (cases rel)
            case False
            then show ?thesis using p(1) rel fin [where ?s1.0 = s2] p(2)
              by (simp add: runs_line_unused [OF p(2) _ k(1) kt(1)] k runs_bind whenM_def)
          next
            case True
            then have R: "line_releasable ?h (getFlags g) e" using rel by simp
            show ?thesis
              using True R nd' [OF True]
              apply (simp add: runs_line_unused [OF p(2) _ k(1) kt(1)] k runs_bind decrementOwnerCount_account_def r_def [symmetric]
                  split del: if_split)
              apply (rule runs_cache, rule p(2))
              apply (simp add: k split del: if_split)
              apply (rule runs_lower_count, assumption, simp, rule k(2), rule kt(2))
              subgoal for s3 s4 M'
                using fin [of s4 "{r, k}" M'] by (simp add: k whenM_def fl_def del_def [symmetric] runs_bind split del: if_split)
              done
          qed
          done
        subgoal using fin [where ?s1.0 = s1] st1 rel by (simp add: k runs_bind whenM_def)
        done
    qed
    done
qed

lemma runs_checkState:
  assumes st: "st s V L M {} R" and k: "k \<in> L" and ge: "line_and_root V (getAccountRootIndex (app_sha512 A) src) k g e"
    and Q: "\<And>s' M'. st s'
        ((if releases high (getFlags g) c e
          then V(getAccountRootIndex (app_sha512 A) src \<mapsto> lower_owner_count g,
                 k \<mapsto> put sfFlags (STUInt32 (valU32 sfFlags e AND NOT (side high lsfHighReserve lsfLowReserve))) e) else V))
        L M' {k} R \<Longrightarrow> Q (drops_line high (getFlags g) c e) s'"
  shows "runs (checkState A (Some k) high src (sender_balance high e) c) s Q"
proof -
  define r where "r = getAccountRootIndex (app_sha512 A) src"
  let ?f = "valU32 sfFlags e"
  note Q = Q [folded r_def]
  have G: "V r = Some g" "sleType g = ltACCOUNT_ROOT" "V k = Some e" "sleType e = ltSKYWELL_STATE"
    using ge by (auto simp: line_and_root_def r_def)
  have rk: "r \<noteq> k" and eok: "entry_ok e" using G st_view [OF st G(3)] by auto
  define pre where "pre \<longleftrightarrow> 0 < signum (sender_balance high e) \<and> signum c \<le> 0 \<and> ?f AND side high lsfHighReserve lsfLowReserve \<noteq> 0"
  define rel where "rel = releases high (getFlags g) c e"
  have rel: "rel \<longleftrightarrow> pre \<and> line_releasable high (getFlags g) e" by (auto simp: rel_def releases_def pre_def)
  have drops: "drops_line high (getFlags g) c e \<longleftrightarrow> rel \<and> mValue c = 0 \<and> ?f AND side high lsfLowReserve lsfHighReserve = 0"
    by (auto simp: drops_line_def rel_def)
  show ?thesis
    unfolding checkState_def runs_bind runs_field_eq(1) [OF st k G(3)] line_gets [OF eok G(4)] sum.case r_def [symmetric] pre_def [symmetric]
    apply (rule runs_cache, rule st)
    subgoal premises p for s1
    proof -
      have st1: "st s1 V (insert r L) M {} R" using p G by simp
      have lu: "runs (line_unused high (Some k) ?f (getFlags g)) s1 Q' = Q' (line_releasable high (getFlags g) e) s1" for Q'
        using runs_line_unused [OF st1 _ G(3,4)] k by simp
      have "runs (if pre then bindM (deref (Some r)) (\<lambda>g. line_unused high (Some k) ?f (getFlags g)) else retM False) s1 Q' = Q' rel s1" for Q'
        using rel lu by (auto simp: runs_bind runs_field_eq(2) [OF st1 _ G(1)])
      note un = this
      have ptr: "(if V r = None then None else Some r) = Some r" using G by simp
      show ?thesis
      proof (cases rel)
        case False
        have "st s1 V L M {k} R" using st_weaken [OF st1] by auto
        with Q [of s1 M] False drops show ?thesis unfolding ptr un by (simp add: rel_def)
      next
        case True
        show ?thesis
          unfolding ptr un
          apply (simp add: True runs_bind)
          apply (rule runs_lower_count, rule st1, simp, rule G(1), rule G(2))
          unfolding setFieldU32_def
          apply (rule runs_put, assumption, use k in simp, use rk G in simp, rule hasField_line, rule G(4), simp)
          subgoal premises q for s2 M' s3
          proof -
            have "st s3 (V(r \<mapsto> lower_owner_count g,
                k \<mapsto> put sfFlags (STUInt32 (?f AND NOT (side high lsfHighReserve lsfLowReserve))) e)) L M' {k} R"
              by (rule st_weaken [OF q(3)]) auto
            from Q [of s3 M'] this True drops show ?thesis by (simp add: rel_def)
          qed
          done
      qed
    qed
    done
qed

lemma send_on_line_spec:
  fixes A :: app and src :: Account
  defines "r \<equiv> getAccountRootIndex (app_sha512 A) src"
  assumes st: "st s V {k} {} {} R" and d: "mDeferredCredits R = None" and ge: "line_and_root V r k g e"
    and c: "amount_sub (sender_balance (src > dst) e) n = Inr c" and nd: "\<not> drops_line (src > dst) (getFlags g) c e"
  shows "runs (send_on_line A (Some k) src dst n) s (\<lambda>ter s'. ter = tesSUCCESS \<and> les_ok s' \<and> rest s' = R \<and>
    view s' = credited (src > dst) r k c V)"
proof -
  let ?h = "src > dst"
  have G: "V r = Some g" "sleType g = ltACCOUNT_ROOT" "V k = Some e" "sleType e = ltSKYWELL_STATE"
    using ge by (auto simp: line_and_root_def)
  have rk: "r \<noteq> k" and eok: "entry_ok e" using G st_view [OF st G(3)] by auto
  show ?thesis
    unfolding send_on_line_def Let_def runs_bind
    apply (rule runs_field, rule st, simp, rule G(3), rule line_gets(1) [OF eok G(4)])
    apply (simp add: sender_balance_def [symmetric] c nd runs_bind split del: if_split)
    apply (rule runs_checkState, rule st, simp, rule ge [unfolded r_def])
    subgoal premises p for s1 M'
    proof -
      note p = p [folded r_def]
      have d1: "mDeferredCredits s1 = None" using stD(2) [OF p] d by simp
      then have cc: "runs (cacheCredit src dst n) s1 Q = Q () s1" for Q by (simp add: cacheCredit_def runs_def)
      show ?thesis
        unfolding cc setFieldAmount_def
        apply (rule runs_put [where x = "if releases ?h (getFlags g) c e
            then put sfFlags (STUInt32 (valU32 sfFlags e AND NOT (side ?h lsfHighReserve lsfLowReserve))) e else e"], rule p, simp)
           apply (use G(3) in simp, use G(4) in \<open>simp add: hasField_line\<close>, simp)
        apply (simp add: nd runs_bind)
        apply (rule runs_modify, assumption, simp)
        subgoal premises q for s2 s3
        proof -
          have "st s3 (credited ?h r k c V) {k} (insert k M') {} R"
            using q(2) G by (simp add: credited_def credited_line_def split: if_splits)
          then show ?thesis by (auto dest: st_les_ok)
        qed
        done
    qed
    done
qed

lemma issue_redeem_spec:
  fixes A :: app and s :: les and acc :: Account and iss :: issue
  assumes ok: "les_ok s" and d: "mDeferredCredits s = None"
  shows "line_and_root (view s) (getAccountRootIndex (app_sha512 A) (account iss))
        (getSkywellStateIndex (app_sha512 A) (account iss) acc (currency iss)) g e \<Longrightarrow>
      amount_sub (sender_balance (account iss > acc) e) n = Inr c \<Longrightarrow> \<not> drops_line (account iss > acc) (getFlags g) c e \<Longrightarrow>
      runs (issue_iou A acc n iss) s (\<lambda>ter s'. ter = tesSUCCESS \<and> les_ok s' \<and> rest s' = rest s \<and>
        view s' = credited (account iss > acc) (getAccountRootIndex (app_sha512 A) (account iss))
          (getSkywellStateIndex (app_sha512 A) (account iss) acc (currency iss)) c (view s))" (is "?lr \<Longrightarrow> ?c \<Longrightarrow> ?nd \<Longrightarrow> ?issue")
    and "line_and_root (view s) (getAccountRootIndex (app_sha512 A) acc)
        (getSkywellStateIndex (app_sha512 A) acc (account iss) (currency iss)) g e \<Longrightarrow>
      amount_sub (sender_balance (acc > account iss) e) n = Inr c \<Longrightarrow> \<not> drops_line (acc > account iss) (getFlags g) c e \<Longrightarrow>
      runs (redeem_iou A acc n iss) s (\<lambda>ter s'. ter = tesSUCCESS \<and> les_ok s' \<and> rest s' = rest s \<and>
        view s' = credited (acc > account iss) (getAccountRootIndex (app_sha512 A) acc)
          (getSkywellStateIndex (app_sha512 A) acc (account iss) (currency iss)) c (view s))"  (is "?lr' \<Longrightarrow> ?c' \<Longrightarrow> ?nd' \<Longrightarrow> ?redeem")
proof -
  have *: "runs (entryCache k) s (\<lambda>p s'. runs (f p) s' Q)"
    if "view s k = Some e" "\<And>s'. st s' (view s) {k} {} {} (rest s) \<Longrightarrow> runs (f (Some k)) s' Q"
    for k f and Q :: "TER \<Rightarrow> les \<Rightarrow> bool"
    by (rule runs_cache, rule ok [unfolded les_ok_st]) (use that in simp)
  show "?lr \<Longrightarrow> ?c \<Longrightarrow> ?nd \<Longrightarrow> ?issue"
    unfolding issue_iou_def Let_def runs_bind
    by (rule *) (auto simp: line_and_root_def d intro!: send_on_line_spec)
  show "?lr' \<Longrightarrow> ?c' \<Longrightarrow> ?nd' \<Longrightarrow> ?redeem"
    unfolding redeem_iou_def Let_def runs_bind
    by (rule *) (auto simp: line_and_root_def d intro!: send_on_line_spec)
qed

text \<open>Sets on a ledger with given entries, for examples.\<close>

definition ledger_with :: "sle list \<Rightarrow> ledger" where
  "ledger_with es = empty_ledger\<lparr>mAccountStateMap := foldr (\<lambda>e. smap_insert (sleIndex e) e) es []\<rparr>"

definition set_with :: "sle list \<Rightarrow> les" where
  "set_with es = LedgerEntrySet (ledger_with es) tapNONE False"

definition new_entry :: "LedgerEntryType \<Rightarrow> u256 \<Rightarrow> sle" where
  "new_entry t i = projr (STLedgerEntry t i)"

definition example_root :: "Account \<Rightarrow> u64 \<Rightarrow> sle" where
  "example_root acc n =
     put sfBalance (STAmount (STAmount_u64 n False)) (new_entry ltACCOUNT_ROOT (getAccountRootIndex (app_sha512 example_app) acc))"

definition example_iou :: "Account \<Rightarrow> u64 \<Rightarrow> bool \<Rightarrow> stamount" where
  "example_iou issuer v neg =
     \<lparr>mIssue = \<lparr>currency = 5, account = issuer\<rparr>, mValue = v, mOffset = -15, mIsNative = False, mIsNegative = neg\<rparr>"

definition example_line :: "Account \<Rightarrow> Account \<Rightarrow> u64 \<Rightarrow> bool \<Rightarrow> sle" where
  "example_line a b v neg =
     put sfBalance (STAmount (example_iou noAccount v neg)) (new_entry ltSKYWELL_STATE (getSkywellStateIndex (app_sha512 example_app) a b 5))"

lemma ledger_with_ok:
  assumes "\<forall>e \<in> set es. entry_ok e \<and> sleIndex e \<noteq> 0"
  shows "ledger_ok (ledger_with es)" "getSLE (ledger_with es) = foldr (\<lambda>e m. m(sleIndex e \<mapsto> e)) es Map.empty"
proof -
  let ?m = "foldr (\<lambda>e. smap_insert (sleIndex e) e) es []" and ?f = "foldr (\<lambda>e m. m(sleIndex e \<mapsto> e)) es Map.empty"
  have "smap_valid ?m \<and> map_of ?m = ?f"
    by (induction es) (simp_all add: std.valid_insert std.lookup_insert, simp add: smap_valid_def)
  moreover have "?f i = Some e \<Longrightarrow> e \<in> set es \<and> sleIndex e = i" for i e
    by (induction es) (auto split: if_splits)
  ultimately show "ledger_ok (ledger_with es)" "getSLE (ledger_with es) = ?f"
    using assms by (auto simp: ledger_ok_def ledger_with_def getSLE_def fun_eq_iff)
qed

lemma set_with_ok:
  assumes "\<forall>e \<in> set es. entry_ok e \<and> sleIndex e \<noteq> 0"
  shows "les_ok (set_with es)" "view (set_with es) = foldr (\<lambda>e m. m(sleIndex e \<mapsto> e)) es Map.empty"
    "mDeferredCredits (set_with es) = None" "mParams (set_with es) = tapNONE"
  using ledger_with_ok [OF assms] les_ok_init(2) [OF ledger_with_ok(1) [OF assms], of tapNONE False]
  by (simp_all add: set_with_def view_init) (simp_all add: LedgerEntrySet_def)

lemma new_entry_ok:
  assumes "findByType t \<noteq> None"
  shows "entry_ok (new_entry t i)" "sleIndex (new_entry t i) = i" "sleType (new_entry t i) = t"
  using assms STLedgerEntry_spec by (auto simp: new_entry_def)

lemma be_bytes_numeral: "be_bytes (numeral n) v = be_bytes (pred_numeral n) (v div 256) @ [word_of_nat (v mod 256)]"
  by (subst numeral_eq_Suc) (rule be_bytes.simps(2))

lemma replicate_numeral_eq: "replicate (numeral n) v = v # replicate (pred_numeral n) v"
  by (subst numeral_eq_Suc) (rule replicate_Suc)

lemmas key_eval = getAccountRootIndex_def getOwnerDirIndex_def getSkywellStateIndex_def Serializer_getSHA512Half_def
  getSHA512Half_def key_data_simps word_bytes_def example_app_def spaceAccount_def spaceOwnerDir_def spaceSkywell_def uint_of_bytes_def
  be_val_def be_bytes_numeral replicate_numeral_eq min_def max_def

lemma example_root_simps:
  "entry_ok (example_root acc n)" "sleIndex (example_root acc n) = getAccountRootIndex (app_sha512 example_app) acc"
  "sleType (example_root acc n) = ltACCOUNT_ROOT" "valAmount sfBalance (example_root acc n) = STAmount_u64 n False"
proof -
  have "findByType ltACCOUNT_ROOT \<noteq> None" by (simp add: findByType_def)
  note n = new_entry_ok [OF this]
  show "entry_ok (example_root acc n)" unfolding example_root_def
    by (rule entry_ok_put) (simp_all add: n hasField_account)
  show "sleIndex (example_root acc n) = getAccountRootIndex (app_sha512 example_app) acc"
    "sleType (example_root acc n) = ltACCOUNT_ROOT" "valAmount sfBalance (example_root acc n) = STAmount_u64 n False"
    by (simp_all add: example_root_def n)
qed

text \<open>C5: sending native currency between two existing accounts conserves the native currency of the
  whole ledger. If the sender holds the amount, the call succeeds, the sender's balance goes down and
  the receiver's up by exactly the amount, and no other entry changes; otherwise the call reports a
  failure and no entry changes.\<close>

theorem native_send_conserves:
  fixes A :: app and s :: les and src dst :: Account
  defines "i \<equiv> getAccountRootIndex (app_sha512 A) src" and "j \<equiv> getAccountRootIndex (app_sha512 A) dst"
  assumes "les_ok s" "mDeferredCredits s = None" "native_root (view s) i e" "native_root (view s) j f" "i \<noteq> j"
    "canonical n" "mIsNative n" "mValue n \<noteq> 0" "src \<noteq> 0" "dst \<noteq> 0"
  shows "\<exists>ter s'. accountSend A src dst n s = Inr (ter, s') \<and> les_ok s' \<and> native_total (view s') = native_total (view s) \<and>
    (if amount_value (valAmount sfBalance e) < amount_value n then ter = failed_processing s \<and> view s' = view s
     else ter = tesSUCCESS \<and> moved i j (amount_value n) (view s) (view s'))"
proof -
  have ij: "src \<noteq> dst" using assms(7) by (auto simp: i_def j_def)
  have eq: "accountSend A src dst n s = transfer_xrp A src dst n s"
    using assms ij by (intro accountSend_native) (auto simp: native_root_def)
  obtain ter s' where r: "transfer_xrp A src dst n s = Inr (ter, s')" "les_ok s'"
    "if amount_value (valAmount sfBalance e) < amount_value n then ter = failed_processing s \<and> view s' = view s
     else ter = tesSUCCESS \<and> moved i j (amount_value n) (view s) (view s')"
    using transfer_xrp_spec [OF assms(3), where A = A and src = src and dst = dst and e = e and f = f and n = n] assms
    by (auto elim!: runsE)
  then show ?thesis using moved_conserves [OF assms(5,6,7)] by (auto simp: eq split: if_splits)
qed

theorem native_send_conserves_witness:
  "\<exists>ter s'. accountSend example_app 11 12 (STAmount_u64 7 False) (set_with [example_root 11 100, example_root 12 1]) = Inr (ter, s') \<and>
     ter = tesSUCCESS \<and> native_total (view s') = native_total (view (set_with [example_root 11 100, example_root 12 1]))"
proof -
  let ?i = "getAccountRootIndex (app_sha512 example_app) 11" and ?j = "getAccountRootIndex (app_sha512 example_app) 12"
  let ?s = "set_with [example_root 11 100, example_root 12 1]"
  have ij: "?i \<noteq> ?j" "?i \<noteq> 0" "?j \<noteq> 0" by (simp_all add: key_eval)
  then have s: "les_ok ?s" "mDeferredCredits ?s = None" "view ?s = [?i \<mapsto> example_root 11 100, ?j \<mapsto> example_root 12 1]"
    using set_with_ok [of "[example_root 11 100, example_root 12 1]"] by (auto simp: example_root_simps fun_upd_twist)
  have c: "canonical (STAmount_u64 7 False)" "canonical (STAmount_u64 100 False)" "canonical (STAmount_u64 1 False)"
    "mIsNative (STAmount_u64 n False)" for n
    by (simp_all add: STAmount_u64_def canonical_def isSWT_amount_def default_issue_def isSWT_def cMaxNativeN_def)
  have r: "native_root (view ?s) ?i (example_root 11 100)" "native_root (view ?s) ?j (example_root 12 1)"
    using ij c by (simp_all add: native_root_def s example_root_simps)
  have v: "amount_value (STAmount_u64 100 False) = 100" "amount_value (STAmount_u64 7 False) = 7"
    by (simp_all add: amount_value_def magnitude_def STAmount_u64_def)
  obtain ter s' where "accountSend example_app 11 12 (STAmount_u64 7 False) ?s = Inr (ter, s')" "native_total (view s') = native_total (view ?s)"
    "ter = tesSUCCESS"
    using native_send_conserves [OF s(1,2) r ij(1), of "STAmount_u64 7 False"] c v
    by (auto simp: STAmount_u64_def example_root_simps)
  then show ?thesis by blast
qed

lemma example_line_simps:
  "entry_ok (example_line a b v neg)" "sleIndex (example_line a b v neg) = getSkywellStateIndex (app_sha512 example_app) a b 5"
  "sleType (example_line a b v neg) = ltSKYWELL_STATE" "valAmount sfBalance (example_line a b v neg) = example_iou noAccount v neg"
proof -
  have "findByType ltSKYWELL_STATE \<noteq> None" by (simp add: findByType_def)
  note n = new_entry_ok [OF this]
  show "entry_ok (example_line a b v neg)" unfolding example_line_def
    by (rule entry_ok_put) (simp_all add: n hasField_line)
  show "sleIndex (example_line a b v neg) = getSkywellStateIndex (app_sha512 example_app) a b 5"
    "sleType (example_line a b v neg) = ltSKYWELL_STATE" "valAmount sfBalance (example_line a b v neg) = example_iou noAccount v neg"
    by (simp_all add: example_line_def n)
qed

text \<open>C25: on an existing line that stays, the general credit and the issuing or redeeming routine agree:
  both succeed and lead to the same ledger, in which the balance of the line in the sender's terms is
  lower by the amount, and, when the sender's balance is used up and nothing else keeps the line for
  the sender, the sender's reserve flag is cleared and its owner count lowered.\<close>

theorem credit_routines_agree:
  fixes A :: app and s :: les and src dst :: Account and n :: stamount
  defines "r \<equiv> getAccountRootIndex (app_sha512 A) src"
    and "k \<equiv> getSkywellStateIndex (app_sha512 A) src dst (currency (mIssue n))"
  assumes "les_ok s" "mDeferredCredits s = None" "line_and_root (view s) r k g e"
    "amount_sub (sender_balance (src > dst) e) n = Inr c" "\<not> drops_line (src > dst) (getFlags g) c e"
    "currency iss = currency (mIssue n)"
    "src = account iss \<and> op = issue_iou A dst n iss \<or> dst = account iss \<and> op = redeem_iou A src n iss"
  shows "\<exists>s1 s2. skywellCredit A src dst n s = Inr (tesSUCCESS, s1) \<and> op s = Inr (tesSUCCESS, s2) \<and> les_ok s1 \<and> les_ok s2 \<and>
    view s1 = credited (src > dst) r k c (view s) \<and> view s2 = view s1"
proof -
  have 1: "runs (skywellCredit A src dst n) s (\<lambda>ter s'. ter = tesSUCCESS \<and> les_ok s' \<and> rest s' = rest s \<and>
      view s' = credited (src > dst) r k c (view s))"
    unfolding r_def k_def by (rule skywellCredit_spec) (use assms in auto)
  have 2: "runs op s (\<lambda>ter s'. ter = tesSUCCESS \<and> les_ok s' \<and> rest s' = rest s \<and>
      view s' = credited (src > dst) r k c (view s))"
    using assms issue_redeem_spec [OF assms(3,4), where n = n and c = c and A = A and iss = iss] by auto
  from 1 2 show ?thesis by (auto elim!: runsE)
qed

theorem credit_routines_agree_witness:
  "\<exists>s1 s2. skywellCredit example_app 11 12 (example_iou 11 3000000000000000 False)
       (set_with [example_root 11 100, example_line 11 12 7000000000000000 False]) = Inr (tesSUCCESS, s1) \<and>
     issue_iou example_app 12 (example_iou 11 3000000000000000 False) \<lparr>currency = 5, account = 11\<rparr>
       (set_with [example_root 11 100, example_line 11 12 7000000000000000 False]) = Inr (tesSUCCESS, s2) \<and> view s2 = view s1 \<and>
     map_option (valAmount sfBalance) (view s1 (getSkywellStateIndex (app_sha512 example_app) 11 12 5)) =
       Some (example_iou noAccount 4000000000000000 False)"
proof -
  let ?i = "getAccountRootIndex (app_sha512 example_app) 11" and ?k = "getSkywellStateIndex (app_sha512 example_app) 11 12 5"
  let ?es = "[example_root 11 100, example_line 11 12 7000000000000000 False]"
  let ?n = "example_iou 11 3000000000000000 False" and ?c = "example_iou noAccount 4000000000000000 False"
  have ik: "?i \<noteq> ?k" "?i \<noteq> 0" "?k \<noteq> 0" by (simp_all add: key_eval)
  then have s: "les_ok (set_with ?es)" "mDeferredCredits (set_with ?es) = None"
    "view (set_with ?es) ?i = Some (example_root 11 100)" "view (set_with ?es) ?k = Some (example_line 11 12 7000000000000000 False)"
    using set_with_ok [of ?es] by (auto simp: example_root_simps example_line_simps)
  have cur: "currency (mIssue ?n) = 5" by (simp add: example_iou_def)
  have lr: "line_and_root (view (set_with ?es)) ?i (getSkywellStateIndex (app_sha512 example_app) 11 12 (currency (mIssue ?n)))
      (example_root 11 100) (example_line 11 12 7000000000000000 False)"
    by (simp add: line_and_root_def s cur example_root_simps example_line_simps)
  have sub: "amount_sub (example_iou noAccount 7000000000000000 False) ?n = Inr ?c" by code_simp
  have c: "amount_sub (sender_balance (11 > (12 :: Account)) (example_line 11 12 7000000000000000 False)) ?n = Inr ?c"
    using sub by (simp add: sender_balance_def example_line_simps)
  have nd: "\<not> drops_line (11 > (12 :: Account)) f ?c e" for f e
    by (simp add: drops_line_def releases_def example_iou_def signum_def)
  have is_c: "currency \<lparr>currency = 5, account = 11\<rparr> = currency (mIssue ?n)" by (simp add: cur)
  obtain s1 s2 where r: "skywellCredit example_app 11 12 ?n (set_with ?es) = Inr (tesSUCCESS, s1)"
    "issue_iou example_app 12 ?n \<lparr>currency = 5, account = 11\<rparr> (set_with ?es) = Inr (tesSUCCESS, s2)"
    "view s1 = credited (11 > (12 :: Account)) ?i ?k ?c (view (set_with ?es))" "view s2 = view s1"
    using credit_routines_agree [OF s(1,2) lr c nd is_c, of "issue_iou example_app 12 ?n \<lparr>currency = 5, account = 11\<rparr>"] cur
    by auto
  then have "map_option (valAmount sfBalance) (view s1 ?k) = Some ?c"
    by (simp add: credited_def credited_line_def Let_def)
  with r show ?thesis by blast
qed

end
