(* ===== verification/EntrySafety.thy ===== *)
theory EntrySafety
  imports Credit
begin

text \<open>
  Operations on the set that create no entries keep it well-typed on every input, and what they
  have loaded stays loaded unless they delete it. This holds without any assumption about the
  directories or the fields of the entries: where those are wrong the operation throws.
\<close>

text \<open>The entries of the view that the set has not loaded.\<close>

definition unloaded :: "les \<Rightarrow> u256 set" where
  "unloaded s = {k. k \<notin> loaded s \<and> view s k \<noteq> None}"

definition keeps :: "'a lesM \<Rightarrow> bool" where
  "keeps m \<longleftrightarrow> (\<forall>s x s'. les_typed s \<longrightarrow> m s = Inr (x, s') \<longrightarrow> les_typed s' \<and> unloaded s' \<subseteq> unloaded s)"

named_theorems keeps_rules

lemma keepsI:
  assumes "\<And>s x s'. les_typed s \<Longrightarrow> m s = Inr (x, s') \<Longrightarrow> les_typed s' \<and> unloaded s' \<subseteq> unloaded s"
  shows "keeps m"
  using assms by (simp add: keeps_def)

lemma keeps_ret [keeps_rules]: "keeps (retM x)"
  by (simp add: keeps_def retM_def)

lemma keeps_lift [keeps_rules]: "keeps (liftM r)"
  by (auto simp: keeps_def liftM_def split: sum.splits)

lemma keeps_bind [keeps_rules]:
  assumes "keeps m" "\<And>x. keeps (f x)"
  shows "keeps (bindM m f)"
proof (rule keepsI)
  fix s x s' assume s: "les_typed s" "bindM m f s = Inr (x, s')"
  then obtain y s1 where "m s = Inr (y, s1)" "f y s1 = Inr (x, s')" by (auto simp: bindM_def split: sum.splits)
  with assms s(1) show "les_typed s' \<and> unloaded s' \<subseteq> unloaded s" unfolding keeps_def by blast
qed

lemma keeps_if [keeps_rules]: "(b \<Longrightarrow> keeps m) \<Longrightarrow> (\<not> b \<Longrightarrow> keeps m') \<Longrightarrow> keeps (if b then m else m')"
  by simp

lemma keeps_when [keeps_rules]: "keeps m \<Longrightarrow> keeps (whenM b m)"
  by (simp add: whenM_def keeps_ret)

lemma keeps_deref [keeps_rules]: "keeps (deref p)"
  by (auto simp: keeps_def deref_def split: option.splits)

lemma keeps_field [keeps_rules]: "keeps (fieldM get p)"
  unfolding fieldM_def by (intro keeps_rules)

text \<open>Replacing an entry: the view and the loaded keys change at its key only, and it is loaded or gone.\<close>

lemma typed_st: "les_typed s \<Longrightarrow> st s (view s) (loaded s) (marked s) (pending s) (rest s)"
  by (auto simp: st_def)

lemma keeps_set_entry:
  assumes "les_typed s" "sleIndex (mEntry e) = i" "i \<noteq> 0" "entry_ok (mEntry e)" "action_ok (mLedger s) i e"
  shows "les_typed (set_entry i e s) \<and> unloaded (set_entry i e s) \<subseteq> unloaded s"
  using st_set_entry [OF typed_st [OF assms(1)] assms(2-5)] by (auto simp: unloaded_def st_def split: if_splits)

lemma keeps_update:
  assumes "\<And>e e'. upd e = Inr e' \<Longrightarrow> entry_ok e \<Longrightarrow> entry_ok e' \<and> sleIndex e' = sleIndex e"
  shows "keeps (updateM upd p)"
proof (rule keepsI)
  fix s x s' assume s: "les_typed s" "updateM upd p s = Inr (x, s')"
  then obtain i e y where e: "p = Some i" "map_of (mEntries s) i = Some e" "upd (mEntry e) = Inr y"
    "s' = set_entry i (e\<lparr>mEntry := y\<rparr>) s"
    by (auto simp: updateM_def set_entry_def split: option.splits sum.splits)
  note i = les_typedD(3) [OF s(1) e(2)]
  with assms [OF e(3)] show "les_typed s' \<and> unloaded s' \<subseteq> unloaded s"
    unfolding e(4) by (intro keeps_set_entry s(1)) (auto simp: action_ok_def)
qed

lemma keeps_setField [keeps_rules]: "keeps (updateM (setField f v) p)"
  by (rule keeps_update) (drule (1) setField_ok, simp)

lemma keeps_setters [keeps_rules]:
  "keeps (updateM (setFieldU16 f a) p)" "keeps (updateM (setFieldU32 f b) p)" "keeps (updateM (setFieldU64 f c) p)"
  "keeps (updateM (setFieldH160 f h) p)" "keeps (updateM (setFieldH256 f d) p)" "keeps (updateM (setFieldAccount f i) p)"
  "keeps (updateM (setFieldAmount f j) p)" "keeps (updateM (setFieldV256 f k) p)" "keeps (updateM (setFieldArray f l) p)"
  unfolding setFieldU16_def setFieldU32_def setFieldU64_def setFieldH160_def setFieldH256_def setFieldAccount_def
    setFieldAmount_def setFieldV256_def setFieldArray_def
  by (rule keeps_setField)+

lemma keeps_cache [keeps_rules]: "keeps (entryCache i)"
proof (rule keepsI)
  fix s x s' assume s: "les_typed s" "entryCache i s = Inr (x, s')"
  have "runs (entryCache i) s (\<lambda>x s'. les_typed s' \<and> unloaded s' \<subseteq> unloaded s)"
    by (rule runs_cache [OF typed_st [OF s(1)]]) (auto simp: st_def unloaded_def split: if_splits)
  with s(2) show "les_typed s' \<and> unloaded s' \<subseteq> unloaded s" by (simp add: runs_def)
qed

lemma keeps_modify [keeps_rules]: "keeps (entryModify p)"
proof (rule keepsI)
  fix s x s' assume s: "les_typed s" "entryModify p s = Inr (x, s')"
  then obtain i e where e: "p = Some i" "map_of (mEntries s) i = Some e" "entryModify_sle (mEntry e) s = Inr (x, s')"
    by (auto simp: entryModify_def bindM_def deref_def split: option.splits)
  note i = les_typedD(3) [OF s(1) e(2)]
  have "mAction e \<noteq> taaDELETE" using e(2,3) i by (auto simp: entryModify_sle_def)
  then have "i \<in> loaded s" using e(2) by (simp add: loaded_def)
  then have "runs (entryModify p) s (\<lambda>_ s'. les_typed s' \<and> unloaded s' \<subseteq> unloaded s)"
    unfolding e(1) by (rule runs_modify [OF typed_st [OF s(1)]]) (auto simp: st_def unloaded_def)
  with s(2) show "les_typed s' \<and> unloaded s' \<subseteq> unloaded s" by (simp add: runs_def)
qed

lemma keeps_delete [keeps_rules]: "keeps (entryDelete p)"
proof (rule keepsI)
  fix s x s' assume s: "les_typed s" "entryDelete p s = Inr (x, s')"
  then obtain i e where e: "p = Some i" "map_of (mEntries s) i = Some e" "entryDelete_sle (mEntry e) s = Inr (x, s')"
    by (auto simp: entryDelete_def bindM_def deref_def split: option.splits)
  note i = les_typedD(3) [OF s(1) e(2)]
  show "les_typed s' \<and> unloaded s' \<subseteq> unloaded s"
  proof (cases "mAction e = taaDELETE")
    case True
    then have "s' = s" using e(2,3) i by (auto simp: entryDelete_sle_def)
    with s(1) show ?thesis by simp
  next
    case False
    then have "i \<in> loaded s" using e(2) by (simp add: loaded_def)
    then have "runs (entryDelete p) s (\<lambda>_ s'. les_typed s' \<and> unloaded s' \<subseteq> unloaded s)"
      unfolding e(1) by (rule runs_delete [OF typed_st [OF s(1)]]) (auto simp: st_def unloaded_def split: if_splits)
    with s(2) show ?thesis by (simp add: runs_def)
  qed
qed

lemma keeps_cacheCredit [keeps_rules]: "keeps (cacheCredit a b n)"
proof (rule keepsI)
  fix s x s' assume s: "les_typed s" "cacheCredit a b n s = Inr (x, s')"
  then obtain d where "s' = s\<lparr>mDeferredCredits := d\<rparr> \<or> s' = s"
    by (auto simp: cacheCredit_def split: option.splits sum.splits)
  moreover have "les_typed (s\<lparr>mDeferredCredits := d\<rparr>) = les_typed s" "unloaded (s\<lparr>mDeferredCredits := d\<rparr>) = unloaded s"
    by (simp_all add: les_typed_def unloaded_def loaded_def view_def cong: option.case_cong)
  ultimately show "les_typed s' \<and> unloaded s' \<subseteq> unloaded s" using s(1) by auto
qed

lemma keeps_dirDelete_emptied [keeps_rules]: "keeps (dirDelete_emptied A keep n r p)"
  unfolding dirDelete_emptied_def by (intro keeps_rules)

lemma keeps_apply:
  "keeps m \<Longrightarrow> les_typed s \<Longrightarrow> m s = Inr (x, s') \<Longrightarrow> les_typed s' \<and> unloaded s' \<subseteq> unloaded s"
  by (simp add: keeps_def)

lemma keeps_bind_apply:
  assumes "bindM m f s = Inr (x, s')" "keeps m" "les_typed s"
    "\<And>y s1. les_typed s1 \<Longrightarrow> f y s1 = Inr (x, s') \<Longrightarrow> m s = Inr (y, s1) \<Longrightarrow> les_typed s' \<and> unloaded s' \<subseteq> unloaded s1"
  shows "les_typed s' \<and> unloaded s' \<subseteq> unloaded s"
proof -
  obtain y s1 where m: "m s = Inr (y, s1)" "f y s1 = Inr (x, s')" using assms(1) by (auto simp: bindM_def split: sum.splits)
  with assms(2-4) show ?thesis unfolding keeps_def by blast
qed

lemma keeps_dirDelete [keeps_rules]: "keeps (dirDelete A keep n r x b soft)"
proof (rule keepsI)
  fix s v s' assume "les_typed s" "dirDelete A keep n r x b soft s = Inr (v, s')"
  then show "les_typed s' \<and> unloaded s' \<subseteq> unloaded s"
  proof (induction A keep n r x b soft s rule: dirDelete.induct)
    case (1 A keep n r x b soft s)
    have fin: "keeps (bindM (updateM (setFieldV256 sfIndexes sv) p) (\<lambda>_. bindM (entryModify p) (\<lambda>_.
        if sv = [] then dirDelete_emptied A keep n r p else retM tesSUCCESS)))" for sv p
      by (intro keeps_rules)
    from 1(4) show ?case
      unfolding dirDelete.simps [of A keep n r x b soft s]
      apply (rule keeps_bind_apply)
        apply (rule keeps_cache)
       apply (rule 1(3))
      subgoal for p s1
        apply (cases "p = None")
        subgoal using 1(1) [of p s1] by (auto simp: retM_def split: if_splits)
        subgoal
          apply simp
          apply (erule keeps_bind_apply, rule keeps_field, assumption)
          subgoal for sv s2
            using 1(2) [of p s1 sv s2] keeps_apply [OF fin [of "erase_index b x sv" p], of s2 v s']
            by (cases "x \<in> set sv") (simp add: Let_def split del: if_split, auto simp: retM_def split: if_splits)
          done
        done
      done
  qed
qed

lemma keeps_trustDelete [keeps_rules]: "keeps (trustDelete A p a b)"
  unfolding trustDelete_def by (intro keeps_rules)

lemma keeps_line_unused [keeps_rules]: "keeps (line_unused high p flags af)"
  unfolding line_unused_def by (intro keeps_rules)

lemma keeps_counts [keeps_rules]: "keeps (decrementOwnerCount p)" "keeps (incrementOwnerCount p)"
  "keeps (decrementOwnerCount_account A a)" "keeps (incrementOwnerCount_account A a)"
  unfolding decrementOwnerCount_def incrementOwnerCount_def decrementOwnerCount_account_def incrementOwnerCount_account_def
  by (intro keeps_rules)+

lemma keeps_checkState [keeps_rules]: "keeps (checkState A p high a before after)"
  unfolding checkState_def by (intro keeps_rules)

lemma keeps_send_on_line [keeps_rules]: "keeps (send_on_line A p a b n)"
  unfolding send_on_line_def Let_def by (intro keeps_rules)

lemma keeps_failed [keeps_rules]: "keeps (\<lambda>s. retM (failed_processing s) s)"
  by (simp add: keeps_def retM_def)

lemma keeps_transfers: "keeps (transfer_xrp A src dst n)" "keeps (redeem_iou A acc n iss)" "keeps (offerDelete A p)"
  unfolding transfer_xrp_def redeem_iou_def offerDelete_def by (intro keeps_rules)+

end
