(* ===== verification/LineDeletion.thy ===== *)
theory LineDeletion
  imports CreditLaws EntrySafety
begin

text \<open>
  The deletion of a trust line, which composes two removals from owner directories with the
  deletion of the entry.
\<close>

text \<open>A line in the owner directories of its two accounts.\<close>

definition line_listed :: "app \<Rightarrow> (u256 \<rightharpoonup> sle) \<Rightarrow> u256 \<Rightarrow> u256 \<Rightarrow> u256 \<Rightarrow> u64 list \<Rightarrow> u64 list \<Rightarrow> bool" where
  "line_listed A V k low high pl ph \<longleftrightarrow>
     (\<exists>e. V k = Some e \<and> sleType e = ltSKYWELL_STATE \<and> is_dir A V low pl \<and> is_dir A V high ph \<and>
       valU64 sfLowNode e \<in> set pl \<and> k \<in> set (page_entries A V low (valU64 sfLowNode e)) \<and>
       valU64 sfHighNode e \<in> set ph \<and> k \<in> set (page_entries A V high (valU64 sfHighNode e))) \<and>
     dirNode A low ` set pl \<inter> dirNode A high ` set ph = {}"

definition unlisted :: "app \<Rightarrow> (u256 \<rightharpoonup> sle) \<Rightarrow> (u256 \<rightharpoonup> sle) \<Rightarrow> u256 \<Rightarrow> u256 \<Rightarrow> u64 list \<Rightarrow> bool" where
  "unlisted A V V' k r pages \<longleftrightarrow>
     (\<exists>pages'. dir_or_none A V' r pages' \<and> set pages' \<subseteq> set pages \<and>
        mset (dir_entries A V' r pages') = mset (dir_entries A V r pages) - {#k#})"

lemma dir_frame:
  assumes "\<And>n. n \<in> set pages \<Longrightarrow> V' (dirNode A r n) = V (dirNode A r n)"
  shows "is_dir A V r pages \<Longrightarrow> is_dir A V' r pages" "dir_entries A V' r pages = dir_entries A V r pages"
    "n \<in> set pages \<Longrightarrow> page_entries A V' r n = page_entries A V r n"
    "dir_or_none A V r pages \<Longrightarrow> V' r = V r \<Longrightarrow> dir_or_none A V' r pages"
proof -
  show d: "is_dir A V r pages \<Longrightarrow> is_dir A V' r pages" using assms by (simp add: is_dir_def)
  show "n \<in> set pages \<Longrightarrow> page_entries A V' r n = page_entries A V r n" for n using assms by (simp add: page_entries_def)
  then show "dir_entries A V' r pages = dir_entries A V r pages" by (intro dir_entries_cong) simp
  show "dir_or_none A V r pages \<Longrightarrow> V' r = V r \<Longrightarrow> dir_or_none A V' r pages" using d by (simp add: dir_or_none_def)
qed

lemma loaded_kept: "unloaded s' \<subseteq> unloaded s \<Longrightarrow> k \<in> loaded s \<Longrightarrow> view s' k \<noteq> None \<Longrightarrow> k \<in> loaded s'"
  by (auto simp: unloaded_def)

lemma dir_page_type:
  assumes "is_dir A V r pages" "n \<in> set pages"
  shows "\<exists>e. V (dirNode A r n) = Some e \<and> sleType e = ltDIR_NODE"
proof -
  obtain k where "k < length pages" "n = pages ! k" using assms(2) by (auto simp: in_set_conv_nth)
  with is_dirD [OF assms(1), of k] show ?thesis by (auto simp: page_ok_def)
qed

lemma trustDelete_spec:
  fixes A :: app and s :: les and low high :: Account
  defines "rl \<equiv> getOwnerDirIndex (app_sha512 A) low" and "rh \<equiv> getOwnerDirIndex (app_sha512 A) high"
  assumes ok: "les_ok s" and k: "k \<in> loaded s" and li: "line_listed A (view s) k rl rh pl ph"
  shows "runs (trustDelete A (Some k) low high) s (\<lambda>ter s'. ter = tesSUCCESS \<and> les_ok s' \<and> rest s' = rest s \<and> view s' k = None \<and>
    unlisted A (view s) (view s') k rl pl \<and> unlisted A (view s) (view s') k rh ph \<and>
    (\<forall>i. i \<noteq> k \<longrightarrow> i \<notin> dirNode A rl ` set pl \<union> dirNode A rh ` set ph \<longrightarrow> view s' i = view s i))"
proof -
  let ?V = "view s"
  obtain e where e: "?V k = Some e" "sleType e = ltSKYWELL_STATE" and dl: "is_dir A ?V rl pl" and dh: "is_dir A ?V rh ph"
    and nl: "valU64 sfLowNode e \<in> set pl" "k \<in> set (page_entries A ?V rl (valU64 sfLowNode e))"
    and nh: "valU64 sfHighNode e \<in> set ph" "k \<in> set (page_entries A ?V rh (valU64 sfHighNode e))"
    and dis: "dirNode A rl ` set pl \<inter> dirNode A rh ` set ph = {}"
    using li by (auto simp: line_listed_def)
  have t: "les_typed s" using ok by (simp add: les_ok_def)
  have st: "st s ?V {k} {} {} (rest s)" using ok k by (auto simp: st_def les_ok_def)
  have ek: "sleIndex e = k" "entry_ok e" using view_entry [OF t e(1)] by auto
  have kl: "k \<notin> dirNode A rl ` set pl" using dir_page_type [OF dl] e by fastforce
  have kh: "k \<notin> dirNode A rh ` set ph" using dir_page_type [OF dh] e by fastforce
  have g: "getFieldU64 sfLowNode e = Inr (valU64 sfLowNode e)" "getFieldU64 sfHighNode e = Inr (valU64 sfHighNode e)"
    using get_val(2) [OF ek(2)] hasField_line [OF e(2)] by simp_all
  obtain s1 where s1: "dirDelete A False (valU64 sfLowNode e) rl k False soft s = Inr (tesSUCCESS, s1)"
    "dir_removed A rl k False pl s s1" if "soft = (\<not> isFieldPresent sfLowNode e)" for soft
    using remove_spec [OF ok dl nl, of False False "\<not> isFieldPresent sfLowNode e"] by (auto elim!: runsE)
  note s1 = s1 [OF refl]
  obtain pl' where pl': "pages_left A rl pl ?V (view s1) pl'"
    "mset (dir_entries A (view s1) rl pl') = mset (dir_entries A ?V rl pl) - {#k#}" and ok1: "les_ok s1" "rest s1 = rest s"
    using s1(2) by (auto simp: dir_removed_def)
  have f1: "view s1 i = ?V i" if "i \<notin> dirNode A rl ` set pl" for i using pl'(1) that by (simp add: pages_left_def)
  have h1: "view s1 (dirNode A rh n) = ?V (dirNode A rh n)" if "n \<in> set ph" for n using f1 dis that by blast
  have k1: "k \<in> loaded s1"
    using loaded_kept [OF conjunct2 [OF keeps_apply [OF keeps_dirDelete t s1(1)]] k] f1 [OF kl] e by simp
  note F1 = dir_frame [where A = A and r = rh and pages = ph and V' = "view s1" and V = ?V, OF h1]
  obtain s2 where s2: "dirDelete A False (valU64 sfHighNode e) rh k False soft s1 = Inr (tesSUCCESS, s2)"
    "dir_removed A rh k False ph s1 s2" if "soft = (\<not> isFieldPresent sfHighNode e)" for soft
    using remove_spec [OF ok1(1) F1(1) [OF _ dh] nh(1), of k False False "\<not> isFieldPresent sfHighNode e"] F1(3) [of "valU64 sfHighNode e"] nh
    by (auto elim!: runsE)
  note s2 = s2 [OF refl]
  obtain ph' where ph': "pages_left A rh ph (view s1) (view s2) ph'"
    "mset (dir_entries A (view s2) rh ph') = mset (dir_entries A (view s1) rh ph) - {#k#}" and ok2: "les_ok s2" "rest s2 = rest s1"
    using s2(2) by (auto simp: dir_removed_def)
  have f2: "view s2 i = view s1 i" if "i \<notin> dirNode A rh ` set ph" for i using ph'(1) that by (simp add: pages_left_def)
  have k2: "k \<in> loaded s2"
    using loaded_kept [OF conjunct2 [OF keeps_apply [OF keeps_dirDelete _ s2(1)]] k1] f2 [OF kh] f1 [OF kl] e ok1 by (simp add: les_ok_def)
  have st2: "st s2 (view s2) {k} {} {} (rest s)" using ok2 ok1 k2 by (auto simp: st_def les_ok_def)
  show ?thesis
    unfolding trustDelete_def rl_def [symmetric] rh_def [symmetric] runs_bind
    apply (simp add: runs_field_eq [OF st _ e(1)] g ek)
    apply (rule runsI, rule s1(1), simp add: ek)
    apply (rule runsI, rule s2(1), simp)
    apply (rule runs_delete, rule st2, simp)
    subgoal premises p for s3
    proof -
      let ?V3 = "(view s2)(k := None)"
      have v3: "les_ok s3" "view s3 = ?V3" "rest s3 = rest s" using st_les_ok [of s3 ?V3] p by auto
      have l: "?V3 (dirNode A rl n) = view s1 (dirNode A rl n)" if "n \<in> set pl" for n
        using that kl dis f2 by (metis IntI empty_iff fun_upd_other image_eqI)
      have h: "?V3 (dirNode A rh n) = view s2 (dirNode A rh n)" if "n \<in> set ph" for n
        using that kh by (metis fun_upd_other image_eqI)
      have r0: "rl = dirNode A rl 0" "rh = dirNode A rh 0" "0 \<in> set pl" "0 \<in> set ph"
        using is_dir_root [OF dl] is_dir_root [OF dh] nth_mem [of 0 pl] nth_mem [of 0 ph] by auto
      have sub: "set pl' \<subseteq> set pl" "set ph' \<subseteq> set ph" using pl' ph' by (auto simp: pages_left_def)
      note L = dir_frame [where A = A and r = rl and pages = pl' and V' = ?V3 and V = "view s1"]
        and H = dir_frame [where A = A and r = rh and pages = ph' and V' = ?V3 and V = "view s2"]
      have "unlisted A ?V ?V3 k rl pl"
        unfolding unlisted_def using pl' L(2,4) l [of 0] l sub r0
        by (intro exI [of _ pl']) (auto simp: pages_left_def subset_iff)
      moreover have "unlisted A ?V ?V3 k rh ph"
        unfolding unlisted_def using ph' H(2,4) h [of 0] h sub r0 F1(2)
        by (intro exI [of _ ph']) (auto simp: pages_left_def subset_iff)
      ultimately show ?thesis using v3 f1 f2 by auto
    qed
    done
qed

text \<open>C26: deleting a line that is listed in the owner directories of both its accounts succeeds: the
  line is gone, each of the two directories has lost exactly one occurrence of its key and is still
  well-formed or gone, and no entry outside the two directories changes.\<close>

theorem trustDelete_removes_line:
  fixes A :: app and s :: les and low high :: Account
  defines "rl \<equiv> getOwnerDirIndex (app_sha512 A) low" and "rh \<equiv> getOwnerDirIndex (app_sha512 A) high"
  assumes "les_ok s" "line_listed A (view s) k rl rh pl ph"
  shows "\<exists>s'. bindM (entryCache k) (\<lambda>p. trustDelete A p low high) s = Inr (tesSUCCESS, s') \<and> les_ok s' \<and> view s' k = None \<and>
    unlisted A (view s) (view s') k rl pl \<and> unlisted A (view s) (view s') k rh ph \<and>
    (\<forall>i. i \<noteq> k \<longrightarrow> i \<notin> dirNode A rl ` set pl \<union> dirNode A rh ` set ph \<longrightarrow> view s' i = view s i)"
proof -
  obtain e where e: "view s k = Some e" using assms(4) by (auto simp: line_listed_def)
  obtain s1 where s1: "entryCache k s = Inr (Some k, s1)" "st s1 (view s) {k} {} {} (rest s)"
    using st_cache [OF assms(3) [unfolded les_ok_st] e] by metis
  then have "les_ok s1" "k \<in> loaded s1" "view s1 = view s" by (auto simp: st_def les_ok_def)
  with trustDelete_spec [of s1 k A low high pl ph] assms(4) s1(1) show ?thesis
    by (auto simp: bindM_def rl_def rh_def elim!: runsE)
qed

lemma example_line_nodes: "valU64 sfLowNode (example_line a b v neg) = 0" "valU64 sfHighNode (example_line a b v neg) = 0"
proof -
  obtain es where es: "findByType ltSKYWELL_STATE = Some es" by (auto simp: findByType_def)
  show "valU64 sfLowNode (example_line a b v neg) = 0" "valU64 sfHighNode (example_line a b v neg) = 0"
    using es by (auto simp: example_line_def new_entry_def STLedgerEntry_spec(1) [OF es] put_def valU64_def set_template_def
        findByType_def addCommonFields_def sfields)
qed

lemma example_listed:
  "\<exists>s pl ph. les_ok s \<and> line_listed example_app (view s) (getSkywellStateIndex (app_sha512 example_app) 11 12 5)
     (getOwnerDirIndex (app_sha512 example_app) 11) (getOwnerDirIndex (app_sha512 example_app) 12) pl ph"
proof -
  let ?k = "getSkywellStateIndex (app_sha512 example_app) 11 12 5" and ?l = "getOwnerDirIndex (app_sha512 example_app) 11"
    and ?h = "getOwnerDirIndex (app_sha512 example_app) 12" and ?e = "example_line 11 12 0 False"
  let ?s = "set_with [?e]"
  have ne: "?k \<noteq> ?l" "?k \<noteq> ?h" "?l \<noteq> ?h" "?k \<noteq> 0" "?l \<noteq> 0" "?h \<noteq> 0" by (simp_all add: key_eval)
  have s: "les_ok ?s" "view ?s = [?k \<mapsto> ?e]"
    using set_with_ok [of "[?e]"] ne by (auto simp: example_line_simps)
  have none: "dir_or_none example_app (view ?s) ?l []" using ne by (simp add: dir_or_none_def s)
  obtain n1 s1 where s1: "dir_added example_app ?l ?k [] ?s (tesSUCCESS, n1) s1"
    using owner.add_spec [OF s(1) _ none, of ?k 11] ne by (auto simp: dir_added_def elim!: runsE)
  then obtain pl where pl: "les_ok s1" "is_dir example_app (view s1) ?l pl" "set pl = {n1}"
    "?k \<in> set (page_entries example_app (view s1) ?l n1)" "\<forall>i. i \<notin> dirNode example_app ?l ` {n1} \<longrightarrow> view s1 i = view ?s i"
    by (auto simp: dir_added_def ters)
  have n1: "n1 = 0" using is_dir_root [OF pl(2)] pl(3) nth_mem [of 0 pl] by auto
  then have v1: "view s1 i = view ?s i" if "i \<noteq> ?l" for i using pl(5) that by simp
  have none: "dir_or_none example_app (view s1) ?h []" using ne v1 by (simp add: dir_or_none_def s)
  obtain n2 s2 where s2: "dir_added example_app ?h ?k [] s1 (tesSUCCESS, n2) s2"
    using owner.add_spec [OF pl(1) _ none, of ?k 12] ne by (auto simp: dir_added_def elim!: runsE)
  then obtain ph where ph: "les_ok s2" "is_dir example_app (view s2) ?h ph" "set ph = {n2}"
    "?k \<in> set (page_entries example_app (view s2) ?h n2)" "\<forall>i. i \<notin> dirNode example_app ?h ` {n2} \<longrightarrow> view s2 i = view s1 i"
    by (auto simp: dir_added_def ters)
  have n2: "n2 = 0" using is_dir_root [OF ph(2)] ph(3) nth_mem [of 0 ph] by auto
  then have v2: "view s2 i = view s1 i" if "i \<noteq> ?h" for i using ph(5) that by simp
  note F = dir_frame [where A = example_app and r = ?l and pages = pl and V' = "view s2" and V = "view s1"]
  have nodes: "valU64 sfLowNode ?e = 0" "valU64 sfHighNode ?e = 0" by (simp_all add: example_line_nodes)
  have "line_listed example_app (view s2) ?k ?l ?h pl ph"
    unfolding line_listed_def using nodes pl ph n1 n2 v1 v2 ne s F(1,3) by (auto simp: example_line_simps)
  with ph(1) show ?thesis by blast
qed

theorem trustDelete_removes_line_witness:
  "\<exists>s s'. bindM (entryCache (getSkywellStateIndex (app_sha512 example_app) 11 12 5)) (\<lambda>p. trustDelete example_app p 11 12) s =
     Inr (tesSUCCESS, s') \<and> view s' (getSkywellStateIndex (app_sha512 example_app) 11 12 5) = None"
proof -
  obtain s pl ph where "les_ok s" "line_listed example_app (view s) (getSkywellStateIndex (app_sha512 example_app) 11 12 5)
     (getOwnerDirIndex (app_sha512 example_app) 11) (getOwnerDirIndex (app_sha512 example_app) 12) pl ph"
    using example_listed by blast
  from trustDelete_removes_line [OF this] show ?thesis by blast
qed

end
