(* ===== verification/TxFormat.thy ===== *)
theory TxFormat
  imports Ledgers
begin

text \<open>
  Transactions as typed objects: the fields, result codes and flags they use, the templates of
  \<open>protocol/impl/TxFormats.cpp\<close>, the accessors that \<open>STTx\<close> inherits from \<open>STObject\<close>, the fitting of an
  untyped object to a template (\<open>STObject::setType\<close>), and the parts of a batch transaction
  (\<open>protocol/STTx.h\<close>).
\<close>

unbundle bit_operations_syntax

named_theorems tx_flags \<open>the flags of transactions and of account roots\<close>

subsection \<open>Fields, result codes and flags of transactions\<close>

definition sfTransactionType :: sfield where [sfields]: "sfTransactionType = SField STI_UINT16 2"
definition sfWeight :: sfield where [sfields]: "sfWeight = SField STI_UINT16 4"
definition sfSourceTag :: sfield where [sfields]: "sfSourceTag = SField STI_UINT32 3"
definition sfLedgerSequence :: sfield where [sfields]: "sfLedgerSequence = SField STI_UINT32 6"
definition sfDestinationTag :: sfield where [sfields]: "sfDestinationTag = SField STI_UINT32 14"
definition sfTimestamp :: sfield where [sfields]: "sfTimestamp = SField STI_UINT32 15"
definition sfQualityIn :: sfield where [sfields]: "sfQualityIn = SField STI_UINT32 20"
definition sfQualityOut :: sfield where [sfields]: "sfQualityOut = SField STI_UINT32 21"
definition sfOperationLimit :: sfield where [sfields]: "sfOperationLimit = SField STI_UINT32 29"
definition sfSetFlag :: sfield where [sfields]: "sfSetFlag = SField STI_UINT32 33"
definition sfClearFlag :: sfield where [sfields]: "sfClearFlag = SField STI_UINT32 34"
definition sfMessageHash :: sfield where [sfields]: "sfMessageHash = SField STI_HASH256 10"
definition sfInvoiceID :: sfield where [sfields]: "sfInvoiceID = SField STI_HASH256 17"
definition sfAmendment :: sfield where [sfields]: "sfAmendment = SField STI_HASH256 19"
definition sfTicketID :: sfield where [sfields]: "sfTicketID = SField STI_HASH256 20"
definition sfLimitAmount :: sfield where [sfields]: "sfLimitAmount = SField STI_AMOUNT 3"
definition sfSendMax :: sfield where [sfields]: "sfSendMax = SField STI_AMOUNT 9"
definition sfSigningPubKey :: sfield where [sfields]: "sfSigningPubKey = SField STI_VL 3"
definition sfTxnSignature :: sfield where [sfields]: "sfTxnSignature = SField STI_VL 4"
definition sfDestination :: sfield where [sfields]: "sfDestination = SField STI_ACCOUNT 3"
definition sfPaths :: sfield where [sfields]: "sfPaths = SField STI_PATHSET 1"
definition sfMemos :: sfield where [sfields]: "sfMemos = SField STI_ARRAY 9"
definition sfOperations :: sfield where [sfields]: "sfOperations = SField STI_ARRAY 10"
definition sfSigns :: sfield where [sfields]: "sfSigns = SField STI_ARRAY 11"

definition telBAD_DOMAIN :: TER where [ters]: "telBAD_DOMAIN = -398"
definition telBAD_PATH_COUNT :: TER where [ters]: "telBAD_PATH_COUNT = -397"
definition telBAD_PUBLIC_KEY :: TER where [ters]: "telBAD_PUBLIC_KEY = -396"
definition telNO_DST_PARTIAL :: TER where [ters]: "telNO_DST_PARTIAL = -393"
definition telBAD_NICKNAME :: TER where [ters]: "telBAD_NICKNAME = -390"
definition temBAD_CURRENCY :: TER where [ters]: "temBAD_CURRENCY = -296"
definition temBAD_EXPIRATION :: TER where [ters]: "temBAD_EXPIRATION = -295"
definition temBAD_ISSUER :: TER where [ters]: "temBAD_ISSUER = -293"
definition temBAD_LIMIT :: TER where [ters]: "temBAD_LIMIT = -292"
definition temBAD_QUORUM :: TER where [ters]: "temBAD_QUORUM = -291"
definition temBAD_WEIGHT :: TER where [ters]: "temBAD_WEIGHT = -290"
definition temBAD_OFFER :: TER where [ters]: "temBAD_OFFER = -289"
definition temBAD_PATH :: TER where [ters]: "temBAD_PATH = -288"
definition temBAD_PATH_LOOP :: TER where [ters]: "temBAD_PATH_LOOP = -287"
definition temBAD_SEND_SWT_LIMIT :: TER where [ters]: "temBAD_SEND_SWT_LIMIT = -286"
definition temBAD_SEND_SWT_MAX :: TER where [ters]: "temBAD_SEND_SWT_MAX = -285"
definition temBAD_SEND_SWT_NO_DIRECT :: TER where [ters]: "temBAD_SEND_SWT_NO_DIRECT = -284"
definition temBAD_SEND_SWT_PARTIAL :: TER where [ters]: "temBAD_SEND_SWT_PARTIAL = -283"
definition temBAD_SEND_SWT_PATHS :: TER where [ters]: "temBAD_SEND_SWT_PATHS = -282"
definition temBAD_SEQUENCE :: TER where [ters]: "temBAD_SEQUENCE = -281"
definition temBAD_SIGNATURE :: TER where [ters]: "temBAD_SIGNATURE = -280"
definition temBAD_TRANSFER_RATE :: TER where [ters]: "temBAD_TRANSFER_RATE = -278"
definition temDST_IS_SRC :: TER where [ters]: "temDST_IS_SRC = -277"
definition temDST_NEEDED :: TER where [ters]: "temDST_NEEDED = -276"
definition temREDUNDANT :: TER where [ters]: "temREDUNDANT = -273"
definition temREDUNDANTSIGN :: TER where [ters]: "temREDUNDANTSIGN = -272"
definition temSKYWELL_EMPTY :: TER where [ters]: "temSKYWELL_EMPTY = -271"
definition temDISABLED :: TER where [ters]: "temDISABLED = -270"
definition temUNCERTAIN :: TER where [ters]: "temUNCERTAIN = -269"
definition tefBAD_ADD_AUTH :: TER where [ters]: "tefBAD_ADD_AUTH = -197"
definition tefCREATED :: TER where [ters]: "tefCREATED = -194"
definition tefEXCEPTION :: TER where [ters]: "tefEXCEPTION = -193"
definition tefNO_AUTH_REQUIRED :: TER where [ters]: "tefNO_AUTH_REQUIRED = -191"
definition terFUNDS_SPENT :: TER where [ters]: "terFUNDS_SPENT = -98"
definition terNO_AUTH :: TER where [ters]: "terNO_AUTH = -95"
definition terNO_LINE :: TER where [ters]: "terNO_LINE = -94"
definition terOWNERS :: TER where [ters]: "terOWNERS = -93"
definition terLAST :: TER where [ters]: "terLAST = -91"
definition terNO_SKYWELL :: TER where [ters]: "terNO_SKYWELL = -90"
definition tecPATH_PARTIAL :: TER where [ters]: "tecPATH_PARTIAL = 101"
definition tecUNFUNDED_ADD :: TER where [ters]: "tecUNFUNDED_ADD = 102"
definition tecUNFUNDED_OFFER :: TER where [ters]: "tecUNFUNDED_OFFER = 103"
definition tecUNFUNDED_PAYMENT :: TER where [ters]: "tecUNFUNDED_PAYMENT = 104"
definition tecINSUF_RESERVE_LINE :: TER where [ters]: "tecINSUF_RESERVE_LINE = 122"
definition tecINSUF_RESERVE_OFFER :: TER where [ters]: "tecINSUF_RESERVE_OFFER = 123"
definition tecNO_DST :: TER where [ters]: "tecNO_DST = 124"
definition tecNO_DST_INSUF_SWT :: TER where [ters]: "tecNO_DST_INSUF_SWT = 125"
definition tecNO_LINE_INSUF_RESERVE :: TER where [ters]: "tecNO_LINE_INSUF_RESERVE = 126"
definition tecNO_LINE_REDUNDANT :: TER where [ters]: "tecNO_LINE_REDUNDANT = 127"
definition tecPATH_DRY :: TER where [ters]: "tecPATH_DRY = 128"
definition tecUNFUNDED :: TER where [ters]: "tecUNFUNDED = 129"
definition tecMASTER_DISABLED :: TER where [ters]: "tecMASTER_DISABLED = 130"
definition tecNO_REGULAR_KEY :: TER where [ters]: "tecNO_REGULAR_KEY = 131"
definition tecOWNERS :: TER where [ters]: "tecOWNERS = 132"
definition tecNO_ISSUER :: TER where [ters]: "tecNO_ISSUER = 133"
definition tecNO_AUTH :: TER where [ters]: "tecNO_AUTH = 134"
definition tecNO_LINE :: TER where [ters]: "tecNO_LINE = 135"
definition tecFROZEN :: TER where [ters]: "tecFROZEN = 137"
definition tecNO_TARGET :: TER where [ters]: "tecNO_TARGET = 138"
definition tecNO_PERMISSION :: TER where [ters]: "tecNO_PERMISSION = 139"
definition tecNO_ENTRY :: TER where [ters]: "tecNO_ENTRY = 140"
definition tecINSUFFICIENT_RESERVE :: TER where [ters]: "tecINSUFFICIENT_RESERVE = 141"
definition tecNEED_MASTER_KEY :: TER where [ters]: "tecNEED_MASTER_KEY = 142"
definition tecDST_TAG_NEEDED :: TER where [ters]: "tecDST_TAG_NEEDED = 143"
definition tecINTERNAL :: TER where [ters]: "tecINTERNAL = 144"

definition lsfPasswordSpent :: u32 where [tx_flags]: "lsfPasswordSpent = 0x00010000"
definition lsfRequireAuth :: u32 where [tx_flags]: "lsfRequireAuth = 0x00040000"
definition lsfDisallowSWT :: u32 where [tx_flags]: "lsfDisallowSWT = 0x00080000"
definition lsfNoFreeze :: u32 where [tx_flags]: "lsfNoFreeze = 0x00200000"

definition requireDestTag :: u32 where [tx_flags]: "requireDestTag = 0x00010000"
definition tfFullyCanonicalSig :: u32 where [tx_flags]: "tfFullyCanonicalSig = 0x80000000"
definition tfUniversal :: u32 where [tx_flags]: "tfUniversal = tfFullyCanonicalSig"
definition tfOptionalDestTag :: u32 where [tx_flags]: "tfOptionalDestTag = 0x00020000"
definition tfRequireAuth :: u32 where [tx_flags]: "tfRequireAuth = 0x00040000"
definition tfOptionalAuth :: u32 where [tx_flags]: "tfOptionalAuth = 0x00080000"
definition tfDisallowSWT :: u32 where [tx_flags]: "tfDisallowSWT = 0x00100000"
definition tfAllowSWT :: u32 where [tx_flags]: "tfAllowSWT = 0x00200000"
definition asfRequireDest :: u32 where [tx_flags]: "asfRequireDest = 1"
definition asfRequireAuth :: u32 where [tx_flags]: "asfRequireAuth = 2"
definition asfDisallowSWT :: u32 where [tx_flags]: "asfDisallowSWT = 3"
definition asfDisableMaster :: u32 where [tx_flags]: "asfDisableMaster = 4"
definition asfAccountTxnID :: u32 where [tx_flags]: "asfAccountTxnID = 5"
definition asfNoFreeze :: u32 where [tx_flags]: "asfNoFreeze = 6"
definition asfGlobalFreeze :: u32 where [tx_flags]: "asfGlobalFreeze = 7"
definition asfDefaultSkywell :: u32 where [tx_flags]: "asfDefaultSkywell = 8"
definition tfPassive :: u32 where [tx_flags]: "tfPassive = 0x00010000"
definition tfImmediateOrCancel :: u32 where [tx_flags]: "tfImmediateOrCancel = 0x00020000"
definition tfFillOrKill :: u32 where [tx_flags]: "tfFillOrKill = 0x00040000"
definition tfSell :: u32 where [tx_flags]: "tfSell = 0x00080000"
definition tfNoSkywellDirect :: u32 where [tx_flags]: "tfNoSkywellDirect = 0x00010000"
definition tfPartialPayment :: u32 where [tx_flags]: "tfPartialPayment = 0x00020000"
definition tfLimitQuality :: u32 where [tx_flags]: "tfLimitQuality = 0x00040000"
definition tfSetfAuth :: u32 where [tx_flags]: "tfSetfAuth = 0x00010000"
definition tfSetNoSkywell :: u32 where [tx_flags]: "tfSetNoSkywell = 0x00020000"
definition tfClearNoSkywell :: u32 where [tx_flags]: "tfClearNoSkywell = 0x00040000"
definition tfSetFreeze :: u32 where [tx_flags]: "tfSetFreeze = 0x00100000"
definition tfClearFreeze :: u32 where [tx_flags]: "tfClearFreeze = 0x00200000"
definition tfUniversalMask :: u32 where [tx_flags]: "tfUniversalMask = NOT tfUniversal"
definition tfAccountSetMask :: u32 where [tx_flags]: "tfAccountSetMask = NOT (tfUniversal OR requireDestTag OR tfOptionalDestTag OR tfRequireAuth OR tfOptionalAuth OR tfDisallowSWT OR tfAllowSWT)"
definition tfOfferCreateMask :: u32 where [tx_flags]: "tfOfferCreateMask = NOT (tfUniversal OR tfPassive OR tfImmediateOrCancel OR tfFillOrKill OR tfSell)"
definition tfPaymentMask :: u32 where [tx_flags]: "tfPaymentMask = NOT (tfUniversal OR tfPartialPayment OR tfLimitQuality OR tfNoSkywellDirect)"
definition tfTrustSetMask :: u32 where [tx_flags]: "tfTrustSetMask = NOT (tfUniversal OR tfSetfAuth OR tfSetNoSkywell OR tfClearNoSkywell OR tfSetFreeze OR tfClearFreeze)"
definition tfRelationSetMask :: u32 where [tx_flags]: "tfRelationSetMask = NOT tfUniversal"
definition tfAccountMergeMask :: u32 where [tx_flags]: "tfAccountMergeMask = NOT tfUniversal"

subsection \<open>Formats\<close>

datatype TxType =
    ttINVALID | ttPAYMENT | ttCLAIM | ttWALLET_ADD | ttACCOUNT_SET | ttPASSWORD_FUND | ttREGULAR_KEY_SET
  | ttNICKNAME_SET | tt_no_longer_used | ttTICKET_CREATE | ttTICKET_CANCEL | ttACCOUNT_MERGE | ttTRUST_SET
  | ttREL_SET | ttREL_DEL | ttAMENDMENT | ttFEE | ttMNGFEE | ttBLKLISTSET | ttBLKLISTRMV | ttMNGISSUER
  | ttOPERATION | ttSIGN_SET | ttMESSAGE

fun tx_code :: "TxType \<Rightarrow> int" where
  "tx_code ttINVALID = -1"
| "tx_code ttPAYMENT = 0"
| "tx_code ttCLAIM = 1"
| "tx_code ttWALLET_ADD = 2"
| "tx_code ttACCOUNT_SET = 3"
| "tx_code ttPASSWORD_FUND = 4"
| "tx_code ttREGULAR_KEY_SET = 5"
| "tx_code ttNICKNAME_SET = 6"
| "tx_code tt_no_longer_used = 9"
| "tx_code ttTICKET_CREATE = 10"
| "tx_code ttTICKET_CANCEL = 11"
| "tx_code ttACCOUNT_MERGE = 12"
| "tx_code ttTRUST_SET = 20"
| "tx_code ttREL_SET = 21"
| "tx_code ttREL_DEL = 22"
| "tx_code ttAMENDMENT = 100"
| "tx_code ttFEE = 101"
| "tx_code ttMNGFEE = 200"
| "tx_code ttBLKLISTSET = 201"
| "tx_code ttBLKLISTRMV = 202"
| "tx_code ttMNGISSUER = 203"
| "tx_code ttOPERATION = 300"
| "tx_code ttSIGN_SET = 400"
| "tx_code ttMESSAGE = 500"

definition tx_types :: "TxType list" where
  "tx_types = [ttINVALID, ttPAYMENT, ttCLAIM, ttWALLET_ADD, ttACCOUNT_SET, ttPASSWORD_FUND, ttREGULAR_KEY_SET,
     ttNICKNAME_SET, tt_no_longer_used, ttTICKET_CREATE, ttTICKET_CANCEL, ttACCOUNT_MERGE, ttTRUST_SET, ttREL_SET,
     ttREL_DEL, ttAMENDMENT, ttFEE, ttMNGFEE, ttBLKLISTSET, ttBLKLISTRMV, ttMNGISSUER, ttOPERATION, ttSIGN_SET, ttMESSAGE]"

text \<open>The type of a code read from an object; a code that is no type has no format either.\<close>

definition tx_type_of :: "u16 \<Rightarrow> TxType" where
  "tx_type_of c = (case find (\<lambda>t. tx_code t = uint c) tx_types of Some t \<Rightarrow> t | None \<Rightarrow> ttINVALID)"

fun tx_format_elements :: "TxType \<Rightarrow> (sfield \<times> SOE_Flags) list option" where
  "tx_format_elements ttACCOUNT_SET = Some
     [(sfEmailHash, SOE_OPTIONAL), (sfWalletLocator, SOE_OPTIONAL), (sfWalletSize, SOE_OPTIONAL),
      (sfMessageKey, SOE_OPTIONAL), (sfDomain, SOE_OPTIONAL), (sfTransferRate, SOE_OPTIONAL),
      (sfSetFlag, SOE_OPTIONAL), (sfClearFlag, SOE_OPTIONAL), (sfNickname, SOE_OPTIONAL),
      (sfCurrencyRates, SOE_OPTIONAL)]"
| "tx_format_elements ttTRUST_SET = Some
     [(sfLimitAmount, SOE_OPTIONAL), (sfQualityIn, SOE_OPTIONAL), (sfQualityOut, SOE_OPTIONAL)]"
| "tx_format_elements ttREL_SET = Some
     [(sfTarget, SOE_REQUIRED), (sfRelationType, SOE_REQUIRED), (sfLimitAmount, SOE_OPTIONAL)]"
| "tx_format_elements ttREL_DEL = Some
     [(sfTarget, SOE_REQUIRED), (sfRelationType, SOE_REQUIRED), (sfLimitAmount, SOE_OPTIONAL)]"
| "tx_format_elements ttREGULAR_KEY_SET = Some [(sfRegularKey, SOE_OPTIONAL)]"
| "tx_format_elements ttPAYMENT = Some
     [(sfDestination, SOE_REQUIRED), (sfAmount, SOE_REQUIRED), (sfSendMax, SOE_OPTIONAL), (sfPaths, SOE_DEFAULT),
      (sfInvoiceID, SOE_OPTIONAL), (sfDestinationTag, SOE_OPTIONAL)]"
| "tx_format_elements ttAMENDMENT = Some [(sfLedgerSequence, SOE_OPTIONAL), (sfAmendment, SOE_REQUIRED)]"
| "tx_format_elements ttFEE = Some
     [(sfLedgerSequence, SOE_OPTIONAL), (sfBaseFee, SOE_REQUIRED), (sfReferenceFeeUnits, SOE_REQUIRED),
      (sfReserveBase, SOE_REQUIRED), (sfReserveIncrement, SOE_REQUIRED)]"
| "tx_format_elements ttTICKET_CREATE = Some [(sfTarget, SOE_OPTIONAL), (sfExpiration, SOE_OPTIONAL)]"
| "tx_format_elements ttTICKET_CANCEL = Some [(sfTicketID, SOE_REQUIRED)]"
| "tx_format_elements ttMNGFEE = Some [(sfFeeAccountID, SOE_REQUIRED)]"
| "tx_format_elements ttMNGISSUER = Some [(sfIssuerAccountID, SOE_REQUIRED)]"
| "tx_format_elements ttBLKLISTSET = Some [(sfBlackListAccountID, SOE_REQUIRED)]"
| "tx_format_elements ttBLKLISTRMV = Some [(sfBlackListAccountID, SOE_REQUIRED)]"
| "tx_format_elements ttACCOUNT_MERGE = Some [(sfDestination, SOE_REQUIRED)]"
| "tx_format_elements ttOPERATION = Some [(sfOperations, SOE_REQUIRED), (sfSigns, SOE_OPTIONAL)]"
| "tx_format_elements ttSIGN_SET = Some
     [(sfMasterWeight, SOE_OPTIONAL), (sfQuorum, SOE_OPTIONAL), (sfQuorumHigh, SOE_OPTIONAL), (sfSignerEntries, SOE_OPTIONAL)]"
| "tx_format_elements ttNICKNAME_SET = Some [(sfDomain, SOE_OPTIONAL), (sfNickname, SOE_OPTIONAL)]"
| "tx_format_elements ttMESSAGE = Some [(sfDestination, SOE_REQUIRED), (sfMessageHash, SOE_OPTIONAL)]"
| "tx_format_elements _ = None"

definition tx_addCommonFields :: "(sfield \<times> SOE_Flags) list \<Rightarrow> (sfield \<times> SOE_Flags) list" where
  "tx_addCommonFields es =
     [(sfTransactionType, SOE_REQUIRED), (sfFlags, SOE_OPTIONAL), (sfTimestamp, SOE_OPTIONAL), (sfSourceTag, SOE_OPTIONAL),
      (sfAccount, SOE_REQUIRED), (sfSequence, SOE_OPTIONAL), (sfPreviousTxnID, SOE_OPTIONAL),
      (sfLastLedgerSequence, SOE_OPTIONAL), (sfAccountTxnID, SOE_OPTIONAL), (sfFee, SOE_OPTIONAL),
      (sfOperationLimit, SOE_OPTIONAL), (sfMemos, SOE_OPTIONAL), (sfSigningPubKey, SOE_OPTIONAL),
      (sfTxnSignature, SOE_OPTIONAL)] @ es"

definition tx_findByType :: "TxType \<Rightarrow> (sfield \<times> SOE_Flags) list option" where
  "tx_findByType t = map_option tx_addCommonFields (tx_format_elements t)"

subsection \<open>Transactions\<close>

text \<open>
  A transaction: its type, the values of the fields that are present, and what is known about its
  signature (\<open>None\<close> while it has not been checked).
\<close>

record sttx =
  txType :: TxType
  txFields :: "sfield \<rightharpoonup> stvar"
  sigState :: "bool option"

definition tx_hasField :: "sfield \<Rightarrow> sttx \<Rightarrow> bool" where
  "tx_hasField f t = (case tx_findByType (txType t) of None \<Rightarrow> False | Some es \<Rightarrow> f \<in> fst ` set es)"

definition tx_isFieldPresent :: "sfield \<Rightarrow> sttx \<Rightarrow> bool" where
  "tx_isFieldPresent f t = (tx_hasField f t \<and> txFields t f \<noteq> None)"

definition tx_getFieldBy :: "(stvar \<Rightarrow> 'a option) \<Rightarrow> 'a \<Rightarrow> sfield \<Rightarrow> sttx \<Rightarrow> 'a result" where
  "tx_getFieldBy cast dflt f t =
     (if \<not> tx_hasField f t then Inl (RuntimeError ''Field not found'')
      else case txFields t f of
             None \<Rightarrow> Inr dflt
           | Some v \<Rightarrow> (case cast v of None \<Rightarrow> Inl (RuntimeError ''Wrong field type'') | Some x \<Rightarrow> Inr x))"

definition asU16 :: "stvar \<Rightarrow> u16 option" where "asU16 v = (case v of STUInt16 x \<Rightarrow> Some x | _ \<Rightarrow> None)"
definition asU32 :: "stvar \<Rightarrow> u32 option" where "asU32 v = (case v of STUInt32 x \<Rightarrow> Some x | _ \<Rightarrow> None)"
definition asU64 :: "stvar \<Rightarrow> u64 option" where "asU64 v = (case v of STUInt64 x \<Rightarrow> Some x | _ \<Rightarrow> None)"
definition asH128 :: "stvar \<Rightarrow> u128 option" where "asH128 v = (case v of STHash128 x \<Rightarrow> Some x | _ \<Rightarrow> None)"
definition asH256 :: "stvar \<Rightarrow> u256 option" where "asH256 v = (case v of STHash256 x \<Rightarrow> Some x | _ \<Rightarrow> None)"
definition asAmount :: "stvar \<Rightarrow> stamount option" where "asAmount v = (case v of STAmount x \<Rightarrow> Some x | _ \<Rightarrow> None)"
definition asBlob :: "stvar \<Rightarrow> blob option" where "asBlob v = (case v of STBlob x \<Rightarrow> Some x | _ \<Rightarrow> None)"
definition asAccount :: "stvar \<Rightarrow> u160 option option" where "asAccount v = (case v of STAccount x \<Rightarrow> Some x | _ \<Rightarrow> None)"
definition asArray :: "stvar \<Rightarrow> (sfield \<times> stvar) list list option" where "asArray v = (case v of STArray x \<Rightarrow> Some x | _ \<Rightarrow> None)"
definition asPathSet :: "stvar \<Rightarrow> path_set option" where "asPathSet v = (case v of STPathSet x \<Rightarrow> Some x | _ \<Rightarrow> None)"

definition txU16 :: "sfield \<Rightarrow> sttx \<Rightarrow> u16 result" where "txU16 = tx_getFieldBy asU16 0"
definition txU32 :: "sfield \<Rightarrow> sttx \<Rightarrow> u32 result" where "txU32 = tx_getFieldBy asU32 0"
definition txU64 :: "sfield \<Rightarrow> sttx \<Rightarrow> u64 result" where "txU64 = tx_getFieldBy asU64 0"
definition txH128 :: "sfield \<Rightarrow> sttx \<Rightarrow> u128 result" where "txH128 = tx_getFieldBy asH128 0"
definition txH256 :: "sfield \<Rightarrow> sttx \<Rightarrow> u256 result" where "txH256 = tx_getFieldBy asH256 0"
definition txAmount :: "sfield \<Rightarrow> sttx \<Rightarrow> stamount result" where "txAmount = tx_getFieldBy asAmount (STAmount_u64 0 False)"
definition txVL :: "sfield \<Rightarrow> sttx \<Rightarrow> blob result" where "txVL = tx_getFieldBy asBlob []"
definition txArray :: "sfield \<Rightarrow> sttx \<Rightarrow> (sfield \<times> stvar) list list result" where "txArray = tx_getFieldBy asArray []"
definition txPathSet :: "sfield \<Rightarrow> sttx \<Rightarrow> path_set result" where "txPathSet = tx_getFieldBy asPathSet []"

definition txAccount160 :: "sfield \<Rightarrow> sttx \<Rightarrow> Account result" where
  "txAccount160 f t = bindE (tx_getFieldBy asAccount None f t) (\<lambda>a. Inr (case a of None \<Rightarrow> 0 | Some x \<Rightarrow> x))"

definition tx_getFlags :: "sttx \<Rightarrow> u32" where
  "tx_getFlags t =
     (if tx_hasField sfFlags t then case Option.bind (txFields t sfFlags) asU32 of None \<Rightarrow> 0 | Some x \<Rightarrow> x else 0)"

text \<open>The account identifier of the source address: an address that was never set has none.\<close>

definition getSourceAccountID :: "sttx \<Rightarrow> Account result" where
  "getSourceAccountID t =
     bindE (tx_getFieldBy asAccount None sfAccount t) (\<lambda>a.
       case a of None \<Rightarrow> Inl (RuntimeError ''unset source - getAccountID'') | Some x \<Rightarrow> Inr x)"

definition getTransactionFee :: "sttx \<Rightarrow> stamount result" where
  "getTransactionFee = txAmount sfFee"

definition tx_getSequence :: "sttx \<Rightarrow> u32 result" where
  "tx_getSequence = txU32 sfSequence"

definition getSigningPubKey :: "sttx \<Rightarrow> blob result" where
  "getSigningPubKey = txVL sfSigningPubKey"

definition tx_getSignature :: "sttx \<Rightarrow> blob" where
  "tx_getSignature t = (case txVL sfTxnSignature t of Inl _ \<Rightarrow> [] | Inr b \<Rightarrow> b)"

definition isKnownGood :: "sttx \<Rightarrow> bool" where "isKnownGood t = (sigState t = Some True)"
definition isKnownBad :: "sttx \<Rightarrow> bool" where "isKnownBad t = (sigState t = Some False)"
definition setGood :: "sttx \<Rightarrow> sttx" where "setGood t = t\<lparr>sigState := Some True\<rparr>"
definition setBad :: "sttx \<Rightarrow> sttx" where "setBad t = t\<lparr>sigState := Some False\<rparr>"

subsection \<open>Objects without a template\<close>

text \<open>Accessors of an untyped object: a field that is not in it is an error.\<close>

definition obj_get :: "(stvar \<Rightarrow> 'a option) \<Rightarrow> sfield \<Rightarrow> (sfield \<times> stvar) list \<Rightarrow> 'a result" where
  "obj_get cast f fs =
     (case map_of fs f of
        None \<Rightarrow> Inl (RuntimeError ''Field not found'')
      | Some v \<Rightarrow> (case cast v of None \<Rightarrow> Inl (RuntimeError ''Wrong field type'') | Some x \<Rightarrow> Inr x))"

definition obj_Account160 :: "sfield \<Rightarrow> (sfield \<times> stvar) list \<Rightarrow> Account result" where
  "obj_Account160 f fs = bindE (obj_get asAccount f fs) (\<lambda>a. Inr (case a of None \<Rightarrow> 0 | Some x \<Rightarrow> x))"

definition obj_AccountID :: "sfield \<Rightarrow> (sfield \<times> stvar) list \<Rightarrow> Account result" where
  "obj_AccountID f fs =
     bindE (obj_get asAccount f fs) (\<lambda>a.
       case a of None \<Rightarrow> Inl (RuntimeError ''unset source - getAccountID'') | Some x \<Rightarrow> Inr x)"

definition obj_isFieldPresent :: "sfield \<Rightarrow> (sfield \<times> stvar) list \<Rightarrow> bool" where
  "obj_isFieldPresent f fs = (map_of fs f \<noteq> None)"

definition isDiscardable :: "sfield \<Rightarrow> bool" where
  "isDiscardable f = (fieldValue f > 256)"

definition stvar_isDefault :: "stvar \<Rightarrow> bool" where
  "stvar_isDefault v = (v = STPathSet [])"

text \<open>
  Fitting an object to a template: the fields of the template are taken out of the object one by
  one, in the order of the template; what is left over must be discardable.
\<close>

fun take_field :: "sfield \<Rightarrow> (sfield \<times> stvar) list \<Rightarrow> (stvar option) \<times> (sfield \<times> stvar) list" where
  "take_field f [] = (None, [])"
| "take_field f ((g, v) # fs) =
     (if g = f then (Some v, fs) else (let (r, rest) = take_field f fs in (r, (g, v) # rest)))"

fun setType_loop :: "(sfield \<times> SOE_Flags) list \<Rightarrow> (sfield \<times> stvar) list \<Rightarrow> bool \<times> (sfield \<times> stvar) list \<times> (sfield \<times> stvar) list" where
  "setType_loop [] fs = (True, [], fs)"
| "setType_loop ((f, flag) # es) fs =
     (let (v, fs) = take_field f fs;
          (valid, out, fs) = setType_loop es fs
      in case v of
           Some x \<Rightarrow> (valid \<and> \<not> (flag = SOE_DEFAULT \<and> stvar_isDefault x), (f, x) # out, fs)
         | None \<Rightarrow> (valid \<and> flag \<noteq> SOE_REQUIRED, out, fs))"

definition setType :: "(sfield \<times> SOE_Flags) list \<Rightarrow> (sfield \<times> stvar) list \<Rightarrow> bool \<times> (sfield \<times> stvar) list" where
  "setType es fs =
     (let (valid, out, leftover) = setType_loop es fs
      in (valid \<and> (\<forall>(f, _) \<in> set leftover. isDiscardable f), out))"

definition STTx_of_object :: "(sfield \<times> stvar) list \<Rightarrow> sttx result" where
  "STTx_of_object fs =
     bindE (obj_get asU16 sfTransactionType fs) (\<lambda>c.
       case tx_findByType (tx_type_of c) of
         None \<Rightarrow> Inl (RuntimeError ''invalid transaction type'')
       | Some es \<Rightarrow>
           (case setType es fs of
              (False, _) \<Rightarrow> Inl (RuntimeError ''transaction not valid'')
            | (True, out) \<Rightarrow> Inr \<lparr>txType = tx_type_of c, txFields = map_of out, sigState = None\<rparr>))"

subsection \<open>Batches\<close>

fun mapE :: "('a \<Rightarrow> 'b result) \<Rightarrow> 'a list \<Rightarrow> 'b list result" where
  "mapE f [] = Inr []"
| "mapE f (x # xs) = bindE (f x) (\<lambda>y. bindE (mapE f xs) (\<lambda>ys. Inr (y # ys)))"

definition getSTTxs :: "sttx \<Rightarrow> sttx list result" where
  "getSTTxs t =
     (if txType t \<noteq> ttOPERATION then Inr [t]
      else case bindE (txArray sfOperations t) (mapE STTx_of_object) of
             Inl _ \<Rightarrow> Inl (RuntimeError ''invalid transaction type'')
           | Inr ts \<Rightarrow> Inr ts)"

text \<open>The accounts that have signed; \<open>accountID\<close> maps a public key to its account.\<close>

definition getSignAccount :: "(blob \<Rightarrow> Account) \<Rightarrow> sttx \<Rightarrow> Account set result" where
  "getSignAccount accountID t =
     (if tx_isFieldPresent sfSigns t \<and> txType t = ttOPERATION then
        bindE (txArray sfSigns t) (\<lambda>arr.
        bindE (mapE (obj_get asBlob sfSigningPubKey) arr) (\<lambda>keys. Inr (accountID ` set keys)))
      else bindE (getSigningPubKey t) (\<lambda>key. Inr {accountID key}))"

end
