(* ===== verification/LoadFee.thy ===== *)
theory LoadFee
  imports Ledgers
begin

text \<open>
  The load fee: the local, remote and cluster factors of \<open>common/core/impl/LoadFeeTrackImp.h\<close>, in
  units of 1/256, and the scaling of a fee by them, with the two entry points of
  \<open>ledger/Ledger.cpp\<close>. All arithmetic is that of unsigned words and wraps. The mutex is left out:
  every operation holds it for its whole body but for the reads of \<open>scaleFeeLoad\<close>.
\<close>

record load_fee_track =
  mLocalTxnLoadFee :: u32
  mRemoteTxnLoadFee :: u32
  mClusterTxnLoadFee :: u32
  raiseCount :: int

definition lftNormalFee :: u32 where "lftNormalFee = 256"
definition lftFeeIncFraction :: u32 where "lftFeeIncFraction = 4"
definition lftFeeDecFraction :: u32 where "lftFeeDecFraction = 4"
definition lftFeeMax :: u32 where "lftFeeMax = lftNormalFee * 1000000"

definition LoadFeeTrackImp :: load_fee_track where
  "LoadFeeTrackImp =
     \<lparr>mLocalTxnLoadFee = lftNormalFee, mRemoteTxnLoadFee = lftNormalFee, mClusterTxnLoadFee = lftNormalFee, raiseCount = 0\<rparr>"

text \<open>The factor is a 32-bit parameter: a wider argument is cut to its low 32 bits by the caller.\<close>

definition div64 :: "u64 \<Rightarrow> u64 \<Rightarrow> u64 result" where
  "div64 a b = (if b = 0 then Inl DivideByZero else Inr (a div b))"

definition mulDiv :: "u64 \<Rightarrow> u32 \<Rightarrow> u64 \<Rightarrow> u64 result" where
  "mulDiv v mul dv =
     (if v > 0x00000000FFFFFFFF then bindE (div64 v dv) (\<lambda>q. Inr (q * ucast mul))
      else div64 (v * ucast mul) dv)"

definition fee_factor :: "bool \<Rightarrow> load_fee_track \<Rightarrow> u32" where
  "fee_factor bAdmin l =
     (let feeFactor = max (mLocalTxnLoadFee l) (mRemoteTxnLoadFee l);
          uRemFee = max (mRemoteTxnLoadFee l) (mClusterTxnLoadFee l)
      in if bAdmin \<and> feeFactor > uRemFee \<and> feeFactor < 4 * uRemFee then uRemFee else feeFactor)"

definition scaleFeeLoad :: "load_fee_track \<Rightarrow> u64 \<Rightarrow> u64 \<Rightarrow> u32 \<Rightarrow> bool \<Rightarrow> u64 result" where
  "scaleFeeLoad l fee baseFee referenceFeeUnits bAdmin =
     (let big = fee > 0x00000000FFFFFFFF
      in bindE (if big then div64 fee (ucast referenceFeeUnits) else Inr (fee * baseFee)) (\<lambda>fee.
         bindE (mulDiv fee (fee_factor bAdmin l) (ucast lftNormalFee)) (\<lambda>fee.
         if big then Inr (fee * baseFee) else div64 fee (ucast referenceFeeUnits))))"

definition scaleFeeBase :: "u64 \<Rightarrow> u64 \<Rightarrow> u32 \<Rightarrow> u64 result" where
  "scaleFeeBase fee baseFee referenceFeeUnits = mulDiv fee (ucast baseFee) (ucast referenceFeeUnits)"

definition getRemoteFee :: "load_fee_track \<Rightarrow> u32" where "getRemoteFee l = mRemoteTxnLoadFee l"
definition getLocalFee :: "load_fee_track \<Rightarrow> u32" where "getLocalFee l = mLocalTxnLoadFee l"
definition getClusterFee :: "load_fee_track \<Rightarrow> u32" where "getClusterFee l = mClusterTxnLoadFee l"
definition getLoadBase :: u32 where "getLoadBase = lftNormalFee"

definition getLoadFactor :: "load_fee_track \<Rightarrow> u32" where
  "getLoadFactor l = max (mClusterTxnLoadFee l) (max (mLocalTxnLoadFee l) (mRemoteTxnLoadFee l))"

definition setClusterFee :: "u32 \<Rightarrow> load_fee_track \<Rightarrow> load_fee_track" where
  "setClusterFee fee l = l\<lparr>mClusterTxnLoadFee := fee\<rparr>"

definition setRemoteFee :: "u32 \<Rightarrow> load_fee_track \<Rightarrow> load_fee_track" where
  "setRemoteFee f l = l\<lparr>mRemoteTxnLoadFee := f\<rparr>"

definition isLoadedLocal :: "load_fee_track \<Rightarrow> bool" where
  "isLoadedLocal l = (raiseCount l \<noteq> 0 \<or> mLocalTxnLoadFee l \<noteq> lftNormalFee)"

definition isLoadedCluster :: "load_fee_track \<Rightarrow> bool" where
  "isLoadedCluster l = (raiseCount l \<noteq> 0 \<or> mLocalTxnLoadFee l \<noteq> lftNormalFee \<or> mClusterTxnLoadFee l \<noteq> lftNormalFee)"

definition raiseLocalFee :: "load_fee_track \<Rightarrow> bool \<times> load_fee_track" where
  "raiseLocalFee l =
     (let l = l\<lparr>raiseCount := s32 (raiseCount l + 1)\<rparr>
      in if raiseCount l < 2 then (False, l)
         else
           let origFee = mLocalTxnLoadFee l;
               fee = (if mLocalTxnLoadFee l < mRemoteTxnLoadFee l then mRemoteTxnLoadFee l else mLocalTxnLoadFee l);
               fee = fee + fee div lftFeeIncFraction;
               fee = (if fee > lftFeeMax then lftFeeMax else fee)
           in (origFee \<noteq> fee, l\<lparr>mLocalTxnLoadFee := fee\<rparr>))"

definition lowerLocalFee :: "load_fee_track \<Rightarrow> bool \<times> load_fee_track" where
  "lowerLocalFee l =
     (let origFee = mLocalTxnLoadFee l;
          fee = origFee - origFee div lftFeeDecFraction;
          fee = (if fee < lftNormalFee then lftNormalFee else fee)
      in (origFee \<noteq> fee, l\<lparr>raiseCount := 0, mLocalTxnLoadFee := fee\<rparr>))"

text \<open>The ledger's entry points; they fill the ledger's fee cache first.\<close>

definition Ledger_scaleFeeBase :: "app \<Rightarrow> u64 \<Rightarrow> ledger \<Rightarrow> (u64 \<times> ledger) result" where
  "Ledger_scaleFeeBase A fee l =
     bindE (updateFees A l) (\<lambda>l.
     bindE (scaleFeeBase fee (mBaseFee l) (mReferenceFeeUnits l)) (\<lambda>r. Inr (r, l)))"

definition Ledger_scaleFeeLoad :: "app \<Rightarrow> load_fee_track \<Rightarrow> u64 \<Rightarrow> bool \<Rightarrow> ledger \<Rightarrow> (u64 \<times> ledger) result" where
  "Ledger_scaleFeeLoad A track fee bAdmin l =
     bindE (updateFees A l) (\<lambda>l.
     bindE (scaleFeeLoad track fee (mBaseFee l) (mReferenceFeeUnits l) bAdmin) (\<lambda>r. Inr (r, l)))"

subsection \<open>Histories\<close>

text \<open>
  What happens to the tracker: the load manager raises and lowers the local factor, peers and
  validations report the other two. \<open>reports b\<close> are the histories in which no remote factor above
  \<open>b\<close> is reported.
\<close>

inductive reports :: "u32 \<Rightarrow> load_fee_track \<Rightarrow> bool" for b where
  init: "reports b LoadFeeTrackImp"
| raise: "reports b l \<Longrightarrow> reports b (snd (raiseLocalFee l))"
| lower: "reports b l \<Longrightarrow> reports b (snd (lowerLocalFee l))"
| cluster: "reports b l \<Longrightarrow> reports b (setClusterFee f l)"
| remote: "reports b l \<Longrightarrow> f \<le> b \<Longrightarrow> reports b (setRemoteFee f l)"

definition local_in_range :: "load_fee_track \<Rightarrow> bool" where
  "local_in_range l \<longleftrightarrow> lftNormalFee \<le> mLocalTxnLoadFee l \<and> mLocalTxnLoadFee l \<le> lftFeeMax"


lemmas track_defs = lftNormalFee_def lftFeeIncFraction_def lftFeeDecFraction_def lftFeeMax_def

subsection \<open>The range of the local factor\<close>

text \<open>The greatest remote factor that can be raised by a quarter without wrapping around.\<close>

lemma quarter_more:
  fixes x :: u32
  assumes "x \<le> 3435973836"
  shows "unat (x + x div 4) = unat x + unat x div 4"
proof -
  have "unat x \<le> 3435973836" using assms by (simp add: word_le_nat_alt)
  then show ?thesis by (simp add: unat_word_ariths unat_div)
qed

lemma quarter_less:
  fixes x :: u32
  shows "unat (x - x div 4) = unat x - unat x div 4"
proof -
  have "x div 4 \<le> x" by (simp add: word_le_nat_alt unat_div)
  then show ?thesis by (simp add: unat_sub unat_div)
qed

lemma raise_in_range:
  assumes "local_in_range l" "mRemoteTxnLoadFee l \<le> 3435973836"
  shows "local_in_range (snd (raiseLocalFee l))"
proof -
  define x where "x = (if mLocalTxnLoadFee l < mRemoteTxnLoadFee l then mRemoteTxnLoadFee l else mLocalTxnLoadFee l)"
  have r: "256 \<le> unat (mLocalTxnLoadFee l)" "unat (mLocalTxnLoadFee l) \<le> 256000000" "unat (mRemoteTxnLoadFee l) \<le> 3435973836"
    using assms by (simp_all add: local_in_range_def track_defs word_le_nat_alt)
  then have x: "256 \<le> unat x" "x \<le> 3435973836" by (auto simp: x_def word_le_nat_alt word_less_nat_alt)
  from x(1) have "256 \<le> x + x div 4" unfolding word_le_nat_alt quarter_more [OF x(2)] by simp
  then show ?thesis
    using assms unfolding raiseLocalFee_def local_in_range_def track_defs Let_def
    by (auto simp: x_def not_less not_le split: if_splits)
qed

lemma lower_in_range:
  assumes "local_in_range l"
  shows "local_in_range (snd (lowerLocalFee l))"
proof -
  let ?x = "mLocalTxnLoadFee l"
  have "unat ?x \<le> 256000000" using assms by (simp add: local_in_range_def track_defs word_le_nat_alt)
  then have "?x - ?x div 4 \<le> 256000000" unfolding word_le_nat_alt quarter_less by simp
  then show ?thesis by (auto simp: lowerLocalFee_def local_in_range_def track_defs Let_def not_less not_le)
qed

lemma reports_range:
  assumes "reports b l" "b \<le> 3435973836" "256 \<le> b"
  shows "local_in_range l \<and> mRemoteTxnLoadFee l \<le> b"
  using assms
proof (induction rule: reports.induct)
  case init
  then show ?case by (simp add: LoadFeeTrackImp_def local_in_range_def track_defs)
next
  case (raise l)
  then have "mRemoteTxnLoadFee (snd (raiseLocalFee l)) \<le> b" by (simp add: raiseLocalFee_def Let_def)
  with raise show ?case by (auto intro: raise_in_range)
next
  case (lower l)
  then have "mRemoteTxnLoadFee (snd (lowerLocalFee l)) \<le> b" by (simp add: lowerLocalFee_def Let_def)
  with lower show ?case by (auto intro: lower_in_range)
qed (auto simp: setClusterFee_def setRemoteFee_def local_in_range_def)

subsection \<open>Scaling\<close>

lemma unat_widen: "unat (ucast (x :: u32) :: u64) = unat x" "(ucast x :: u64) = 0 \<longleftrightarrow> x = 0" "unat x < 2 ^ 32"
proof -
  show b: "unat x < 2 ^ 32" using unsigned_less [of x, where ?'a = nat] by simp
  then show u: "unat (ucast x :: u64) = unat x" by (simp add: unsigned_ucast_eq take_bit_nat_eq_self)
  then show "(ucast x :: u64) = 0 \<longleftrightarrow> x = 0" by (metis unat_eq_zero)
qed

lemma mulDiv_exact:
  assumes "unat v < 2 ^ 32" "d \<noteq> 0"
  shows "mulDiv v f d = Inr (word_of_nat (unat v * unat f div unat d))"
proof -
  have f: "unat f < 2 ^ 32" by (rule unat_widen)
  have "unat v * unat f < 2 ^ 32 * 2 ^ 32" using assms(1) f by (intro mult_strict_mono) auto
  then have p: "unat (v * ucast f) = unat v * unat f" by (simp add: unat_word_ariths unat_widen)
  have "\<not> v > 0x00000000FFFFFFFF" using assms(1) by (simp add: word_less_nat_alt)
  then show ?thesis
    using assms(2) by (simp add: mulDiv_def div64_def word_arith_nat_div p)
qed

lemma scale_small_fee:
  assumes "unat fee * unat base < 2 ^ 32" "unat fee < 2 ^ 32" "ref \<noteq> 0"
  shows "scaleFeeLoad l fee base ref b = Inr (word_of_nat (unat fee * unat base * unat (fee_factor b l) div 256 div unat ref))"
proof -
  let ?f = "fee_factor b l"
  have m: "unat (fee * base) = unat fee * unat base" using assms(1) by (simp add: unat_word_ariths)
  have s: "\<not> fee > 0x00000000FFFFFFFF" using assms(2) by (simp add: word_less_nat_alt)
  have r: "(ucast ref :: u64) \<noteq> 0" "unat (ucast ref :: u64) = unat ref"
    using assms(3) by (simp_all add: unat_widen)
  have n: "(ucast lftNormalFee :: u64) = 256" by (simp add: lftNormalFee_def)
  have md: "mulDiv (fee * base) ?f 256 = Inr (word_of_nat (unat fee * unat base * unat ?f div 256))"
    using mulDiv_exact [of "fee * base" 256 ?f] assms(1) m by simp
  have "unat fee * unat base * unat ?f < 2 ^ 32 * 2 ^ 32"
    using assms(1) unat_widen(3) [of ?f] by (intro mult_strict_mono) auto
  then have w: "unat (word_of_nat (unat fee * unat base * unat ?f div 256) :: u64) = unat fee * unat base * unat ?f div 256"
    by (simp add: unat_of_nat)
  show ?thesis
    using s r by (simp add: scaleFeeLoad_def Let_def n md div64_def word_arith_nat_div w)
qed


text \<open>A reported factor of 3435973837 plus its quarter is exactly 2 to the 32.\<close>

lemma raise_wraps:
  assumes "3435973837 \<le> b"
  shows "\<exists>l. reports b l \<and> mLocalTxnLoadFee l = 0"
proof -
  let ?l = "snd (raiseLocalFee (snd (raiseLocalFee (setRemoteFee 3435973837 LoadFeeTrackImp))))"
  have "reports b ?l" by (intro reports.intros assms)
  moreover have "mLocalTxnLoadFee ?l = 0"
    by (simp add: raiseLocalFee_def setRemoteFee_def LoadFeeTrackImp_def track_defs Let_def s32_def)
  ultimately show ?thesis by blast
qed

text \<open>C30: the local load factor stays between the normal factor and the maximum, whatever sequence of
  raising, lowering and reports happens, as long as no remote factor above 3435973836 is reported. If a greater one may
  be reported, some sequence brings the local factor to zero: the quarter that raising adds wraps it around.\<close>

theorem local_factor_range:
  assumes "lftNormalFee \<le> b"
  shows "if b \<le> 3435973836
    then \<forall>l. reports b l \<longrightarrow> lftNormalFee \<le> mLocalTxnLoadFee l \<and> mLocalTxnLoadFee l \<le> lftFeeMax
    else \<exists>l. reports b l \<and> mLocalTxnLoadFee l = 0"
proof (cases "b \<le> 3435973836")
  case True
  then show ?thesis using reports_range assms by (auto simp: local_in_range_def track_defs)
next
  case False
  then have "3435973837 \<le> b" by (simp add: word_le_nat_alt)
  from raise_wraps [OF this] show ?thesis unfolding if_not_P [OF False] .
qed

theorem local_factor_range_witness:
  "mLocalTxnLoadFee (snd (raiseLocalFee (setRemoteFee 1000000 LoadFeeTrackImp))) \<le> lftFeeMax \<and>
   (\<exists>l. reports 4000000000 l \<and> mLocalTxnLoadFee l = 0)"
proof -
  have "reports 1000000 (snd (raiseLocalFee (setRemoteFee 1000000 LoadFeeTrackImp)))" by (intro reports.intros) simp
  then show ?thesis
    using local_factor_range [of 1000000] local_factor_range [of 4000000000] by (auto simp: lftNormalFee_def not_le)
qed

text \<open>C34: a fee whose base value fits 32 bits is scaled exactly: the result is the fee in units times the
  base fee times the load factor, divided by 256 and by the reference fee units, rounded down twice.\<close>

theorem scaled_fee_exact:
  assumes "unat fee * unat base < 2 ^ 32" "unat fee < 2 ^ 32" "ref \<noteq> 0"
  shows "scaleFeeLoad l fee base ref b = Inr (word_of_nat (unat fee * unat base * unat (fee_factor b l) div 256 div unat ref))"
  by (rule scale_small_fee [OF assms])

theorem scaled_fee_exact_witness:
  "scaleFeeLoad (LoadFeeTrackImp\<lparr>mLocalTxnLoadFee := 512\<rparr>) 10 10 10 False = Inr 20"
  using scaled_fee_exact [of 10 10 10 "LoadFeeTrackImp\<lparr>mLocalTxnLoadFee := 512\<rparr>" False]
  by (simp add: fee_factor_def LoadFeeTrackImp_def lftNormalFee_def Let_def max_def)

end
