(* ===== verification/Transactor.thy ===== *)
theory Transactor
  imports Credit TxFormat LoadFee
begin

text \<open>
  The base class of the transactors, from \<open>transaction/transactors/Transactor.cpp\<close>: the checks on the
  source account, the signature, the sequence number and the fee, and the template method \<open>apply\<close> that
  runs them before the transaction's own \<open>doApply\<close>. The virtual methods are the record
  \<open>transactor_ops\<close>; a concrete transactor replaces some of them in \<open>base_ops\<close>.

  A method takes the members of the transactor and returns its result with the members changed; the
  engine's entry set is the state it runs on. What the methods use of the rest of the program is the
  parameter record \<open>txenv\<close>: the last closed ledger, the load fee, the account of a public key, the
  verification of a signature, the identifier and the bytes of a transaction, the bytes of the
  metadata, the amendments the program supports, and the path finder's calculation.
\<close>

unbundle bit_operations_syntax

subsection \<open>Environment and members\<close>

record calc_input =
  partialPaymentAllowed :: bool
  defaultPathsAllowed :: bool
  limitQuality :: bool
  deleteUnfundedOffers :: bool
  isLedgerOpen :: bool

record calc_output =
  calc_result :: TER
  actualAmountOut :: stamount

record txenv =
  env_app :: app
  closedLedger :: ledger
  feeTrack :: load_fee_track
  SMNG_ACCOUNTID :: Account
  accountOfKey :: "blob \<Rightarrow> Account"
  verifySig :: "blob \<Rightarrow> sttx \<Rightarrow> blob \<Rightarrow> bool \<Rightarrow> bool"
  getTransactionID :: "sttx \<Rightarrow> u256"
  serializeTx :: "sttx \<Rightarrow> blob"
  rawMeta :: "les \<Rightarrow> TER \<Rightarrow> int \<Rightarrow> blob"
  isSupported :: "u256 \<Rightarrow> bool"
  skywellCalculate :: "stamount \<Rightarrow> stamount \<Rightarrow> Account \<Rightarrow> Account \<Rightarrow> path_set \<Rightarrow> calc_input \<Rightarrow> calc_output lesM"

definition sha :: "txenv \<Rightarrow> blob \<Rightarrow> blob" where
  "sha E = app_sha512 (env_app E)"

text \<open>Effects on the rest of the program.\<close>

datatype app_effect = EnableAmendment u256 | SetAmendmentBlocked

record transactor =
  mTxn :: sttx
  mTxParams :: u32
  mTxnAccountID :: Account
  mFeeAccountID :: Account
  mFeeDue :: stamount
  mPriorBalance :: stamount
  mSourceBalance :: stamount
  mTxnAccount :: sle_ptr
  mFeeAccount :: sle_ptr
  mHasAuthKey :: bool
  mSigMaster :: bool
  mSigningPubKey :: "blob option"
  appEffects :: "app_effect list"

definition new_transactor :: "sttx \<Rightarrow> u32 \<Rightarrow> transactor" where
  "new_transactor txn params =
     \<lparr>mTxn = txn, mTxParams = params, mTxnAccountID = 0, mFeeAccountID = 0, mFeeDue = STAmount_u64 0 False,
      mPriorBalance = STAmount_u64 0 False, mSourceBalance = STAmount_u64 0 False, mTxnAccount = None, mFeeAccount = None,
      mHasAuthKey = False, mSigMaster = False, mSigningPubKey = None, appEffects = []\<rparr>"

type_synonym tm = "txenv \<Rightarrow> transactor \<Rightarrow> (TER \<times> transactor) lesM"

text \<open>Continue after a method that has succeeded; its result is the result otherwise.\<close>

definition thenT :: "(TER \<times> transactor) lesM \<Rightarrow> (transactor \<Rightarrow> (TER \<times> transactor) lesM) \<Rightarrow> (TER \<times> transactor) lesM" where
  "thenT m k = bindM m (\<lambda>(ter, t). if ter \<noteq> tesSUCCESS then retM (ter, t) else k t)"

definition hasParam :: "u32 \<Rightarrow> transactor \<Rightarrow> bool" where
  "hasParam flag t = (mTxParams t AND flag \<noteq> 0)"

text \<open>Operations on the engine's ledger, which the entry set holds.\<close>

definition ledgerM :: "(ledger \<Rightarrow> ('a \<times> ledger) result) \<Rightarrow> 'a lesM" where
  "ledgerM f = (\<lambda>s. case f (mLedger s) of Inl er \<Rightarrow> Inl er | Inr (x, l) \<Rightarrow> Inr (x, s\<lparr>mLedger := l\<rparr>))"

definition getsM :: "(les \<Rightarrow> 'a) \<Rightarrow> 'a lesM" where
  "getsM f = (\<lambda>s. Inr (f s, s))"

subsection \<open>Signatures\<close>

text \<open>
  \<open>STTx::checkSign\<close> verifies the signature once and remembers the outcome; an exception on the way
  counts as a bad signature. The signatures of a batch sign the same data.
\<close>

fun signs_verify :: "(blob \<Rightarrow> sttx \<Rightarrow> blob \<Rightarrow> bool \<Rightarrow> bool) \<Rightarrow> bool \<Rightarrow> sttx \<Rightarrow> (sfield \<times> stvar) list list \<Rightarrow> bool result" where
  "signs_verify verify strict tx [] = Inr True"
| "signs_verify verify strict tx (sg # sgs) =
     bindE (obj_get asBlob sfSigningPubKey sg) (\<lambda>key.
     bindE (obj_get asBlob sfTxnSignature sg) (\<lambda>sig.
       if verify key tx sig strict then signs_verify verify strict tx sgs else Inr False))"

definition checkSign :: "(blob \<Rightarrow> sttx \<Rightarrow> blob \<Rightarrow> bool \<Rightarrow> bool) \<Rightarrow> sttx \<Rightarrow> bool \<times> sttx" where
  "checkSign verify tx =
     (case sigState tx of
        Some b \<Rightarrow> (b, tx)
      | None \<Rightarrow>
          let strict = (tx_getFlags tx AND tfFullyCanonicalSig \<noteq> 0);
              r = bindE (txVL sfSigningPubKey tx) (\<lambda>key.
                  bindE (txVL sfTxnSignature tx) (\<lambda>sig.
                    if \<not> verify key tx sig strict then Inr False
                    else if txType tx = ttOPERATION then bindE (txArray sfSigns tx) (signs_verify verify strict tx)
                    else Inr True));
              ok = (case r of Inl _ \<Rightarrow> False | Inr b \<Rightarrow> b)
          in (ok, tx\<lparr>sigState := Some ok\<rparr>))"

subsection \<open>The methods of the base class\<close>

record transactor_ops =
  op_preCheck :: tm
  op_checkSeq :: tm
  op_payFee :: tm
  op_calculateBaseFee :: "txenv \<Rightarrow> transactor \<Rightarrow> u64 lesM"
  op_checkSig :: tm
  op_doApply :: tm
  op_mustHaveValidAccount :: bool

definition calculateBaseFee :: "txenv \<Rightarrow> transactor \<Rightarrow> u64 lesM" where
  "calculateBaseFee E t = retM (ucast (TRANSACTION_FEE_BASE (env_app E)))"

definition calculateFee :: "transactor_ops \<Rightarrow> txenv \<Rightarrow> transactor \<Rightarrow> transactor lesM" where
  "calculateFee V E t =
     bindM (op_calculateBaseFee V E t) (\<lambda>base.
     bindM (ledgerM (Ledger_scaleFeeLoad (env_app E) (feeTrack E) base (hasParam tapADMIN t))) (\<lambda>fee.
       retM (t\<lparr>mFeeDue := STAmount_u64 fee False\<rparr>)))"

definition payFee :: tm where
  "payFee E t =
     bindM (liftM (getTransactionFee (mTxn t))) (\<lambda>saPaid.
       if \<not> isLegalNet saPaid then retM (temBAD_AMOUNT, t)
       else
         bindM (if hasParam tapOPEN_LEDGER t then liftM (amount_less saPaid (mFeeDue t)) else retM False) (\<lambda>low.
           if low then retM (telINSUF_FEE_P, t)
           else if signum saPaid < 0 \<or> \<not> mIsNative saPaid then retM (temBAD_FEE, t)
           else if is_zero saPaid then retM (tesSUCCESS, t)
           else
             bindM (liftM (amount_less (mSourceBalance t) saPaid)) (\<lambda>short.
               if short then
                 if signum (mSourceBalance t) > 0 \<and> \<not> hasParam tapOPEN_LEDGER t then
                   let t = t\<lparr>mSourceBalance := clear (mSourceBalance t)\<rparr>
                   in bindM (updateM (setFieldAmount sfBalance (mSourceBalance t)) (mTxnAccount t)) (\<lambda>_.
                        retM (tecINSUFF_FEE, t))
                 else retM (terINSUF_FEE_B, t)
               else
                 bindM (liftM (amount_sub (mSourceBalance t) saPaid)) (\<lambda>bal.
                   let t = t\<lparr>mSourceBalance := bal\<rparr>
                   in bindM (updateM (setFieldAmount sfBalance bal) (mTxnAccount t)) (\<lambda>_.
                      bindM (fieldM (getFieldAmount sfBalance) (mFeeAccount t)) (\<lambda>feeBalance.
                      bindM (liftM (amount_add feeBalance saPaid)) (\<lambda>feeBalance.
                      bindM (updateM (setFieldAmount sfBalance feeBalance) (mFeeAccount t)) (\<lambda>_.
                        retM (tesSUCCESS, t)))))))))"

text \<open>The account of the signing key; a key that was never set has none.\<close>

definition signingAccount :: "txenv \<Rightarrow> transactor \<Rightarrow> Account result" where
  "signingAccount E t =
     (case mSigningPubKey t of
        None \<Rightarrow> Inl (RuntimeError ''unset source - getAccountID'')
      | Some key \<Rightarrow> Inr (accountOfKey E key))"

definition checkSig :: tm where
  "checkSig E t =
     (if hasParam tapPRE_CHECKED t then
        retM (tesSUCCESS, if hasParam tapMASTER_SIGN t then t\<lparr>mSigMaster := True\<rparr> else t)
      else
        bindM (liftM (signingAccount E t)) (\<lambda>signing_account.
          if signing_account = mTxnAccountID t then
            bindM (deref (mTxnAccount t)) (\<lambda>e.
              if isFlag lsfDisableMaster e then retM (tefMASTER_DISABLED, t)
              else retM (tesSUCCESS, t\<lparr>mSigMaster := True\<rparr>))
          else if \<not> mHasAuthKey t then retM (temBAD_AUTH_MASTER, t)
          else
            bindM (fieldM (getFieldAccount160 sfRegularKey) (mTxnAccount t)) (\<lambda>key.
              retM (if signing_account = key then tesSUCCESS else tefBAD_AUTH, t))))"

definition checkSeq :: tm where
  "checkSeq E t =
     bindM (liftM (tx_getSequence (mTxn t))) (\<lambda>t_seq.
     bindM (fieldM (getFieldU32 sfSequence) (mTxnAccount t)) (\<lambda>a_seq.
       if t_seq \<noteq> a_seq then
         if a_seq < t_seq then retM (terPRE_SEQ, t)
         else bindM (getsM (\<lambda>s. hasTransaction (mLedger s) (getTransactionID E (mTxn t)))) (\<lambda>already.
           retM (if already then tefALREADY else tefPAST_SEQ, t))
       else
         bindM (if tx_isFieldPresent sfAccountTxnID (mTxn t) then
                  bindM (fieldM (getFieldH256 sfAccountTxnID) (mTxnAccount t)) (\<lambda>a.
                  bindM (liftM (txH256 sfAccountTxnID (mTxn t))) (\<lambda>b. retM (a \<noteq> b)))
                else retM False) (\<lambda>wrong_prior.
           if wrong_prior then retM (tefWRONG_PRIOR, t)
           else
             bindM (if tx_isFieldPresent sfLastLedgerSequence (mTxn t) then
                      bindM (liftM (txU32 sfLastLedgerSequence (mTxn t))) (\<lambda>n. getsM (\<lambda>s. mLedgerSeq (mLedger s) > n))
                    else retM False) (\<lambda>late.
               if late then retM (tefMAX_LEDGER, t)
               else
                 bindM (updateM (setFieldU32 sfSequence (t_seq + 1)) (mTxnAccount t)) (\<lambda>_.
                 bindM (deref (mTxnAccount t)) (\<lambda>e.
                 bindM (whenM (isFieldPresent sfAccountTxnID e)
                          (updateM (setFieldH256 sfAccountTxnID (getTransactionID E (mTxn t))) (mTxnAccount t))) (\<lambda>_.
                   retM (tesSUCCESS, t))))))))"

definition preCheck :: tm where
  "preCheck E t =
     bindM (liftM (getSourceAccountID (mTxn t))) (\<lambda>acc.
     bindM (liftM (getFeeAccountID (env_app E) (closedLedger E))) (\<lambda>feeAccount.
       let t = t\<lparr>mTxnAccountID := acc, mFeeAccountID := feeAccount\<rparr>
       in
         if acc = 0 then retM (temBAD_SRC_ACCOUNT, t)
         else if checkBlackList (env_app E) (closedLedger E) acc then retM (telBLKLIST, t)
         else
           bindM (liftM (getSigningPubKey (mTxn t))) (\<lambda>key.
             let t = t\<lparr>mSigningPubKey := Some key\<rparr>
             in
               if isKnownGood (mTxn t) then retM (tesSUCCESS, t)
               else
                 let (ok, txn) = (if isKnownBad (mTxn t) then (False, mTxn t)
                                  else if hasParam tapNO_CHECK_SIGN t then (True, mTxn t)
                                  else checkSign (verifySig E) (mTxn t))
                 in if \<not> ok then retM (temINVALID, t\<lparr>mTxn := setBad txn\<rparr>)
                    else retM (tesSUCCESS, t\<lparr>mTxn := setGood txn\<rparr>))))"

definition base_ops :: "tm \<Rightarrow> transactor_ops" where
  "base_ops doApply =
     \<lparr>op_preCheck = preCheck, op_checkSeq = checkSeq, op_payFee = payFee, op_calculateBaseFee = calculateBaseFee,
      op_checkSig = checkSig, op_doApply = doApply, op_mustHaveValidAccount = True\<rparr>"

subsection \<open>apply\<close>

text \<open>The accounts of the source and of the fees, looked up before the checks that use them.\<close>

definition find_accounts :: "txenv \<Rightarrow> transactor \<Rightarrow> transactor lesM" where
  "find_accounts E t =
     bindM (entryCache (getAccountRootIndex (sha E) (mTxnAccountID t))) (\<lambda>p.
     bindM (entryCache (getAccountRootIndex (sha E) (mFeeAccountID t))) (\<lambda>q.
       retM (t\<lparr>mTxnAccount := p, mFeeAccount := q\<rparr>)))"

definition read_source :: "transactor \<Rightarrow> transactor lesM" where
  "read_source t =
     bindM (fieldM (getFieldAmount sfBalance) (mTxnAccount t)) (\<lambda>bal.
     bindM (deref (mTxnAccount t)) (\<lambda>e.
       retM (t\<lparr>mPriorBalance := bal, mSourceBalance := bal, mHasAuthKey := isFieldPresent sfRegularKey e\<rparr>)))"

definition ensure_fee_account :: "txenv \<Rightarrow> transactor \<Rightarrow> transactor lesM" where
  "ensure_fee_account E t =
     (if mFeeAccount t \<noteq> None then retM t
      else
        bindM (entryCreate ltACCOUNT_ROOT (getAccountRootIndex (sha E) (mFeeAccountID t))) (\<lambda>p.
        bindM (updateM (setFieldAccount sfAccount (mFeeAccountID t)) p) (\<lambda>_.
        bindM (updateM (setFieldU32 sfSequence 1) p) (\<lambda>_.
          retM (t\<lparr>mFeeAccount := p\<rparr>)))))"

definition mark_accounts :: "transactor \<Rightarrow> unit lesM" where
  "mark_accounts t =
     bindM (whenM (mTxnAccount t \<noteq> None) (entryModify (mTxnAccount t))) (\<lambda>_.
       whenM (mFeeAccount t \<noteq> None) (entryModify (mFeeAccount t)))"

definition apply_ops :: "transactor_ops \<Rightarrow> tm" where
  "apply_ops V E t =
     thenT (op_preCheck V E t) (\<lambda>t.
       bindM (find_accounts E t) (\<lambda>t.
       bindM (calculateFee V E t) (\<lambda>t.
         if mTxnAccount t = None \<and> op_mustHaveValidAccount V then retM (terNO_ACCOUNT, t)
         else
           bindM (if mTxnAccount t = None then retM t else read_source t) (\<lambda>t.
             thenT (if hasParam tapPRE_CHECKED t then retM (tesSUCCESS, t)
                    else thenT (op_checkSeq V E t) (\<lambda>t. bindM (ensure_fee_account E t) (op_payFee V E))) (\<lambda>t.
             thenT (op_checkSig V E t) (\<lambda>t.
               bindM (mark_accounts t) (\<lambda>_. op_doApply V E t)))))))"

end
