(* ===== verification/Transactors.thy ===== *)
theory Transactors
  imports Transactor
begin

text \<open>
  The transactors that set properties of an account and of the network: \<open>SetAccount\<close>,
  \<open>SetRegularKey\<close>, \<open>SetSign\<close>, \<open>SetNickName\<close>, \<open>Message\<close>, \<open>Change\<close>, \<open>ManageTransactor\<close> and \<open>AccountMerge\<close> of
  \<open>transaction/transactors\<close>. Each has its overridden methods and the table of its virtual methods.
\<close>

unbundle bit_operations_syntax

definition has :: "u32 \<Rightarrow> u32 \<Rightarrow> bool" where
  "has flags b = (flags AND b \<noteq> 0)"

text \<open>A method that ends with a result and leaves the members alone.\<close>

definition doneT :: "transactor \<Rightarrow> TER lesM \<Rightarrow> (TER \<times> transactor) lesM" where
  "doneT t m = bindM m (\<lambda>ter. retM (ter, t))"

definition DOMAIN_BYTES_MAX :: nat where "DOMAIN_BYTES_MAX = 256"
definition PUBLIC_BYTES_MAX :: nat where "PUBLIC_BYTES_MAX = 33"
definition NICKNAME_BYTES_MAX :: nat where "NICKNAME_BYTES_MAX = 256"

text \<open>Copying an optional field of a transaction to an entry: the empty value removes it.\<close>

definition copy_blob :: "sfield \<Rightarrow> nat \<Rightarrow> TER \<Rightarrow> sttx \<Rightarrow> sle_ptr \<Rightarrow> TER lesM" where
  "copy_blob f limit err tx p =
     (if \<not> tx_isFieldPresent f tx then retM tesSUCCESS
      else
        bindM (liftM (txVL f tx)) (\<lambda>b.
          if length b > limit then retM err
          else bindM (updateM (if b = [] then makeFieldAbsent f else setFieldVL f b) p) (\<lambda>_. retM tesSUCCESS)))"

subsection \<open>SetAccount\<close>

definition SetAccount_preCheck :: tm where
  "SetAccount_preCheck E t =
     (let uTxFlags = tx_getFlags (mTxn t)
      in
        if has uTxFlags tfAccountSetMask then retM (temINVALID_FLAG, t)
        else
          bindM (liftM (txU32 sfSetFlag (mTxn t))) (\<lambda>uSetFlag.
          bindM (liftM (txU32 sfClearFlag (mTxn t))) (\<lambda>uClearFlag.
            if uSetFlag \<noteq> 0 \<and> uSetFlag = uClearFlag then retM (temINVALID_FLAG, t)
            else if (has uTxFlags tfRequireAuth \<or> uSetFlag = asfRequireAuth) \<and>
                    (has uTxFlags tfOptionalAuth \<or> uClearFlag = asfRequireAuth) then retM (temINVALID_FLAG, t)
            else if (has uTxFlags requireDestTag \<or> uSetFlag = asfRequireDest) \<and>
                    (has uTxFlags tfOptionalDestTag \<or> uClearFlag = asfRequireDest) then retM (temINVALID_FLAG, t)
            else if (has uTxFlags tfDisallowSWT \<or> uSetFlag = asfDisallowSWT) \<and>
                    (has uTxFlags tfAllowSWT \<or> uClearFlag = asfDisallowSWT) then retM (temINVALID_FLAG, t)
            else
              bindM (if tx_isFieldPresent sfTransferRate (mTxn t)
                     then bindM (liftM (txU32 sfTransferRate (mTxn t))) (\<lambda>uRate. retM (uRate \<noteq> 0 \<and> uRate < QUALITY_ONE))
                     else retM False) (\<lambda>bad_rate.
                if bad_rate then retM (temBAD_TRANSFER_RATE, t) else preCheck E t))))"

definition set_clear :: "bool \<Rightarrow> bool \<Rightarrow> u32 \<Rightarrow> u32 \<Rightarrow> u32 \<Rightarrow> u32" where
  "set_clear bSet bClear flag flagsIn flagsOut =
     (let flagsOut = (if bSet \<and> \<not> has flagsIn flag then flagsOut OR flag else flagsOut)
      in if bClear \<and> has flagsIn flag then flagsOut AND NOT flag else flagsOut)"

text \<open>The flags that are set without a condition on other entries, after those that have one.\<close>

definition freeze_flags :: "u32 \<Rightarrow> u32 \<Rightarrow> u32 \<Rightarrow> u32" where
  "freeze_flags uSetFlag uClearFlag flags =
     (let flags = (if uSetFlag = asfGlobalFreeze then flags OR lsfGlobalFreeze else flags)
      in if uSetFlag \<noteq> asfGlobalFreeze \<and> uClearFlag = asfGlobalFreeze \<and> flags AND lsfNoFreeze = 0
         then flags AND NOT lsfGlobalFreeze else flags)"

definition default_skywell_flags :: "u32 \<Rightarrow> u32 \<Rightarrow> u32 \<Rightarrow> u32" where
  "default_skywell_flags uSetFlag uClearFlag flags =
     (if uSetFlag = asfDefaultSkywell then flags OR lsfDefaultSkywell
      else if uClearFlag = asfDefaultSkywell then flags AND NOT lsfDefaultSkywell
      else flags)"

definition SetAccount_fields :: "sttx \<Rightarrow> sle_ptr \<Rightarrow> u32 \<Rightarrow> u32 \<Rightarrow> TER lesM" where
  "SetAccount_fields tx p uSetFlag uClearFlag =
     bindM (deref p) (\<lambda>e.
     bindM (whenM (uSetFlag = asfAccountTxnID \<and> \<not> isFieldPresent sfAccountTxnID e) (updateM (makeFieldPresent sfAccountTxnID) p)) (\<lambda>_.
     bindM (deref p) (\<lambda>e.
     bindM (whenM (uClearFlag = asfAccountTxnID \<and> isFieldPresent sfAccountTxnID e) (updateM (makeFieldAbsent sfAccountTxnID) p)) (\<lambda>_.
     bindM (whenM (tx_isFieldPresent sfEmailHash tx)
              (bindM (liftM (txH128 sfEmailHash tx)) (\<lambda>h.
                 updateM (if h = 0 then makeFieldAbsent sfEmailHash else setFieldH128 sfEmailHash h) p))) (\<lambda>_.
     bindM (whenM (tx_isFieldPresent sfWalletLocator tx)
              (bindM (liftM (txH256 sfWalletLocator tx)) (\<lambda>h.
                 updateM (if h = 0 then makeFieldAbsent sfWalletLocator else setFieldH256 sfWalletLocator h) p))) (\<lambda>_.
     bindM (copy_blob sfMessageKey PUBLIC_BYTES_MAX telBAD_PUBLIC_KEY tx p) (\<lambda>ter.
       if ter \<noteq> tesSUCCESS then retM ter
       else
         bindM (copy_blob sfDomain DOMAIN_BYTES_MAX telBAD_DOMAIN tx p) (\<lambda>ter.
           if ter \<noteq> tesSUCCESS then retM ter
           else
             bindM (whenM (tx_isFieldPresent sfTransferRate tx)
                      (bindM (liftM (txU32 sfTransferRate tx)) (\<lambda>uRate.
                         if uRate = 0 \<or> uRate = QUALITY_ONE then updateM (makeFieldAbsent sfTransferRate) p
                         else whenM (uRate > QUALITY_ONE) (updateM (setFieldU32 sfTransferRate uRate) p)))) (\<lambda>_.
               retM tesSUCCESS)))))))))"

definition SetAccount_doApply :: tm where
  "SetAccount_doApply E t = doneT t
     (let tx = mTxn t; uTxFlags = tx_getFlags tx; p = mTxnAccount t
      in
        bindM (fieldM (getFieldU32 sfFlags) p) (\<lambda>uFlagsIn.
        bindM (liftM (txU32 sfSetFlag tx)) (\<lambda>uSetFlag.
        bindM (liftM (txU32 sfClearFlag tx)) (\<lambda>uClearFlag.
        bindM (if (has uTxFlags tfRequireAuth \<or> uSetFlag = asfRequireAuth) \<and> \<not> has uFlagsIn lsfRequireAuth
               then bindM (dirIsEmpty (env_app E) (getOwnerDirIndex (sha E) (mTxnAccountID t))) (\<lambda>empt. retM (\<not> empt))
               else retM False) (\<lambda>owners.
          if owners then retM (if hasParam tapRETRY t then terOWNERS else tecOWNERS)
          else
            let uFlagsOut = set_clear (has uTxFlags tfRequireAuth \<or> uSetFlag = asfRequireAuth)
                              (has uTxFlags tfOptionalAuth \<or> uClearFlag = asfRequireAuth) lsfRequireAuth uFlagsIn uFlagsIn;
                uFlagsOut = set_clear (has uTxFlags requireDestTag \<or> uSetFlag = asfRequireDest)
                              (has uTxFlags tfOptionalDestTag \<or> uClearFlag = asfRequireDest) lsfRequireDestTag uFlagsIn uFlagsOut;
                uFlagsOut = set_clear (has uTxFlags tfDisallowSWT \<or> uSetFlag = asfDisallowSWT)
                              (has uTxFlags tfAllowSWT \<or> uClearFlag = asfDisallowSWT) lsfDisallowSWT uFlagsIn uFlagsOut
            in
              bindM (deref p) (\<lambda>e.
                if uSetFlag = asfDisableMaster \<and> \<not> has uFlagsIn lsfDisableMaster \<and> \<not> mSigMaster t then retM tecNEED_MASTER_KEY
                else if uSetFlag = asfDisableMaster \<and> \<not> has uFlagsIn lsfDisableMaster \<and> \<not> isFieldPresent sfRegularKey e
                then retM tecNO_REGULAR_KEY
                else
                  let uFlagsOut = set_clear (uSetFlag = asfDisableMaster) (uClearFlag = asfDisableMaster) lsfDisableMaster uFlagsIn uFlagsOut;
                      uFlagsOut = default_skywell_flags uSetFlag uClearFlag uFlagsOut
                  in
                    if uSetFlag = asfNoFreeze \<and> \<not> mSigMaster t \<and> \<not> has uFlagsIn lsfDisableMaster then retM tecNEED_MASTER_KEY
                    else
                      let uFlagsOut = (if uSetFlag = asfNoFreeze then uFlagsOut OR lsfNoFreeze else uFlagsOut);
                          uFlagsOut = freeze_flags uSetFlag uClearFlag uFlagsOut
                      in
                        bindM (SetAccount_fields tx p uSetFlag uClearFlag) (\<lambda>ter.
                          if ter \<noteq> tesSUCCESS then retM ter
                          else bindM (whenM (uFlagsIn \<noteq> uFlagsOut) (updateM (setFieldU32 sfFlags uFlagsOut) p)) (\<lambda>_. retM tesSUCCESS))))))))"

definition SetAccount_ops :: transactor_ops where
  "SetAccount_ops = (base_ops SetAccount_doApply)\<lparr>op_preCheck := SetAccount_preCheck\<rparr>"

subsection \<open>SetRegularKey\<close>

definition SetRegularKey_calculateBaseFee :: "txenv \<Rightarrow> transactor \<Rightarrow> u64 lesM" where
  "SetRegularKey_calculateBaseFee E t =
     (if mTxnAccount t = None then calculateBaseFee E t
      else
        bindM (deref (mTxnAccount t)) (\<lambda>e.
          if has (getFlags e) lsfPasswordSpent then calculateBaseFee E t
          else bindM (liftM (signingAccount E t)) (\<lambda>a. if a = mTxnAccountID t then retM 0 else calculateBaseFee E t)))"

definition SetRegularKey_preCheck :: tm where
  "SetRegularKey_preCheck E t =
     (if has (tx_getFlags (mTxn t)) tfUniversalMask then retM (temINVALID_FLAG, t) else preCheck E t)"

definition SetRegularKey_doApply :: tm where
  "SetRegularKey_doApply E t = doneT t
     (let p = mTxnAccount t
      in
        bindM (whenM (is_zero (mFeeDue t)) (updateM (\<lambda>e. Inr (setFlag lsfPasswordSpent e)) p)) (\<lambda>_.
          if tx_isFieldPresent sfRegularKey (mTxn t) then
            bindM (liftM (txAccount160 sfRegularKey (mTxn t))) (\<lambda>key.
            bindM (updateM (setFieldAccount sfRegularKey key) p) (\<lambda>_. retM tesSUCCESS))
          else
            bindM (deref p) (\<lambda>e.
              if isFlag lsfDisableMaster e then retM tecMASTER_DISABLED
              else bindM (updateM (makeFieldAbsent sfRegularKey) p) (\<lambda>_. retM tesSUCCESS))))"

definition SetRegularKey_ops :: transactor_ops where
  "SetRegularKey_ops =
     (base_ops SetRegularKey_doApply)\<lparr>op_preCheck := SetRegularKey_preCheck, op_calculateBaseFee := SetRegularKey_calculateBaseFee\<rparr>"


subsection \<open>SetSign\<close>

text \<open>
  The weights and quorums are unsigned, so the tests for negative ones never fail; the fields are
  still read. The source account is not yet known here: \<open>mTxnAccountID\<close> has its initial value.
\<close>

fun signers_check :: "Account \<Rightarrow> (sfield \<times> stvar) list list \<Rightarrow> TER result" where
  "signers_check self [] = Inr tesSUCCESS"
| "signers_check self (ts # tSigners) =
     bindE (obj_Account160 sfAccount ts) (\<lambda>uDstAccountID.
       if uDstAccountID = 0 \<or> uDstAccountID = noAccount then Inr temDST_NEEDED
       else if self = uDstAccountID then Inr temREDUNDANTSIGN
       else bindE (if obj_isFieldPresent sfWeight ts then bindE (obj_get asU16 sfWeight ts) (\<lambda>_. Inr ()) else Inr ()) (\<lambda>_.
         signers_check self tSigners))"

definition SetSign_preCheck :: tm where
  "SetSign_preCheck E t =
     (if has (tx_getFlags (mTxn t)) tfTrustSetMask then retM (temINVALID_FLAG, t)
      else
        bindM (liftM (if tx_isFieldPresent sfMasterWeight (mTxn t) then txU16 sfMasterWeight (mTxn t) else Inr 0)) (\<lambda>_.
        bindM (liftM (if tx_isFieldPresent sfQuorum (mTxn t) then txU32 sfQuorum (mTxn t) else Inr 0)) (\<lambda>_.
        bindM (liftM (if tx_isFieldPresent sfQuorumHigh (mTxn t) then txU32 sfQuorumHigh (mTxn t) else Inr 0)) (\<lambda>_.
        bindM (liftM (bindE (txArray sfSignerEntries (mTxn t)) (signers_check (mTxnAccountID t)))) (\<lambda>ter.
          if ter \<noteq> tesSUCCESS then retM (ter, t) else preCheck E t)))))"

definition SetSign_doApply :: tm where
  "SetSign_doApply E t =
     bindM (liftM (getSourceAccountID (mTxn t))) (\<lambda>acc.
       let t = t\<lparr>mTxnAccountID := acc\<rparr>
       in
         if acc = 0 then retM (temBAD_SRC_ACCOUNT, t)
         else
           bindM (entryCache (getAccountRootIndex (sha E) acc)) (\<lambda>p.
             let t = t\<lparr>mTxnAccount := p\<rparr>; index = getSignStateIndex (sha E) acc
             in
               bindM (liftM (txU16 sfMasterWeight (mTxn t))) (\<lambda>saMasterWeight.
               bindM (liftM (txU32 sfQuorum (mTxn t))) (\<lambda>saQuorum.
               bindM (liftM (txU32 sfQuorumHigh (mTxn t))) (\<lambda>saQuorumHigh.
               bindM (liftM (txArray sfSignerEntries (mTxn t))) (\<lambda>tSignEntries.
               bindM (entryCache index) (\<lambda>state.
                 if state = None \<and> txType (mTxn t) = ttSIGN_SET then
                   doneT t (signCreate (env_app E) index p acc saMasterWeight saQuorum saQuorumHigh tSignEntries)
                 else if txType (mTxn t) = ttSIGN_SET then
                   bindM (whenM (saMasterWeight \<noteq> 0) (updateM (setFieldU16 sfMasterWeight saMasterWeight) state)) (\<lambda>_.
                   bindM (whenM (saQuorum \<noteq> 0) (updateM (setFieldU32 sfQuorum saQuorum) state)) (\<lambda>_.
                   bindM (whenM (saQuorumHigh \<noteq> 0) (updateM (setFieldU32 sfQuorumHigh saQuorumHigh) state)) (\<lambda>_.
                   bindM (whenM (tSignEntries \<noteq> []) (updateM (setFieldArray sfSignerEntries tSignEntries) state)) (\<lambda>_.
                   bindM (entryModify state) (\<lambda>_. retM (tesSUCCESS, t))))))
                 else retM (tesSUCCESS, t))))))))"

definition SetSign_ops :: transactor_ops where
  "SetSign_ops = (base_ops SetSign_doApply)\<lparr>op_preCheck := SetSign_preCheck\<rparr>"

subsection \<open>SetNickName and Message\<close>

definition SetNickName_doApply :: tm where
  "SetNickName_doApply E t =
     bindM (liftM (getSourceAccountID (mTxn t))) (\<lambda>acc.
       let t = t\<lparr>mTxnAccountID := acc\<rparr>; index = getNickNameIndex (sha E) acc
       in
         bindM (entryCache index) (\<lambda>p.
         bindM (if p \<noteq> None then retM p
                else
                  bindM (entryCreate ltNICKNAME index) (\<lambda>p.
                  bindM (updateM (setFieldAccount sfAccount acc) p) (\<lambda>_. retM p))) (\<lambda>sleNick.
         bindM (whenM (sleNick \<noteq> None) (entryModify sleNick)) (\<lambda>_.
         bindM (copy_blob sfDomain DOMAIN_BYTES_MAX telBAD_DOMAIN (mTxn t) sleNick) (\<lambda>ter.
           if ter \<noteq> tesSUCCESS then retM (ter, t)
           else doneT t (copy_blob sfNickname NICKNAME_BYTES_MAX telBAD_NICKNAME (mTxn t) sleNick))))))"

definition SetNickName_ops :: transactor_ops where
  "SetNickName_ops = base_ops SetNickName_doApply"

definition Message_preCheck :: tm where
  "Message_preCheck E t =
     bindM (liftM (getSourceAccountID (mTxn t))) (\<lambda>acc.
     bindM (liftM (txAccount160 sfDestination (mTxn t))) (\<lambda>uDstAccountID.
       let t = t\<lparr>mTxnAccountID := acc\<rparr>
       in
         if uDstAccountID = 0 then retM (temDST_NEEDED, t)
         else if acc = uDstAccountID then retM (temREDUNDANT, t)
         else if checkBlackList (env_app E) (closedLedger E) uDstAccountID then retM (telBLKLIST, t)
         else preCheck E t))"

definition Message_doApply :: tm where
  "Message_doApply E t = doneT t
     (bindM (liftM (txAccount160 sfDestination (mTxn t))) (\<lambda>uDstAccountID.
      bindM (entryCache (getAccountRootIndex (sha E) uDstAccountID)) (\<lambda>sleDst.
        retM (if sleDst = None then tecNO_DST else tesSUCCESS))))"

definition Message_ops :: transactor_ops where
  "Message_ops = (base_ops Message_doApply)\<lparr>op_preCheck := Message_preCheck\<rparr>"

subsection \<open>Change\<close>

definition find_or_create :: "LedgerEntryType \<Rightarrow> u256 \<Rightarrow> sle_ptr lesM" where
  "find_or_create letType index =
     bindM (entryCache index) (\<lambda>p. if p = None then entryCreate letType index else retM p)"

definition applyAmendment :: tm where
  "applyAmendment E t =
     bindM (liftM (txH256 sfAmendment (mTxn t))) (\<lambda>amendment.
     bindM (find_or_create ltAMENDMENTS (getLedgerAmendmentIndex (sha E))) (\<lambda>p.
     bindM (fieldM (getFieldV256 sfAmendments) p) (\<lambda>amendments.
       if amendment \<in> set amendments then retM (tefALREADY, t)
       else
         bindM (updateM (setFieldV256 sfAmendments (amendments @ [amendment])) p) (\<lambda>_.
         bindM (entryModify p) (\<lambda>_.
           retM (tesSUCCESS, t\<lparr>appEffects := appEffects t @ EnableAmendment amendment #
                   (if isSupported E amendment then [] else [SetAmendmentBlocked])\<rparr>))))))"

definition applyFee :: tm where
  "applyFee E t = doneT t
     (bindM (find_or_create ltFEE_SETTINGS (getLedgerFeeIndex (sha E))) (\<lambda>p.
      bindM (liftM (txU64 sfBaseFee (mTxn t))) (\<lambda>v.
      bindM (updateM (setFieldU64 sfBaseFee v) p) (\<lambda>_.
      bindM (liftM (txU32 sfReferenceFeeUnits (mTxn t))) (\<lambda>v.
      bindM (updateM (setFieldU32 sfReferenceFeeUnits v) p) (\<lambda>_.
      bindM (liftM (txU32 sfReserveBase (mTxn t))) (\<lambda>v.
      bindM (updateM (setFieldU32 sfReserveBase v) p) (\<lambda>_.
      bindM (liftM (txU32 sfReserveIncrement (mTxn t))) (\<lambda>v.
      bindM (updateM (setFieldU32 sfReserveIncrement v) p) (\<lambda>_.
      bindM (entryModify p) (\<lambda>_. retM tesSUCCESS)))))))))))"

definition Change_doApply :: tm where
  "Change_doApply E t =
     (if txType (mTxn t) = ttAMENDMENT then applyAmendment E t
      else if txType (mTxn t) = ttFEE then applyFee E t
      else retM (temUNKNOWN, t))"

definition Change_checkSig :: tm where
  "Change_checkSig E t = doneT t
     (bindM (liftM (txAccount160 sfAccount (mTxn t))) (\<lambda>acc.
        if acc \<noteq> 0 then retM temBAD_SRC_ACCOUNT
        else bindM (liftM (getSigningPubKey (mTxn t))) (\<lambda>key.
          retM (if key \<noteq> [] \<or> tx_getSignature (mTxn t) \<noteq> [] then temBAD_SIGNATURE else tesSUCCESS))))"

definition Change_checkSeq :: tm where
  "Change_checkSeq E t = doneT t
     (bindM (liftM (tx_getSequence (mTxn t))) (\<lambda>s.
        retM (if s \<noteq> 0 \<or> tx_isFieldPresent sfPreviousTxnID (mTxn t) then temBAD_SEQUENCE else tesSUCCESS)))"

definition Change_payFee :: tm where
  "Change_payFee E t = doneT t
     (bindM (liftM (getTransactionFee (mTxn t))) (\<lambda>fee.
        retM (if amount_neq fee (STAmount_u64 0 False) then temBAD_FEE else tesSUCCESS)))"

definition Change_preCheck :: tm where
  "Change_preCheck E t =
     bindM (liftM (getSourceAccountID (mTxn t))) (\<lambda>acc.
       retM (if acc \<noteq> 0 then temBAD_SRC_ACCOUNT
             else if hasParam tapOPEN_LEDGER t then temINVALID
             else tesSUCCESS, t\<lparr>mTxnAccountID := acc\<rparr>))"

definition Change_ops :: transactor_ops where
  "Change_ops =
     (base_ops Change_doApply)\<lparr>op_preCheck := Change_preCheck, op_checkSeq := Change_checkSeq, op_payFee := Change_payFee,
        op_checkSig := Change_checkSig, op_mustHaveValidAccount := False\<rparr>"

subsection \<open>ManageTransactor\<close>

definition Manage_checkSeq :: tm where
  "Manage_checkSeq E t =
     bindM (getsM (\<lambda>s. hasTransaction (mLedger s) (getTransactionID E (mTxn t)))) (\<lambda>already.
       retM (if already then tefALREADY else tesSUCCESS, t))"

definition Manage_preCheck :: tm where
  "Manage_preCheck E t =
     bindM (liftM (getSourceAccountID (mTxn t))) (\<lambda>acc.
       let manager = (if txType (mTxn t) = ttMNGISSUER then SISSUER_ACCOUNTID (env_app E) else SMNG_ACCOUNTID E)
       in retM (if acc \<noteq> manager then temBAD_SRC_ACCOUNT else tesSUCCESS, t\<lparr>mTxnAccountID := acc\<rparr>))"

definition set_manage_account :: "LedgerEntryType \<Rightarrow> u256 \<Rightarrow> sfield \<Rightarrow> sttx \<Rightarrow> TER lesM" where
  "set_manage_account letType index f tx =
     bindM (find_or_create letType index) (\<lambda>p.
     bindM (liftM (txAccount160 f tx)) (\<lambda>a.
     bindM (updateM (setFieldAccount f a) p) (\<lambda>_.
     bindM (entryModify p) (\<lambda>_. retM tesSUCCESS))))"

definition applyManageFee :: tm where
  "applyManageFee E t = doneT t (set_manage_account ltMANAGE_FEE (getLedgerManageFeeIndex (sha E)) sfFeeAccountID (mTxn t))"

definition applyManageIssuer :: tm where
  "applyManageIssuer E t =
     doneT t (set_manage_account ltMANAGE_ISSUER (getLedgerManageIssuerIndex (sha E)) sfIssuerAccountID (mTxn t))"

definition applyManageBlackList :: "bool \<Rightarrow> tm" where
  "applyManageBlackList isSet E t = doneT t
     (bindM (liftM (txAccount160 sfBlackListAccountID (mTxn t))) (\<lambda>a.
        let index = getBlackListIndex (sha E) a
        in
          bindM (entryCache index) (\<lambda>p.
            if p = None \<and> isSet then
              bindM (entryCreate ltBLACKLIST index) (\<lambda>p.
              bindM (updateM (setFieldAccount sfBlackListAccountID a) p) (\<lambda>_.
              bindM (entryModify p) (\<lambda>_. retM tesSUCCESS)))
            else if p \<noteq> None \<and> \<not> isSet then bindM (entryDelete p) (\<lambda>_. retM tesSUCCESS)
            else retM temINVALID)))"

definition Manage_doApply :: tm where
  "Manage_doApply E t =
     (if txType (mTxn t) = ttMNGFEE then applyManageFee E t
      else if txType (mTxn t) = ttMNGISSUER then applyManageIssuer E t
      else if txType (mTxn t) = ttBLKLISTSET then applyManageBlackList True E t
      else if txType (mTxn t) = ttBLKLISTRMV then applyManageBlackList False E t
      else retM (temUNKNOWN, t))"

definition succeedT :: tm where
  "succeedT E t = retM (tesSUCCESS, t)"

definition Manage_ops :: transactor_ops where
  "Manage_ops =
     (base_ops Manage_doApply)\<lparr>op_preCheck := Manage_preCheck, op_checkSeq := Manage_checkSeq, op_payFee := succeedT,
        op_checkSig := succeedT\<rparr>"

subsection \<open>AccountMerge\<close>

text \<open>The test of the source account reads members that are only set by the base method called last.\<close>

definition AccountMerge_preCheck :: tm where
  "AccountMerge_preCheck E t =
     (if has (tx_getFlags (mTxn t)) tfAccountMergeMask then retM (temINVALID_FLAG, t)
      else
        bindM (liftM (txAccount160 sfDestination (mTxn t))) (\<lambda>uDstAccountID.
          if uDstAccountID = 0 then retM (temDST_NEEDED, t)
          else if checkBlackList (env_app E) (closedLedger E) uDstAccountID then retM (telBLKLIST, t)
          else if mTxnAccountID t = mFeeAccountID t \<or> mTxnAccountID t = SISSUER_ACCOUNTID (env_app E) \<or>
                  mTxnAccountID t = SMNG_ACCOUNTID E then retM (temBAD_SRC_ACCOUNT, t)
          else if mTxnAccountID t = uDstAccountID then retM (temDST_IS_SRC, t)
          else
            bindM (fieldM (getFieldU32 sfOwnerCount) (mTxnAccount t)) (\<lambda>current_count.
              if current_count \<noteq> 0 then retM (terOWNERS, t) else preCheck E t)))"

definition AccountMerge_doApply :: tm where
  "AccountMerge_doApply E t = doneT t
     (bindM (liftM (txAccount160 sfDestination (mTxn t))) (\<lambda>uDstAccountID.
      bindM (entryCache (getAccountRootIndex (sha E) uDstAccountID)) (\<lambda>sleDst.
        if sleDst = None then retM tecNO_DST
        else
          bindM (fieldM (getFieldAmount sfBalance) (mTxnAccount t)) (\<lambda>saAmount.
          bindM (liftM (zeroed saAmount)) (\<lambda>z.
          bindM (if amount_neq saAmount z then accountSend (env_app E) (mTxnAccountID t) uDstAccountID saAmount else retM tesSUCCESS) (\<lambda>ter.
            if ter \<noteq> tesSUCCESS then retM ter
            else bindM (entryDelete (mTxnAccount t)) (\<lambda>_. retM ter)))))))"

definition AccountMerge_ops :: transactor_ops where
  "AccountMerge_ops = (base_ops AccountMerge_doApply)\<lparr>op_preCheck := AccountMerge_preCheck, op_payFee := succeedT\<rparr>"

end
