(* ===== verification/TrustTransactors.thy ===== *)
theory TrustTransactors
  imports Transactors
begin

text \<open>
  The transactors that set trust lines and relations: \<open>SetTrust\<close> and \<open>SetREL\<close> of
  \<open>transaction/transactors\<close>.
\<close>

unbundle bit_operations_syntax

subsection \<open>SetTrust\<close>

text \<open>The checks on the limit are the same in both transactors, but for the mask of the flags.\<close>

definition limit_preCheck :: "u32 \<Rightarrow> tm" where
  "limit_preCheck forbidden E t =
     (if has (tx_getFlags (mTxn t)) forbidden then retM (temINVALID_FLAG, t)
      else
        bindM (liftM (txAmount sfLimitAmount (mTxn t))) (\<lambda>saLimitAmount.
          if \<not> isLegalNet saLimitAmount then retM (temBAD_AMOUNT, t)
          else if mIsNative saLimitAmount then retM (temBAD_LIMIT, t)
          else if badCurrency = currency (mIssue saLimitAmount) then retM (temBAD_CURRENCY, t)
          else if signum saLimitAmount < 0 then retM (temBAD_LIMIT, t)
          else if account (mIssue saLimitAmount) = 0 \<or> account (mIssue saLimitAmount) = noAccount then retM (temDST_NEEDED, t)
          else preCheck E t))"

definition SetTrust_preCheck :: tm where
  "SetTrust_preCheck = limit_preCheck tfTrustSetMask"

text \<open>
  A quality of an existing line: kept, set or removed on the side of the source. The values of both
  sides are returned, low first.
\<close>

definition set_quality :: "bool \<Rightarrow> u32 \<Rightarrow> bool \<Rightarrow> sfield \<Rightarrow> sfield \<Rightarrow> sle_ptr \<Rightarrow> (u32 \<times> u32) lesM" where
  "set_quality bQuality q bHigh sfLow sfHigh p =
     (if \<not> bQuality then
        bindM (fieldM (getFieldU32 sfLow) p) (\<lambda>low. bindM (fieldM (getFieldU32 sfHigh) p) (\<lambda>high. retM (low, high)))
      else
        bindM (updateM (if q \<noteq> 0 then setFieldU32 (side bHigh sfHigh sfLow) q else makeFieldAbsent (side bHigh sfHigh sfLow)) p) (\<lambda>_.
        bindM (if \<not> bHigh then retM q else fieldM (getFieldU32 sfLow) p) (\<lambda>low.
        bindM (if bHigh then retM q else fieldM (getFieldU32 sfHigh) p) (\<lambda>high. retM (low, high)))))"

definition drop_one :: "u32 \<Rightarrow> u32" where
  "drop_one q = (if QUALITY_ONE = q then 0 else q)"

definition line_flags :: "bool \<Rightarrow> u32 \<Rightarrow> bool \<Rightarrow> bool \<Rightarrow> u32 \<Rightarrow> u32" where
  "line_flags bHigh uTxFlags nonneg noFreeze uFlagsIn =
     (let bSetNoSkywell = has uTxFlags tfSetNoSkywell; bClearNoSkywell = has uTxFlags tfClearNoSkywell;
          bSetFreeze = has uTxFlags tfSetFreeze; bClearFreeze = has uTxFlags tfClearFreeze;
          uFlagsOut = (if bSetNoSkywell \<and> \<not> bClearNoSkywell \<and> nonneg then uFlagsIn OR side bHigh lsfHighNoSkywell lsfLowNoSkywell
                       else if bClearNoSkywell \<and> \<not> bSetNoSkywell then uFlagsIn AND NOT (side bHigh lsfHighNoSkywell lsfLowNoSkywell)
                       else uFlagsIn)
      in if bSetFreeze \<and> \<not> bClearFreeze \<and> \<not> noFreeze then uFlagsOut OR side bHigh lsfHighFreeze lsfLowFreeze
         else if bClearFreeze \<and> \<not> bSetFreeze then uFlagsOut AND NOT (side bHigh lsfHighFreeze lsfLowFreeze)
         else uFlagsOut)"

text \<open>Whether a side of a line differs from the defaults, so that its account must hold a reserve for it.\<close>

definition side_in_use :: "u32 \<Rightarrow> u32 \<Rightarrow> u32 \<Rightarrow> u32 \<Rightarrow> u32 \<Rightarrow> u32 \<Rightarrow> stamount \<Rightarrow> stamount \<Rightarrow> bool" where
  "side_in_use qin qout flags noSkywell freeze accountFlags limit balance \<longleftrightarrow>
     qin \<noteq> 0 \<or> qout \<noteq> 0 \<or> (flags AND noSkywell = 0) \<noteq> (accountFlags AND lsfDefaultSkywell = 0) \<or> has flags freeze \<or>
     \<not> is_zero limit \<or> signum balance > 0"

text \<open>The owner count of one side and its reserve flag follow the use of the line.\<close>

definition adjust_reserve :: "bool \<Rightarrow> u32 \<Rightarrow> u32 \<Rightarrow> sle_ptr \<Rightarrow> u32 \<Rightarrow> u32 lesM" where
  "adjust_reserve in_use flag uFlagsIn p uFlagsOut =
     (if in_use \<and> \<not> has uFlagsIn flag then bindM (incrementOwnerCount p) (\<lambda>_. retM (uFlagsOut OR flag))
      else if \<not> in_use \<and> has uFlagsIn flag then bindM (decrementOwnerCount p) (\<lambda>_. retM (uFlagsOut AND NOT flag))
      else retM uFlagsOut)"

definition modify_line :: "txenv \<Rightarrow> transactor \<Rightarrow> sle_ptr \<Rightarrow> sle_ptr \<Rightarrow> Account \<Rightarrow> stamount \<Rightarrow> bool \<Rightarrow> u32 \<Rightarrow> bool \<Rightarrow> u32 \<Rightarrow> u64 \<Rightarrow> TER lesM" where
  "modify_line E t state sleDst uDstAccountID saLimitAllow bQualityIn uQualityIn bQualityOut uQualityOut uReserveCreate =
     (let bHigh = (mTxnAccountID t > uDstAccountID); uTxFlags = tx_getFlags (mTxn t);
          sleLowAccount = (if \<not> bHigh then mTxnAccount t else sleDst); sleHighAccount = (if bHigh then mTxnAccount t else sleDst)
      in
        bindM (fieldM (getFieldAmount sfBalance) state) (\<lambda>saLowBalance.
        bindM (updateM (setFieldAmount (side bHigh sfHighLimit sfLowLimit) saLimitAllow) state) (\<lambda>_.
        bindM (if \<not> bHigh then retM saLimitAllow else fieldM (getFieldAmount sfLowLimit) state) (\<lambda>saLowLimit.
        bindM (if bHigh then retM saLimitAllow else fieldM (getFieldAmount sfHighLimit) state) (\<lambda>saHighLimit.
        bindM (set_quality bQualityIn uQualityIn bHigh sfLowQualityIn sfHighQualityIn state) (\<lambda>(lowIn, highIn).
        bindM (set_quality bQualityOut uQualityOut bHigh sfLowQualityOut sfHighQualityOut state) (\<lambda>(lowOut, highOut).
        bindM (fieldM (getFieldU32 sfFlags) state) (\<lambda>uFlagsIn.
        bindM (deref (mTxnAccount t)) (\<lambda>src.
        bindM (deref sleLowAccount) (\<lambda>lowAccount.
        bindM (deref sleHighAccount) (\<lambda>highAccount.
          let saHighBalance = amount_uminus saLowBalance;
              uFlagsOut = line_flags bHigh uTxFlags (signum (if bHigh then saHighBalance else saLowBalance) \<ge> 0) (isFlag lsfNoFreeze src) uFlagsIn;
              lowInUse = side_in_use (drop_one lowIn) (drop_one lowOut) uFlagsOut lsfLowNoSkywell lsfLowFreeze (getFlags lowAccount) saLowLimit saLowBalance;
              highInUse = side_in_use (drop_one highIn) (drop_one highOut) uFlagsOut lsfHighNoSkywell lsfHighFreeze (getFlags highAccount) saHighLimit saHighBalance;
              bReserveIncrease = (if bHigh then highInUse \<and> \<not> has uFlagsIn lsfHighReserve else lowInUse \<and> \<not> has uFlagsIn lsfLowReserve);
              uFlagsOut = (if has uTxFlags tfSetfAuth then uFlagsOut OR side bHigh lsfHighAuth lsfLowAuth else uFlagsOut)
          in
            bindM (adjust_reserve lowInUse lsfLowReserve uFlagsIn sleLowAccount uFlagsOut) (\<lambda>uFlagsOut.
            bindM (adjust_reserve highInUse lsfHighReserve uFlagsIn sleHighAccount uFlagsOut) (\<lambda>uFlagsOut.
            bindM (whenM (uFlagsIn \<noteq> uFlagsOut) (updateM (setFieldU32 sfFlags uFlagsOut) state)) (\<lambda>_.
              if \<not> lowInUse \<and> \<not> highInUse \<or> badCurrency = currency (mIssue saLimitAllow) then
                trustDelete (env_app E) state (if \<not> bHigh then mTxnAccountID t else uDstAccountID) (if bHigh then mTxnAccountID t else uDstAccountID)
              else
                bindM (if bReserveIncrease then liftM (amount_less_u64 (mPriorBalance t) uReserveCreate) else retM False) (\<lambda>poor.
                  if poor then retM tecINSUF_RESERVE_LINE
                  else bindM (entryModify state) (\<lambda>_. retM tesSUCCESS))))))))))))))))"

definition SetTrust_doApply :: tm where
  "SetTrust_doApply E t = doneT t
     (let bQualityIn = tx_isFieldPresent sfQualityIn (mTxn t); bQualityOut = tx_isFieldPresent sfQualityOut (mTxn t);
          uTxFlags = tx_getFlags (mTxn t)
      in
        bindM (liftM (txAmount sfLimitAmount (mTxn t))) (\<lambda>saLimitAmount.
          let cur = currency (mIssue saLimitAmount); uDstAccountID = account (mIssue saLimitAmount);
              bHigh = (mTxnAccountID t > uDstAccountID);
              index = getSkywellStateIndex (sha E) (mTxnAccountID t) uDstAccountID cur
          in
            bindM (fieldM (getFieldU32 sfOwnerCount) (mTxnAccount t)) (\<lambda>uOwnerCount.
            bindM (if uOwnerCount < 2 then retM 0 else reserveM (env_app E) (uOwnerCount + 1)) (\<lambda>uReserveCreate.
            bindM (if bQualityIn then liftM (txU32 sfQualityIn (mTxn t)) else retM 0) (\<lambda>uQualityIn.
            bindM (if bQualityOut then liftM (txU32 sfQualityOut (mTxn t)) else retM 0) (\<lambda>q.
            let uQualityOut = (if bQualityOut \<and> QUALITY_ONE = q then 0 else q); bSetAuth = has uTxFlags tfSetfAuth
            in
              bindM (if bSetAuth then bindM (fieldM (getFieldU32 sfFlags) (mTxnAccount t)) (\<lambda>f. retM (\<not> has f lsfRequireAuth)) else retM False) (\<lambda>no_auth.
                if no_auth then retM tefNO_AUTH_REQUIRED
                else if mTxnAccountID t = uDstAccountID then
                  bindM (entryCache index) (\<lambda>selDelete.
                    if selDelete \<noteq> None then trustDelete (env_app E) selDelete (mTxnAccountID t) uDstAccountID
                    else retM temDST_IS_SRC)
                else
                  bindM (entryCache (getAccountRootIndex (sha E) uDstAccountID)) (\<lambda>sleDst.
                    if sleDst = None then retM tecNO_DST
                    else
                      let saLimitAllow = setIssuer (mTxnAccountID t) saLimitAmount
                      in
                        bindM (entryCache index) (\<lambda>state.
                          if state \<noteq> None then
                            modify_line E t state sleDst uDstAccountID saLimitAllow bQualityIn uQualityIn bQualityOut uQualityOut uReserveCreate
                          else if is_zero saLimitAmount \<and> (\<not> bQualityIn \<or> uQualityIn = 0) \<and> (\<not> bQualityOut \<or> uQualityOut = 0) then
                            retM tecNO_LINE_REDUNDANT
                          else
                            bindM (liftM (amount_less_u64 (mPriorBalance t) uReserveCreate)) (\<lambda>poor.
                              if poor then retM tecNO_LINE_INSUF_RESERVE
                              else
                                bindM (liftM (STAmount_issue \<lparr>currency = cur, account = noAccount\<rparr> 0 0 False)) (\<lambda>saBalance.
                                  trustCreate (env_app E) bHigh (mTxnAccountID t) uDstAccountID index (mTxnAccount t) bSetAuth
                                    (has uTxFlags tfSetNoSkywell \<and> \<not> has uTxFlags tfClearNoSkywell)
                                    (has uTxFlags tfSetFreeze \<and> \<not> has uTxFlags tfClearFreeze)
                                    saBalance saLimitAllow uQualityIn uQualityOut)))))))))))"

definition SetTrust_ops :: transactor_ops where
  "SetTrust_ops = (base_ops SetTrust_doApply)\<lparr>op_preCheck := SetTrust_preCheck\<rparr>"

subsection \<open>SetREL\<close>

definition SetREL_preCheck :: tm where
  "SetREL_preCheck = limit_preCheck tfRelationSetMask"

definition SetREL_doApply :: tm where
  "SetREL_doApply E t = doneT t
     (let bQualityIn = tx_isFieldPresent sfQualityIn (mTxn t); bQualityOut = tx_isFieldPresent sfQualityOut (mTxn t)
      in
        bindM (liftM (txU32 sfRelationType (mTxn t))) (\<lambda>uRelationType.
        bindM (liftM (txAmount sfLimitAmount (mTxn t))) (\<lambda>saLimitAmount.
        bindM (liftM (txAccount160 sfTarget (mTxn t))) (\<lambda>uDstAccountID.
        bindM (if bQualityIn then liftM (txU32 sfQualityIn (mTxn t)) else retM 0) (\<lambda>uQualityIn.
        bindM (if bQualityOut then liftM (txU32 sfQualityOut (mTxn t)) else retM 0) (\<lambda>q.
          let cur = currency (mIssue saLimitAmount); uIssuerID = account (mIssue saLimitAmount);
              bHigh = (mTxnAccountID t > uDstAccountID);
              uQualityOut = (if bQualityOut \<and> QUALITY_ONE = q then 0 else q);
              index = getTrustStateIndex (sha E) (mTxnAccountID t) uDstAccountID uRelationType uIssuerID cur
          in
            bindM (entryCache (getAccountRootIndex (sha E) uDstAccountID)) (\<lambda>sleDst.
              if sleDst = None then retM tecNO_DST
              else
                let saLimitAllow = setIssuer (mTxnAccountID t) saLimitAmount
                in
                  bindM (entryCache index) (\<lambda>state.
                    if txType (mTxn t) = ttREL_DEL \<and> state \<noteq> None then
                      trustDelete (env_app E) state (mTxnAccountID t) uDstAccountID
                    else if state = None \<and> txType (mTxn t) = ttREL_SET then
                      bindM (liftM (STAmount_issue \<lparr>currency = cur, account = uIssuerID\<rparr> 0 0 False)) (\<lambda>saBalance.
                      bindM (relationCreate (env_app E) bHigh (mTxnAccountID t) uDstAccountID index (mTxnAccount t) saBalance
                               saLimitAllow uQualityIn uQualityOut) (\<lambda>terResult.
                        if terResult = tesSUCCESS then
                          bindM (entryCache index) (\<lambda>state.
                          bindM (updateM (setFieldU32 sfRelationType uRelationType) state) (\<lambda>_.
                          bindM (entryModify state) (\<lambda>_. retM terResult)))
                        else retM terResult))
                    else if txType (mTxn t) = ttREL_SET then
                      bindM (updateM (setFieldAmount (side bHigh sfHighLimit sfLowLimit) saLimitAllow) state) (\<lambda>_.
                      bindM (entryModify state) (\<lambda>_. retM tesSUCCESS))
                    else retM tesSUCCESS))))))))"

definition SetREL_ops :: transactor_ops where
  "SetREL_ops = (base_ops SetREL_doApply)\<lparr>op_preCheck := SetREL_preCheck\<rparr>"

end
