(* ===== verification/Payments.thy ===== *)
theory Payments
  imports TrustTransactors
begin

text \<open>
  Payments and batches: \<open>Payment\<close> and \<open>Operations\<close> of \<open>transaction/transactors\<close>, and the dispatch
  \<open>Transactor::transact\<close> over all transaction types. The calculation of a payment through paths is the
  parameter \<open>skywellCalculate\<close>; the direct payment in native currency is modelled in full.

  Where the code catches exceptions, the entries it has changed so far stay changed; the model
  forgets these changes. The result of the transaction is a failure in that case, and the engine
  discards the whole set.
\<close>

unbundle bit_operations_syntax

definition MaxPathSize :: nat where "MaxPathSize = 6"
definition MaxPathLength :: nat where "MaxPathLength = 8"

text \<open>A null pointer, a division by zero and an endless loop are not exceptions that can be caught.\<close>

definition catchable :: "cxx_error \<Rightarrow> bool" where
  "catchable er = (er \<notin> {NullPointer, Dangling, DivideByZero, Diverges})"

definition catchM :: "'a lesM \<Rightarrow> 'a lesM \<Rightarrow> 'a lesM" where
  "catchM m handler = (\<lambda>s. case m s of Inl er \<Rightarrow> if catchable er then handler s else Inl er | Inr r \<Rightarrow> Inr r)"

definition fundsCheckM :: "app \<Rightarrow> Account \<Rightarrow> stamount \<Rightarrow> TER lesM" where
  "fundsCheckM A acc amt = (\<lambda>s. case accountFundsCheck A acc amt s of None \<Rightarrow> Inl Diverges | Some r \<Rightarrow> r)"

subsection \<open>Payment\<close>

text \<open>What the source will spend at most.\<close>

definition max_source :: "sttx \<Rightarrow> Account \<Rightarrow> stamount \<Rightarrow> stamount result" where
  "max_source tx acc saDstAmount =
     (if tx_isFieldPresent sfSendMax tx then txAmount sfSendMax tx
      else if mIsNative saDstAmount then Inr saDstAmount
      else STAmount_issue \<lparr>currency = currency (mIssue saDstAmount), account = acc\<rparr> (mValue saDstAmount) (mOffset saDstAmount)
             (signum saDstAmount < 0))"

definition Payment_preCheck :: tm where
  "Payment_preCheck E t =
     (let tx = mTxn t; uTxFlags = tx_getFlags tx
      in
        bindM (liftM (getSourceAccountID tx)) (\<lambda>acc.
          let t = t\<lparr>mTxnAccountID := acc\<rparr>; bPaths = tx_isFieldPresent sfPaths tx; bMax = tx_isFieldPresent sfSendMax tx
          in
            if has uTxFlags tfPaymentMask then retM (temINVALID_FLAG, t)
            else
              bindM (liftM (txAmount sfAmount tx)) (\<lambda>saDstAmount.
              bindM (liftM (max_source tx acc saDstAmount)) (\<lambda>maxSourceAmount.
                let uSrcCurrency = currency (mIssue maxSourceAmount); uDstCurrency = currency (mIssue saDstAmount);
                    bSWTDirect = (uSrcCurrency = 0 \<and> uDstCurrency = 0)
                in
                  if \<not> isLegalNet saDstAmount \<or> \<not> isLegalNet maxSourceAmount then retM (temBAD_AMOUNT, t)
                  else
                    bindM (liftM (txAccount160 sfDestination tx)) (\<lambda>uDstAccountID.
                      if uDstAccountID = 0 then retM (temDST_NEEDED, t)
                      else if bMax \<and> signum maxSourceAmount \<le> 0 then retM (temBAD_AMOUNT, t)
                      else if signum saDstAmount \<le> 0 then retM (temBAD_AMOUNT, t)
                      else if badCurrency = uSrcCurrency \<or> badCurrency = uDstCurrency then retM (temBAD_CURRENCY, t)
                      else if acc = uDstAccountID \<and> uSrcCurrency = uDstCurrency \<and> \<not> bPaths then retM (temREDUNDANT, t)
                      else if checkBlackList (env_app E) (closedLedger E) uDstAccountID then retM (telBLKLIST, t)
                      else if bSWTDirect \<and> bMax then retM (temBAD_SEND_SWT_MAX, t)
                      else if bSWTDirect \<and> bPaths then retM (temBAD_SEND_SWT_PATHS, t)
                      else if bSWTDirect \<and> has uTxFlags tfPartialPayment then retM (temBAD_SEND_SWT_PARTIAL, t)
                      else if bSWTDirect \<and> has uTxFlags tfLimitQuality then retM (temBAD_SEND_SWT_LIMIT, t)
                      else if bSWTDirect \<and> has uTxFlags tfNoSkywellDirect then retM (temBAD_SEND_SWT_NO_DIRECT, t)
                      else
                        bindM (fundsCheckM (env_app E) acc (if bMax then maxSourceAmount else saDstAmount)) (\<lambda>ter.
                          if ter \<noteq> tesSUCCESS then retM (telINSUF_FUND, t) else preCheck E t))))))"

text \<open>The destination's account root, created if a native payment funds it.\<close>

definition payment_destination :: "txenv \<Rightarrow> transactor \<Rightarrow> Account \<Rightarrow> stamount \<Rightarrow> (TER \<times> sle_ptr) lesM" where
  "payment_destination E t uDstAccountID saDstAmount =
     (let index = getAccountRootIndex (sha E) uDstAccountID
      in
        bindM (entryCache index) (\<lambda>sleDst.
          if sleDst = None then
            if \<not> mIsNative saDstAmount then retM (tecNO_DST, None)
            else if hasParam tapOPEN_LEDGER t \<and> has (tx_getFlags (mTxn t)) tfPartialPayment then retM (telNO_DST_PARTIAL, None)
            else
              bindM (reserveM (env_app E) 0) (\<lambda>reserve.
              bindM (liftM (amount_less_u64 saDstAmount reserve)) (\<lambda>poor.
                if poor then retM (tecNO_DST_INSUF_SWT, None)
                else
                  bindM (entryCreate ltACCOUNT_ROOT index) (\<lambda>p.
                  bindM (updateM (setFieldAccount sfAccount uDstAccountID) p) (\<lambda>_.
                  bindM (updateM (setFieldU32 sfSequence 1) p) (\<lambda>_. retM (tesSUCCESS, p))))))
          else
            bindM (deref sleDst) (\<lambda>e.
              if has (getFlags e) lsfRequireDestTag \<and> \<not> tx_isFieldPresent sfDestinationTag (mTxn t) then retM (tecDST_TAG_NEEDED, None)
              else bindM (entryModify sleDst) (\<lambda>_. retM (tesSUCCESS, sleDst)))))"

definition auto_trust :: "txenv \<Rightarrow> Account \<Rightarrow> stamount \<Rightarrow> unit lesM" where
  "auto_trust E uDstAccountID saDstAmount =
     whenM (\<not> isSWT (currency (mIssue saDstAmount)) \<and> uDstAccountID \<noteq> account (mIssue saDstAmount))
       (bindM (liftM (STAmount_issue (mIssue saDstAmount) 0 0 False)) (\<lambda>issue_amount.
        bindM (issue_trust_auto (env_app E) uDstAccountID issue_amount (mIssue saDstAmount) False) (\<lambda>_. retM ())))"

definition calculate_payment :: "txenv \<Rightarrow> stamount \<Rightarrow> stamount \<Rightarrow> Account \<Rightarrow> Account \<Rightarrow> path_set \<Rightarrow> calc_input \<Rightarrow> TER lesM" where
  "calculate_payment E maxSourceAmount saDstAmount uDstAccountID uSrcAccountID spsPaths rcInput =
     bindM (\<lambda>s. let (enabled, s) = ScopedDeferCredits s
                in bindM (skywellCalculate E maxSourceAmount saDstAmount uDstAccountID uSrcAccountID spsPaths rcInput)
                     (\<lambda>rc s. Inr (rc, leave_ScopedDeferCredits enabled s)) s) (\<lambda>rc.
     bindM (\<lambda>s. Inr ((), if calc_result rc = tesSUCCESS \<and> amount_neq (actualAmountOut rc) saDstAmount
                         then setDeliveredAmount (actualAmountOut rc) s else s)) (\<lambda>_.
       retM (calc_result rc)))"

definition path_payment :: "txenv \<Rightarrow> transactor \<Rightarrow> Account \<Rightarrow> stamount \<Rightarrow> stamount \<Rightarrow> TER lesM" where
  "path_payment E t uDstAccountID saDstAmount maxSourceAmount =
     bindM (liftM (txPathSet sfPaths (mTxn t))) (\<lambda>spsPaths.
       let flags = tx_getFlags (mTxn t);
           rcInput = \<lparr>partialPaymentAllowed = has flags tfPartialPayment, defaultPathsAllowed = \<not> has flags tfNoSkywellDirect,
                      limitQuality = has flags tfLimitQuality, deleteUnfundedOffers = True, isLedgerOpen = hasParam tapOPEN_LEDGER t\<rparr>;
           pathTooBig = (length spsPaths > MaxPathSize \<or> (\<exists>path\<in>set spsPaths. length path > MaxPathLength))
       in
         catchM
           (bindM (liftM (getIssuerOpAccountID (env_app E) (closedLedger E))) (\<lambda>mIssuerAccountID.
            bindM (if isLedgerOpen rcInput \<and> pathTooBig then retM telBAD_PATH_COUNT
                   else if mTxnAccountID t = mIssuerAccountID then
                     bindM (auto_trust E uDstAccountID saDstAmount) (\<lambda>_.
                       calculate_payment E (setIssuer (account (mIssue saDstAmount)) maxSourceAmount) saDstAmount uDstAccountID
                         (account (mIssue saDstAmount)) spsPaths rcInput)
                   else if mTxnAccountID t = account (mIssue saDstAmount) then retM tecNO_PERMISSION
                   else
                     bindM (auto_trust E uDstAccountID saDstAmount) (\<lambda>_.
                       calculate_payment E maxSourceAmount saDstAmount uDstAccountID (mTxnAccountID t) spsPaths rcInput)) (\<lambda>terResult.
              retM (if isTerRetry terResult then tecPATH_DRY else terResult))))
           (retM tefEXCEPTION))"

definition direct_payment :: "txenv \<Rightarrow> transactor \<Rightarrow> sle_ptr \<Rightarrow> stamount \<Rightarrow> TER lesM" where
  "direct_payment E t sleDst saDstAmount =
     bindM (fieldM (getFieldU32 sfOwnerCount) (mTxnAccount t)) (\<lambda>uOwnerCount.
     bindM (reserveM (env_app E) uOwnerCount) (\<lambda>uReserve.
     bindM (liftM (bindE (getTransactionFee (mTxn t)) getNValue)) (\<lambda>fee.
     bindM (liftM (amount_add_u64 saDstAmount (max uReserve fee))) (\<lambda>needed.
     bindM (liftM (amount_less (mPriorBalance t) needed)) (\<lambda>poor.
       if poor then retM tecUNFUNDED_PAYMENT
       else
         bindM (liftM (amount_sub (mSourceBalance t) saDstAmount)) (\<lambda>bal.
         bindM (updateM (setFieldAmount sfBalance bal) (mTxnAccount t)) (\<lambda>_.
         bindM (fieldM (getFieldAmount sfBalance) sleDst) (\<lambda>dst.
         bindM (liftM (amount_add dst saDstAmount)) (\<lambda>dst.
         bindM (updateM (setFieldAmount sfBalance dst) sleDst) (\<lambda>_.
         bindM (deref sleDst) (\<lambda>e.
         bindM (whenM (has (getFlags e) lsfPasswordSpent) (updateM (\<lambda>e. Inr (clearFlag lsfPasswordSpent e)) sleDst)) (\<lambda>_.
           retM tesSUCCESS))))))))))))"

definition Payment_doApply :: tm where
  "Payment_doApply E t = doneT t
     (bindM (liftM (txAccount160 sfDestination (mTxn t))) (\<lambda>uDstAccountID.
      bindM (liftM (txAmount sfAmount (mTxn t))) (\<lambda>saDstAmount.
      bindM (liftM (max_source (mTxn t) (mTxnAccountID t) saDstAmount)) (\<lambda>maxSourceAmount.
      bindM (payment_destination E t uDstAccountID saDstAmount) (\<lambda>(ter, sleDst).
        if ter \<noteq> tesSUCCESS then retM ter
        else if tx_isFieldPresent sfPaths (mTxn t) \<or> tx_isFieldPresent sfSendMax (mTxn t) \<or> \<not> mIsNative saDstAmount then
          path_payment E t uDstAccountID saDstAmount maxSourceAmount
        else direct_payment E t sleDst saDstAmount)))))"

definition Payment_ops :: transactor_ops where
  "Payment_ops = (base_ops Payment_doApply)\<lparr>op_preCheck := Payment_preCheck\<rparr>"

subsection \<open>Operations\<close>

text \<open>
  The authorization of one part of a batch. The quorum is a signed 32-bit value; what is left of
  it after the weights of the signers decides.
\<close>

fun signers_weigh :: "Account set \<Rightarrow> int \<Rightarrow> (sfield \<times> stvar) list list \<Rightarrow> bool result" where
  "signers_weigh mSigners saQuorum [] = Inr False"
| "signers_weigh mSigners saQuorum (en # es) =
     bindE (obj_AccountID sfAccount en) (\<lambda>a.
       if a \<in> mSigners then
         bindE (obj_get asU16 sfWeight en) (\<lambda>w.
           let saQuorum = saQuorum - uint w
           in if saQuorum \<le> 0 then Inr True else signers_weigh mSigners saQuorum es)
       else signers_weigh mSigners saQuorum es)"

definition precheckSig :: "txenv \<Rightarrow> Account set \<Rightarrow> sttx \<Rightarrow> u32 \<Rightarrow> (TER \<times> u32) lesM" where
  "precheckSig E mSigners txn params =
     bindM (liftM (getSourceAccountID txn)) (\<lambda>acc.
     bindM (entryCache (getAccountRootIndex (sha E) acc)) (\<lambda>p.
     bindM (deref p) (\<lambda>e.
       if acc \<in> mSigners then
         retM (if isFlag lsfDisableMaster e then (tefMASTER_DISABLED, params) else (tesSUCCESS, params OR tapMASTER_SIGN))
       else
         bindM (if isFieldPresent sfRegularKey e then bindM (liftM (getFieldAccount160 sfRegularKey e)) (\<lambda>key. retM (acc = key)) else retM False) (\<lambda>own_key.
           if own_key then retM (tesSUCCESS, params)
           else if mSigners = {} then retM (tefBAD_AUTH, params)
           else
             bindM (entryCache (getSignStateIndex (sha E) acc)) (\<lambda>q.
               if q = None then retM (tefBAD_AUTH, params)
               else
                 bindM (fieldM (getFieldU32 sfQuorum) q) (\<lambda>quorum.
                   let saQuorum = sint quorum
                   in
                     if saQuorum = 0 then retM (tesSUCCESS, params)
                     else if saQuorum < 0 then retM (tefBAD_AUTH, params)
                     else
                       bindM (fieldM (getFieldU16 sfMasterWeight) q) (\<lambda>w.
                         let saQuorum = saQuorum - uint w
                         in
                           if saQuorum \<le> 0 then retM (tesSUCCESS, params)
                           else
                             bindM (fieldM (getFieldArray sfSignerEntries) q) (\<lambda>tSignEntries.
                             bindM (liftM (signers_weigh mSigners saQuorum tSignEntries)) (\<lambda>ok.
                               retM (if ok then tesSUCCESS else tefBAD_AUTH, params))))))))))"

text \<open>The parts run one after the other until one does not succeed; \<open>transact\<close> runs one of them.\<close>

fun run_parts :: "(sttx \<Rightarrow> u32 \<Rightarrow> (TER \<times> app_effect list) lesM) \<Rightarrow> Account set \<Rightarrow> sttx list \<Rightarrow> TER \<Rightarrow> tm" where
  "run_parts transact mSigners [] ter E t = retM (ter, t)"
| "run_parts transact mSigners (sttx # sttxs) ter E t =
     bindM (precheckSig E mSigners sttx (mTxParams t)) (\<lambda>(ter, params).
       let t = t\<lparr>mTxParams := params\<rparr>
       in
         if ter \<noteq> tesSUCCESS then retM (ter, t)
         else
           let t = t\<lparr>mTxParams := mTxParams t OR tapPRE_CHECKED\<rparr>
           in
             bindM (transact sttx (mTxParams t)) (\<lambda>(ter, effects).
               let t = t\<lparr>appEffects := appEffects t @ effects\<rparr>
               in if ter = temUNKNOWN \<or> \<not> isTesSuccess ter then retM (ter, t)
                  else run_parts transact mSigners sttxs ter E t))"

definition Operations_doApply :: "(sttx \<Rightarrow> u32 \<Rightarrow> (TER \<times> app_effect list) lesM) \<Rightarrow> tm" where
  "Operations_doApply transact E t =
     (case bindE (getSignAccount (accountOfKey E) (mTxn t)) (\<lambda>mSigners.
           bindE (getSTTxs (mTxn t)) (\<lambda>mSTTxs. Inr (mSigners, mSTTxs))) of
        Inl _ \<Rightarrow> retM (temINVALID, t)
      | Inr (mSigners, mSTTxs) \<Rightarrow>
          if mSTTxs = [] then retM (temINVALID, t) else run_parts transact mSigners mSTTxs tesSUCCESS E t)"

definition Operations_ops :: "(sttx \<Rightarrow> u32 \<Rightarrow> (TER \<times> app_effect list) lesM) \<Rightarrow> transactor_ops" where
  "Operations_ops transact = base_ops (Operations_doApply transact)"


subsection \<open>Dispatch\<close>

text \<open>
  A transactor is made for the transaction, applied and dropped; what is left is the result and
  its effects outside the ledger. Batches may be nested; each level of nesting uses one unit of
  fuel, and the depth of the arrays of the transaction is always enough. Tickets are not
  enabled in the build.
\<close>

definition run_ops :: "transactor_ops \<Rightarrow> txenv \<Rightarrow> sttx \<Rightarrow> u32 \<Rightarrow> (TER \<times> app_effect list) lesM" where
  "run_ops V E txn params =
     bindM (apply_ops V E (new_transactor txn params)) (\<lambda>(ter, t). retM (ter, appEffects t))"

definition simple_ops :: "TxType \<Rightarrow> transactor_ops option" where
  "simple_ops ty =
     (case ty of
        ttPAYMENT \<Rightarrow> Some Payment_ops
      | ttACCOUNT_SET \<Rightarrow> Some SetAccount_ops
      | ttREGULAR_KEY_SET \<Rightarrow> Some SetRegularKey_ops
      | ttTRUST_SET \<Rightarrow> Some SetTrust_ops
      | ttREL_SET \<Rightarrow> Some SetREL_ops
      | ttREL_DEL \<Rightarrow> Some SetREL_ops
      | ttAMENDMENT \<Rightarrow> Some Change_ops
      | ttFEE \<Rightarrow> Some Change_ops
      | ttNICKNAME_SET \<Rightarrow> Some SetNickName_ops
      | ttACCOUNT_MERGE \<Rightarrow> Some AccountMerge_ops
      | ttMNGFEE \<Rightarrow> Some Manage_ops
      | ttBLKLISTSET \<Rightarrow> Some Manage_ops
      | ttBLKLISTRMV \<Rightarrow> Some Manage_ops
      | ttMNGISSUER \<Rightarrow> Some Manage_ops
      | ttSIGN_SET \<Rightarrow> Some SetSign_ops
      | ttMESSAGE \<Rightarrow> Some Message_ops
      | _ \<Rightarrow> None)"

fun transact_fuel :: "nat \<Rightarrow> txenv \<Rightarrow> sttx \<Rightarrow> u32 \<Rightarrow> (TER \<times> app_effect list) lesM" where
  "transact_fuel n E txn params =
     (case simple_ops (txType txn) of
        Some V \<Rightarrow> run_ops V E txn params
      | None \<Rightarrow>
          if txType txn \<in> {ttTICKET_CREATE, ttTICKET_CANCEL} then retM (temDISABLED, [])
          else if txType txn = ttOPERATION then
            (case n of
               0 \<Rightarrow> (\<lambda>s. Inl Diverges)
             | Suc m \<Rightarrow> run_ops (Operations_ops (transact_fuel m E)) E txn params)
          else retM (temUNKNOWN, []))"

fun stvar_depth :: "stvar \<Rightarrow> nat"
  and objects_depth :: "(sfield \<times> stvar) list list \<Rightarrow> nat"
  and fields_depth :: "(sfield \<times> stvar) list \<Rightarrow> nat" where
  "stvar_depth (STArray xs) = Suc (objects_depth xs)"
| "stvar_depth v = 0"
| "objects_depth [] = 0"
| "objects_depth (x # xs) = max (fields_depth x) (objects_depth xs)"
| "fields_depth [] = 0"
| "fields_depth ((f, v) # fs) = max (stvar_depth v) (fields_depth fs)"

definition batch_depth :: "sttx \<Rightarrow> nat" where
  "batch_depth txn = (case txFields txn sfOperations of None \<Rightarrow> 1 | Some v \<Rightarrow> Suc (stvar_depth v))"

definition transact :: "txenv \<Rightarrow> sttx \<Rightarrow> u32 \<Rightarrow> (TER \<times> app_effect list) lesM" where
  "transact E txn = transact_fuel (batch_depth txn) E txn"

end
