(* ===== verification/Threading.thy ===== *)
theory Threading
  imports EntrySet
begin

text \<open>
  Threading: before a set of entries is written back, \<open>LedgerEntrySet::calcRawMeta\<close> enters the
  identifier of the transaction and the sequence of the ledger into the entries it touched and into
  the account roots of the owners of those it created or deleted. The account of this in
  \<open>ledger/LedgerEntrySet.cpp\<close>, \<open>protocol/impl/STLedgerEntry.cpp\<close> and
  \<open>transaction/tx/TransactionMeta.cpp\<close> is modelled as far as it changes entries: the lists of old and new
  field values that go into the metadata are left out.
\<close>

subsection \<open>Equality of objects\<close>

text \<open>
  Objects are compared by their fields with a binary form. Amounts are compared by \<open>operator==\<close>, which
  looks at the currency and the value and not at the issuer.
\<close>

definition isBinary :: "sfield \<Rightarrow> bool" where
  "isBinary f = (fieldValue f < 256)"

fun stvar_isEquivalent :: "stvar \<Rightarrow> stvar \<Rightarrow> bool"
  and objects_equal :: "(sfield \<times> stvar) list list \<Rightarrow> (sfield \<times> stvar) list list \<Rightarrow> bool"
  and fields_match :: "(sfield \<times> stvar) list \<Rightarrow> (sfield \<times> stvar) list \<Rightarrow> bool" where
  "stvar_isEquivalent (STAmount a) w = (case w of STAmount b \<Rightarrow> amount_eq b a | _ \<Rightarrow> False)"
| "stvar_isEquivalent (STArray xs) w = (case w of STArray ys \<Rightarrow> objects_equal xs ys | _ \<Rightarrow> False)"
| "stvar_isEquivalent v w = (v = w)"
| "objects_equal [] ys = (ys = [])"
| "objects_equal (x # xs) [] = False"
| "objects_equal (x # xs) (y # ys) =
     (fields_match x y \<and> length (filter (isBinary \<circ> fst) x) = length (filter (isBinary \<circ> fst) y) \<and> objects_equal xs ys)"
| "fields_match [] gs = True"
| "fields_match ((f, v) # fs) gs =
     ((\<not> isBinary f \<or> (case map_of gs f of None \<Rightarrow> False | Some w \<Rightarrow> stvar_isEquivalent v w)) \<and> fields_match fs gs)"

definition present_fields :: "sle \<Rightarrow> (sfield \<times> stvar) list" where
  "present_fields e =
     (case findByType (sleType e) of
        None \<Rightarrow> []
      | Some es \<Rightarrow> [(f, v). f \<leftarrow> map fst es, Some v \<leftarrow> [sleFields e f]])"

definition entry_equal :: "sle \<Rightarrow> sle \<Rightarrow> bool" where
  "entry_equal e x \<longleftrightarrow>
     fields_match (present_fields e) (present_fields x) \<and>
     length (filter (isBinary \<circ> fst) (present_fields e)) = length (filter (isBinary \<circ> fst) (present_fields x))"

subsection \<open>Threads of an entry\<close>

definition isThreadedType :: "sle \<Rightarrow> bool" where
  "isThreadedType e = hasField sfPreviousTxnID e"

text \<open>The previous transaction, and the entry threaded to this one; \<open>None\<close> if it already is.\<close>

definition thread_sle :: "u256 \<Rightarrow> u32 \<Rightarrow> sle \<Rightarrow> (u256 \<times> sle) option result" where
  "thread_sle txID ledgerSeq e =
     bindE (getFieldH256 sfPreviousTxnID e) (\<lambda>oldPrevTxID.
       if oldPrevTxID = txID then Inr None
       else bindE (getFieldU32 sfPreviousTxnLgrSeq e) (\<lambda>_.
            bindE (setFieldH256 sfPreviousTxnID txID e) (\<lambda>e.
            bindE (setFieldU32 sfPreviousTxnLgrSeq ledgerSeq e) (\<lambda>e. Inr (Some (oldPrevTxID, e))))))"

definition hasOneOwner :: "sle \<Rightarrow> bool" where
  "hasOneOwner e = (sleType e \<noteq> ltACCOUNT_ROOT \<and> hasField sfAccount e)"

definition hasTwoOwners :: "sle \<Rightarrow> bool" where
  "hasTwoOwners e = (sleType e = ltSKYWELL_STATE)"

text \<open>The owner's address; one that was never set has no account identifier.\<close>

definition getOwner :: "sle \<Rightarrow> Account result" where
  "getOwner e =
     (if \<not> hasField sfAccount e then Inl (RuntimeError ''Field not found'')
      else case sleFields e sfAccount of
             Some (STAccount (Some a)) \<Rightarrow> Inr a
           | Some (STAccount None) \<Rightarrow> Inl (RuntimeError ''unset source - getAccountID'')
           | None \<Rightarrow> Inl (RuntimeError ''unset source - getAccountID'')
           | Some _ \<Rightarrow> Inl (RuntimeError ''Wrong field type''))"

definition getFirstOwner :: "sle \<Rightarrow> Account result" where
  "getFirstOwner e = bindE (getFieldAmount sfLowLimit e) (\<lambda>a. Inr (account (mIssue a)))"

definition getSecondOwner :: "sle \<Rightarrow> Account result" where
  "getSecondOwner e = bindE (getFieldAmount sfHighLimit e) (\<lambda>a. Inr (account (mIssue a)))"

subsection \<open>Threading a set\<close>

text \<open>
  The state of \<open>calcRawMeta\<close>: the set, the entries it fetched from the ledger on the way, and the
  metadata nodes that carry a previous transaction already. A pointer to an entry points into the
  set or among the fetched entries. The fetched entries are in a hash map, which is visited once at
  the end in an order that does not matter.
\<close>

record thread_state =
  thSet :: les
  newMods :: "(u256, sle) smap"
  metaThreaded :: "u256 list"

datatype mod_ref = InSet u256 | InMods u256

definition getForMod :: "u256 \<Rightarrow> thread_state \<Rightarrow> mod_ref option \<times> thread_state" where
  "getForMod node t =
     (case map_of (mEntries (thSet t)) node of
        Some e \<Rightarrow>
          if mAction e = taaDELETE then (None, t)
          else (Some (InSet node),
                t\<lparr>thSet := set_entry node
                    (e\<lparr>mAction := (if mAction e = taaCACHED then taaMODIFY else mAction e), entrySeq := mSeq (thSet t)\<rparr>) (thSet t)\<rparr>)
      | None \<Rightarrow>
          (case map_of (newMods t) node of
             Some _ \<Rightarrow> (Some (InMods node), t)
           | None \<Rightarrow>
               (case getSLE (mLedger (thSet t)) node of
                  None \<Rightarrow> (None, t)
                | Some x \<Rightarrow> (Some (InMods node), t\<lparr>newMods := smap_insert node x (newMods t)\<rparr>))))"

definition mod_get :: "mod_ref \<Rightarrow> thread_state \<Rightarrow> sle option" where
  "mod_get r t =
     (case r of InSet k \<Rightarrow> map_option mEntry (map_of (mEntries (thSet t)) k) | InMods k \<Rightarrow> map_of (newMods t) k)"

definition mod_put :: "mod_ref \<Rightarrow> sle \<Rightarrow> thread_state \<Rightarrow> thread_state" where
  "mod_put r x t =
     (case r of
        InSet k \<Rightarrow> (case map_of (mEntries (thSet t)) k of
                     None \<Rightarrow> t | Some e \<Rightarrow> t\<lparr>thSet := set_entry k (e\<lparr>mEntry := x\<rparr>) (thSet t)\<rparr>)
      | InMods k \<Rightarrow> t\<lparr>newMods := smap_insert k x (newMods t)\<rparr>)"

definition meta_thread :: "u256 \<Rightarrow> thread_state \<Rightarrow> bool \<times> thread_state" where
  "meta_thread k t =
     (if k \<in> set (metaThreaded t) then (False, t) else (True, t\<lparr>metaThreaded := k # metaThreaded t\<rparr>))"

definition threadTx :: "mod_ref \<Rightarrow> thread_state \<Rightarrow> (bool \<times> thread_state) result" where
  "threadTx r t =
     (case mod_get r t of
        None \<Rightarrow> Inl NullPointer
      | Some e \<Rightarrow>
          bindE (thread_sle (setTxID (thSet t)) (setLgrSeq (thSet t)) e) (\<lambda>p.
            case p of
              None \<Rightarrow> Inr (False, t)
            | Some (prevTxID, e') \<Rightarrow>
                let t = mod_put r e' t in Inr (if prevTxID = 0 then (True, t) else meta_thread (sleIndex e) t)))"

definition threadTx_account :: "app \<Rightarrow> Account \<Rightarrow> thread_state \<Rightarrow> (bool \<times> thread_state) result" where
  "threadTx_account A threadTo t =
     (case getForMod (getAccountRootIndex (app_sha512 A) threadTo) t of
        (None, t) \<Rightarrow> Inr (False, t)
      | (Some r, t) \<Rightarrow> threadTx r t)"

definition threadOwners :: "app \<Rightarrow> sle \<Rightarrow> thread_state \<Rightarrow> (bool \<times> thread_state) result" where
  "threadOwners A node t =
     (if hasOneOwner node then bindE (getOwner node) (\<lambda>a. threadTx_account A a t)
      else if hasTwoOwners node then
        bindE (getFirstOwner node) (\<lambda>a.
        bindE (threadTx_account A a t) (\<lambda>(ok, t).
          if ok then bindE (getSecondOwner node) (\<lambda>b. threadTx_account A b t) else Inr (False, t)))
      else Inr (False, t))"

text \<open>What is done for the entry at one key, and for all of them in the order of the set.\<close>

definition thread_entry :: "app \<Rightarrow> u256 \<Rightarrow> thread_state \<Rightarrow> thread_state result" where
  "thread_entry A k t =
     (case map_of (mEntries (thSet t)) k of
        None \<Rightarrow> Inr t
      | Some e \<Rightarrow>
          (case mAction e of
             taaMODIFY \<Rightarrow>
               (case getSLEi (mLedger (thSet t)) k of
                  None \<Rightarrow> Inl NullPointer
                | Some origNode \<Rightarrow>
                    if entry_equal (mEntry e) origNode \<or> \<not> isThreadedType (mEntry e) then Inr t
                    else bindE (threadTx (InSet k) t) (\<lambda>(_, t). Inr t))
           | taaDELETE \<Rightarrow>
               (case getSLEi (mLedger (thSet t)) k of
                  None \<Rightarrow> Inl NullPointer
                | Some origNode \<Rightarrow> bindE (threadOwners A origNode t) (\<lambda>(_, t). Inr t))
           | taaCREATE \<Rightarrow>
               bindE (threadOwners A (mEntry e) t) (\<lambda>(_, t).
                 if isThreadedType (mEntry e) then bindE (threadTx (InSet k) t) (\<lambda>(_, t). Inr t) else Inr t)
           | _ \<Rightarrow> Inr t))"

fun thread_entries :: "app \<Rightarrow> u256 list \<Rightarrow> thread_state \<Rightarrow> thread_state result" where
  "thread_entries A [] t = Inr t"
| "thread_entries A (k # ks) t = bindE (thread_entry A k t) (thread_entries A ks)"

fun modify_all :: "sle list \<Rightarrow> unit lesM" where
  "modify_all [] = retM ()"
| "modify_all (x # xs) = bindM (entryModify_sle x) (\<lambda>_. modify_all xs)"

definition calcRawMeta :: "app \<Rightarrow> unit lesM" where
  "calcRawMeta A = (\<lambda>s.
     bindE (thread_entries A (map fst (mEntries s)) \<lparr>thSet = s, newMods = [], metaThreaded = []\<rparr>) (\<lambda>t.
       modify_all (map snd (newMods t)) (thSet t)))"

end
