(* ===== verification/Engine.thy ===== *)
theory Engine
  imports Payments Threading
begin

text \<open>
  The transaction engine of \<open>transaction/tx/TransactionEngine.cpp\<close>: it runs a transaction on a fresh
  entry set, claims only the fee when the transaction fails with a \<open>tec\<close> code, threads and writes
  back the set, and records the transaction in the ledger.

  The engine's ledger is one object with the ledger of its entry set. An exception is returned
  together with the engine it leaves behind: before the write-back that is the engine as it was (but
  for the ledger's fee cache), after it the ledger has been written.
\<close>

unbundle bit_operations_syntax

record engine =
  eLedger :: ledger
  mNodes :: les
  mTxnSeq :: int

definition TransactionEngine :: "ledger \<Rightarrow> engine" where
  "TransactionEngine l = \<lparr>eLedger = l, mNodes = LedgerEntrySet l tapNONE False, mTxnSeq = 0\<rparr>"

definition addTransaction_meta :: "u256 \<Rightarrow> blob \<Rightarrow> blob \<Rightarrow> ledger \<Rightarrow> (bool \<times> ledger) result" where
  "addTransaction_meta txID txn md l =
     bindE (addVL txn \<lparr>mData = []\<rparr>) (\<lambda>(_, s). bindE (addVL md s) (\<lambda>(_, s). Inr (addTransaction txID (mData s) l)))"

text \<open>Reprocessing a transaction to claim its fee only; the fee is taken from the source and not credited.\<close>

definition claim_fee :: "txenv \<Rightarrow> sttx \<Rightarrow> u32 \<Rightarrow> TER \<Rightarrow> (TER \<times> bool) lesM" where
  "claim_fee E txn params terResult =
     bindM (liftM (getSourceAccountID txn)) (\<lambda>acc.
     bindM (entryCache (getAccountRootIndex (sha E) acc)) (\<lambda>txnAcct.
       if txnAcct = None then retM (terNO_ACCOUNT, False)
       else
         bindM (liftM (tx_getSequence txn)) (\<lambda>t_seq.
         bindM (fieldM (getFieldU32 sfSequence) txnAcct) (\<lambda>a_seq.
           if a_seq < t_seq then retM (terPRE_SEQ, False)
           else if a_seq > t_seq then retM (tefPAST_SEQ, False)
           else
             bindM (liftM (getTransactionFee txn)) (\<lambda>fee.
             bindM (fieldM (getFieldAmount sfBalance) txnAcct) (\<lambda>balance.
             bindM (if is_zero balance then retM True
                    else if params AND tapOPEN_LEDGER \<noteq> 0 then liftM (amount_less balance fee) else retM False) (\<lambda>unfunded.
               if unfunded then retM (terINSUF_FEE_B, False)
               else
                 bindM (liftM (amount_greater fee balance)) (\<lambda>more.
                 bindM (liftM (amount_sub balance (if more then balance else fee))) (\<lambda>bal.
                 bindM (updateM (setFieldAmount sfBalance bal) txnAcct) (\<lambda>_.
                 bindM (updateM (setFieldU32 sfSequence (t_seq + 1)) txnAcct) (\<lambda>_.
                 bindM (entryModify txnAcct) (\<lambda>_.
                   retM (terResult, True)))))))))))))"

text \<open>What happens until it is known whether the transaction applies.\<close>

definition process :: "txenv \<Rightarrow> sttx \<Rightarrow> u32 \<Rightarrow> (TER \<times> bool \<times> app_effect list) lesM" where
  "process E txn params =
     bindM (transact E txn params) (\<lambda>(ter, effects).
       if ter = temUNKNOWN then retM (temUNKNOWN, False, effects)
       else if isTecClaim ter \<and> params AND tapRETRY = 0 then
         bindM (\<lambda>s. Inr ((), les_clear s)) (\<lambda>_.
         bindM (claim_fee E txn params ter) (\<lambda>(ter, didApply). retM (ter, didApply, effects)))
       else retM (ter, isTesSuccess ter, effects))"

text \<open>Recording the transaction in the written ledger.\<close>

definition record_tx :: "txenv \<Rightarrow> sttx \<Rightarrow> u32 \<Rightarrow> blob \<Rightarrow> ledger \<Rightarrow> ledger result" where
  "record_tx E txn params meta l =
     (if params AND tapOPEN_LEDGER \<noteq> 0 then
        case addTransaction (getTransactionID E txn) (serializeTx E txn) l of
          (True, l) \<Rightarrow> Inr l
        | (False, _) \<Rightarrow> Inl (RuntimeError ''Duplicate transaction applied'')
      else
        bindE (addTransaction_meta (getTransactionID E txn) (serializeTx E txn) meta l) (\<lambda>(ok, l).
          if ok then Inr l else Inl (RuntimeError ''Duplicate transaction applied to closed ledger'')))"

type_synonym engine_result = "(TER \<times> bool \<times> app_effect list) result \<times> engine"

text \<open>The metadata takes the next number before it is computed. The entry set an exception leaves behind is that of before
  the call: the next call starts by clearing it.\<close>

definition commit :: "txenv \<Rightarrow> sttx \<Rightarrow> u32 \<Rightarrow> TER \<Rightarrow> app_effect list \<Rightarrow> les \<Rightarrow> engine \<Rightarrow> engine_result" where
  "commit E txn params ter effects s g =
     (case calcRawMeta (env_app E) s of
        Inl er \<Rightarrow> (Inl er, g\<lparr>mTxnSeq := mTxnSeq g + 1\<rparr>)
      | Inr (_, s) \<Rightarrow>
          let meta = rawMeta E s ter (mTxnSeq g); s = txnWrite s
          in
            case record_tx E txn params meta (mLedger s) of
              Inl er \<Rightarrow> (Inl er, \<lparr>eLedger = mLedger s, mNodes = s, mTxnSeq = mTxnSeq g + 1\<rparr>)
            | Inr l \<Rightarrow>
                (Inr (ter, True, effects),
                 \<lparr>eLedger = l, mNodes = les_clear (s\<lparr>mLedger := l\<rparr>), mTxnSeq = mTxnSeq g + 1\<rparr>))"

definition applyTransaction :: "txenv \<Rightarrow> sttx \<Rightarrow> u32 \<Rightarrow> engine \<Rightarrow> engine_result" where
  "applyTransaction E txn params g =
     (let txID = getTransactionID E txn
      in
        if txID = 0 then (Inr (temINVALID_FLAG, False, []), g)
        else
          case process E txn params (les_init (eLedger g) txID (mLedgerSeq (eLedger g)) params (mNodes g)) of
            Inl er \<Rightarrow> (Inl er, g)
          | Inr ((ter, didApply, effects), s) \<Rightarrow>
              if didApply then commit E txn params ter effects s g
              else (Inr (ter, False, effects),
                    g\<lparr>eLedger := mLedger s, mNodes := (if ter = temUNKNOWN then s else les_clear s)\<rparr>))"

end
