(* ===== verification/Evaluation.thy ===== *)
theory Evaluation
  imports Engine CreditLaws
begin

text \<open>
  Running whole transactions with the simplifier. The equations below make it evaluate an
  operation step by step, in the order of the program: the congruence rules \<open>lazy_cong\<close> keep it from
  rewriting what follows a call before the call has returned. An example environment and
  transactions in it are run with them.
\<close>

definition example_env :: txenv where
  "example_env =
     \<lparr>env_app = example_app, closedLedger = empty_ledger, feeTrack = LoadFeeTrackImp, SMNG_ACCOUNTID = 3,
      accountOfKey = (\<lambda>key. word_of_nat (length key)), verifySig = (\<lambda>key tx sig strict. sig = key),
      getTransactionID = (\<lambda>tx. 77), serializeTx = (\<lambda>tx. [1]), rawMeta = (\<lambda>s ter n. [2]), isSupported = (\<lambda>_. False),
      skywellCalculate = (\<lambda>_ _ _ _ _ _. retM \<lparr>calc_result = tecPATH_DRY, actualAmountOut = STAmount_u64 0 False\<rparr>)\<rparr>"

text \<open>The pseudo transaction that sets the fees.\<close>

definition example_fee_tx :: sttx where
  "example_fee_tx =
     \<lparr>txType = ttFEE,
      txFields = [sfAccount \<mapsto> STAccount (Some 0), sfFee \<mapsto> STAmount (STAmount_u64 0 False), sfBaseFee \<mapsto> STUInt64 10,
        sfReferenceFeeUnits \<mapsto> STUInt32 10, sfReserveBase \<mapsto> STUInt32 20, sfReserveIncrement \<mapsto> STUInt32 5],
      sigState = None\<rparr>"

subsection \<open>Lazy evaluation\<close>

lemma lazy_eqs:
  "bindM m f s = bindE (m s) (\<lambda>(x, s'). f x s')"
  "liftM r s = bindE r (\<lambda>x. Inr (x, s))"
  "whenM b u s = (if b then u s else Inr ((), s))"
  "thenT c k s = bindE (c s) (\<lambda>((ter, t), s'). if ter = tesSUCCESS then k t s' else Inr ((ter, t), s'))"
  "doneT t d s = bindE (d s) (\<lambda>(ter, s'). Inr ((ter, t), s'))"
  "retM x s = Inr (x, s)"
  "getsM g s = Inr (g s, s)"
  "ledgerM h s = bindE (h (mLedger s)) (\<lambda>(x, l). Inr (x, s\<lparr>mLedger := l\<rparr>))"
  "updateM upd (Some i) s =
     (case map_of (mEntries s) i of
        None \<Rightarrow> Inl Dangling
      | Some e \<Rightarrow> bindE (upd (mEntry e)) (\<lambda>y. Inr ((), s\<lparr>mEntries := smap_insert i (e\<lparr>mEntry := y\<rparr>) (mEntries s)\<rparr>)))"
  by (auto simp: bindM_def bindE_def liftM_def whenM_def thenT_def doneT_def retM_def getsM_def ledgerM_def updateM_def
      split: sum.splits option.splits)

lemma lazy_cong:
  "bindM m f s = bindM m f s" "thenT c k s = thenT c k s" "doneT t d s = doneT t d s" "whenM b u s = whenM b u s"
  "r = r' \<Longrightarrow> bindE r h = bindE r' h"
  by simp_all

lemmas set_eval = lazy_eqs entryCache_def getEntry_def getSLEi_def getSLE_def entryCreate_def entryCreate_sle_def set_entry_def
  entryModify_def entryModify_sle_def deref_def fieldM_def find_or_create_def
  entryCache_sle_def Let_def

lemmas apply_eval = run_ops_def new_transactor_def apply_ops_def find_accounts_def calculateFee_def calculateBaseFee_def
  read_source_def ensure_fee_account_def mark_accounts_def hasParam_def

lemmas engine_eval = applyTransaction_def process_def transact_def batch_depth_def simple_ops_def les_init_def commit_def
  record_tx_def addTransaction_meta_def addTransaction_def txnWrite_def write_entry_def writeBack_def TransactionEngine_def
  LedgerEntrySet_def isTesSuccess_def isTecClaim_def addVL_def addEncoded_def addRaw_def push_bytes_def

lemmas thread_eval = calcRawMeta_def thread_entry_def threadOwners_def threadTx_def mod_get_def mod_put_def meta_thread_def
  thread_sle_def isThreadedType_def hasOneOwner_def hasTwoOwners_def getForMod_def threadTx_account_def

lemmas tx_eval = getSourceAccountID_def txAccount160_def tx_getFieldBy_def tx_hasField_def tx_findByType_def tx_addCommonFields_def
  asAccount_def getTransactionFee_def txAmount_def asAmount_def tx_getSequence_def txU32_def asU32_def txU64_def asU64_def
  getSigningPubKey_def txVL_def asBlob_def tx_getSignature_def tx_isFieldPresent_def sfields

subsection \<open>Entries\<close>

lemma STLedgerEntry_new: "findByType t \<noteq> None \<Longrightarrow> STLedgerEntry t i = Inr (new_entry t i)"
  using STLedgerEntry_spec by (auto simp: new_entry_def)

lemma known_types: "findByType ltACCOUNT_ROOT \<noteq> None" "findByType ltFEE_SETTINGS \<noteq> None"
  by (simp_all add: findByType_def)

lemmas entry_eval = known_types [THEN STLedgerEntry_new] known_types [THEN new_entry_ok(1)] known_types [THEN new_entry_ok(2)]
  known_types [THEN new_entry_ok(3)] set_put entry_ok_put hasField_account

lemma fee_settings_fields:
  assumes "sleType e = ltFEE_SETTINGS"
  shows "hasField sfBaseFee e" "hasField sfReferenceFeeUnits e" "hasField sfReserveBase e" "hasField sfReserveIncrement e"
    "\<not> hasField sfPreviousTxnID e" "\<not> hasField sfAccount e"
  using assms by (simp_all add: template_defs)

lemma thread_fields:
  assumes "sleType e = ltACCOUNT_ROOT"
  shows "hasField sfPreviousTxnID e" "hasField sfPreviousTxnLgrSeq e"
  using assms by (simp_all add: template_defs)

lemma more_field_types:
  "fieldType sfBaseFee = STI_UINT64" "fieldType sfReferenceFeeUnits = STI_UINT32" "fieldType sfReserveBase = STI_UINT32"
  "fieldType sfReserveIncrement = STI_UINT32" "fieldType sfPreviousTxnID = STI_HASH256" "fieldType sfPreviousTxnLgrSeq = STI_UINT32"
  by (simp_all add: sfields)

subsection \<open>The example\<close>

lemma example_env_simps [simp]:
  "env_app example_env = example_app" "sha example_env = app_sha512 example_app" "closedLedger example_env = empty_ledger"
  "feeTrack example_env = LoadFeeTrackImp" "SMNG_ACCOUNTID example_env = 3" "getTransactionID example_env tx = 77"
  "serializeTx example_env tx = [1]" "rawMeta example_env s ter n = [2]"
  by (simp_all add: example_env_def sha_def)

lemma example_scale:
  assumes "mBaseFee l = 10" "mReferenceFeeUnits l = 10"
  shows "Ledger_scaleFeeLoad example_app LoadFeeTrackImp (ucast (TRANSACTION_FEE_BASE example_app)) b l = Inr (10, l)"
  using assms scale_small_fee [of 10 10 10 LoadFeeTrackImp b]
  by (simp add: Ledger_scaleFeeLoad_def updateFees_def fee_factor_def LoadFeeTrackImp_def lftNormalFee_def example_app_def)

lemma example_fee_tx_simps:
  "txType example_fee_tx = ttFEE" "getSourceAccountID example_fee_tx = Inr 0"
  "getTransactionFee example_fee_tx = Inr (STAmount_u64 0 False)" "txAccount160 sfAccount example_fee_tx = Inr 0"
  "tx_getSequence example_fee_tx = Inr 0" "getSigningPubKey example_fee_tx = Inr []" "tx_getSignature example_fee_tx = []"
  "txU64 sfBaseFee example_fee_tx = Inr 10" "txU32 sfReferenceFeeUnits example_fee_tx = Inr 10"
  "txU32 sfReserveBase example_fee_tx = Inr 20" "txU32 sfReserveIncrement example_fee_tx = Inr 5"
  "tx_isFieldPresent sfPreviousTxnID example_fee_tx = False"
  by (simp_all add: example_fee_tx_def tx_eval)

lemma example_fee_keys:
  fixes k f defines "k \<equiv> getAccountRootIndex (app_sha512 example_app) 0" and "f \<equiv> getLedgerFeeIndex (app_sha512 example_app)"
  shows "k \<noteq> 0" "f \<noteq> 0" "k \<noteq> f" "f \<noteq> k" "k < f" "\<not> f < k"
  by (simp_all add: k_def f_def key_eval getLedgerFeeIndex_def spaceFee_def)

lemmas change_eval = Change_ops_def base_ops_def Change_preCheck_def Change_checkSeq_def Change_checkSig_def Change_payFee_def
  Change_doApply_def applyFee_def

lemma amount_neq_self: "\<not> amount_neq (STAmount_u64 0 False) (STAmount_u64 0 False)"
  by (simp add: amount_neq_def isComparable_def STAmount_u64_def)

lemma getFieldH256_put: "f \<noteq> g \<Longrightarrow> getFieldH256 f (put g v e) = getFieldH256 f e"
  by (simp add: getFieldH256_def getFieldBy_def hasField_def put_def)

lemma new_root_previous: "getFieldH256 sfPreviousTxnID (new_entry ltACCOUNT_ROOT i) = Inr 0"
  by (simp add: new_entry_def STLedgerEntry_def findByType_def setFieldU16_def setField_def hasField_def addCommonFields_def
      set_template_def getFieldH256_def getFieldBy_def sfields)

lemma previous_distinct: "sfPreviousTxnID \<noteq> sfSequence" "sfPreviousTxnID \<noteq> sfAccount" "sfPreviousTxnID \<noteq> sfBalance"
  by (simp_all add: sfields)

lemma example_fee_applied:
  "\<exists>g. applyTransaction example_env example_fee_tx tapNONE (TransactionEngine empty_ledger) = (Inr (tesSUCCESS, True, []), g)"
  by (simp add: engine_eval apply_eval set_eval change_eval example_fee_tx_simps example_scale example_fee_keys
      empty_ledger_def entry_eval fee_settings_fields thread_fields more_field_types amount_neq_self tapNONE_def tapPRE_CHECKED_def ters
      thread_eval getFieldH256_put new_root_previous previous_distinct get_val(1)
      cong: lazy_cong)

text \<open>In an open ledger it is refused.\<close>

lemma example_fee_refused:
  "\<exists>g'. applyTransaction example_env example_fee_tx tapOPEN_LEDGER g = (Inr (temINVALID, False, []), g')"
  by (simp add: engine_eval apply_eval set_eval change_eval example_fee_tx_simps tapOPEN_LEDGER_def ters cong: lazy_cong)

end
