(* ===== verification/FeeLaws.thy ===== *)
theory FeeLaws
  imports Evaluation EntrySafety
begin

text \<open>
  What happens to the fee of a transaction: \<open>payFee\<close> moves it to the fee account, while the engine's
  claim of the fee of a failed transaction only takes it from the source.
\<close>

unbundle bit_operations_syntax

definition example_fee_paying_tx :: sttx where
  "example_fee_paying_tx =
     \<lparr>txType = ttPAYMENT,
      txFields = [sfAccount \<mapsto> STAccount (Some 11), sfFee \<mapsto> STAmount (STAmount_u64 10 False)], sigState = None\<rparr>"

text \<open>A transactor whose accounts have been looked up, as \<open>apply\<close> has it when it calls \<open>payFee\<close>.\<close>

definition pays_from :: "transactor \<Rightarrow> les \<Rightarrow> u256 \<Rightarrow> u256 \<Rightarrow> sle \<Rightarrow> sle \<Rightarrow> bool" where
  "pays_from t s i j e f \<longleftrightarrow> les_typed s \<and> i \<in> loaded s \<and> j \<in> loaded s \<and> i \<noteq> j \<and>
     native_root (view s) i e \<and> native_root (view s) j f \<and>
     mTxnAccount t = Some i \<and> mFeeAccount t = Some j \<and> mSourceBalance t = valAmount sfBalance e \<and>
     canonical (mFeeDue t) \<and> mIsNative (mFeeDue t)"

text \<open>The code of a fee: what is due in an open ledger, what the source has, and what it offers.\<close>

definition fee_code :: "bool \<Rightarrow> real \<Rightarrow> real \<Rightarrow> real \<Rightarrow> TER" where
  "fee_code open_ledger due has_balance offered =
     (if open_ledger \<and> offered < due then telINSUF_FEE_P
      else if offered < 0 then temBAD_FEE
      else if offered = 0 \<or> offered \<le> has_balance then tesSUCCESS
      else if has_balance > 0 \<and> \<not> open_ledger then tecINSUFF_FEE
      else terINSUF_FEE_B)"

definition example_payer :: transactor where
  "example_payer =
     (new_transactor example_fee_paying_tx tapNONE)
       \<lparr>mTxnAccountID := 11, mFeeAccountID := 1, mSourceBalance := STAmount_u64 100 False, mFeeDue := STAmount_u64 10 False\<rparr>"

subsection \<open>Native amounts\<close>

lemma native_greater:
  assumes "canonical a" "mIsNative a" "canonical b" "mIsNative b"
  shows "amount_greater a b = Inr (amount_value a > amount_value b)"
proof -
  have c: "isComparable a b" using assms canonical_nativeD(1) by (auto simp: isComparable_def isSWT_amount_def)
  show ?thesis using compare_amount_value [OF assms(1,3) c] c by (simp add: amount_greater_def throwComparable_def)
qed

lemma native_total_other:
  assumes "V k = Some e" "f \<noteq> sfBalance"
  shows "native_total (V(k \<mapsto> put f v e)) = native_total V"
proof -
  have r: "account_roots (V(k \<mapsto> put f v e)) = account_roots V" using assms by (auto simp: account_roots_def)
  have "valAmount sfBalance (put f v e) = valAmount sfBalance e" using assms(2) by (simp add: valAmount_def put_def)
  then show ?thesis unfolding native_total_def r by (intro sum.cong) (use assms(1) in auto)
qed

lemma amount_sign: "signum x < 0 \<longleftrightarrow> amount_value x < 0" "signum x > 0 \<longleftrightarrow> amount_value x > 0" "is_zero x \<longleftrightarrow> amount_value x = 0"
proof -
  have "mValue x \<noteq> 0 \<Longrightarrow> magnitude x > 0" by (metis magnitude_nonneg magnitude_zero_iff order_less_le)
  then show "signum x < 0 \<longleftrightarrow> amount_value x < 0" "signum x > 0 \<longleftrightarrow> amount_value x > 0" "is_zero x \<longleftrightarrow> amount_value x = 0"
    by (auto simp: signum_def is_zero_def amount_value_def not_less intro: order.asym eq_refl)
qed

subsection \<open>Claiming the fee of a failed transaction\<close>

text \<open>C11: Claiming the fee of a failed transaction. If the sequence of the transaction is the account's and
  the account has a positive balance, which covers the fee if the ledger is open, the engine takes
  the fee from it, or the whole balance if that is less, and consumes the sequence. No other
  entry changes: unlike a fee paid by a successful transaction, the amount is credited to no
  account, so the native currency of the ledger falls by it.
\<close>

theorem claim_fee_burns_fee:
  fixes E :: txenv and acc :: Account
  defines "i \<equiv> getAccountRootIndex (sha E) acc"
  assumes "les_ok s" "getSourceAccountID txn = Inr acc" "native_root (view s) i e"
    and "tx_getSequence txn = Inr n" "valU32 sfSequence e = n" "getTransactionFee txn = Inr fee" "canonical fee" "mIsNative fee"
    and "amount_value (valAmount sfBalance e) > 0"
    and "params AND tapOPEN_LEDGER \<noteq> 0 \<Longrightarrow> amount_value fee \<le> amount_value (valAmount sfBalance e)"
  shows "\<exists>s' a. claim_fee E txn params ter s = Inr ((ter, True), s') \<and> les_ok s' \<and>
    view s' = (view s)(i \<mapsto> put sfSequence (STUInt32 (n + 1)) (put sfBalance (STAmount a) e)) \<and>
    amount_value a = amount_value (valAmount sfBalance e) - min (amount_value fee) (amount_value (valAmount sfBalance e)) \<and>
    native_total (view s') = native_total (view s) - min (amount_value fee) (amount_value (valAmount sfBalance e))"
proof -
  let ?b = "valAmount sfBalance e"
  note E = assms(4) [unfolded native_root_def]
  have ok: "entry_ok e" using E view_entry(3) [of s] assms(2) by (auto simp: les_ok_def)
  have get: "getFieldAmount sfBalance e = Inr ?b" "getFieldU32 sfSequence e = Inr n"
    using E ok assms(6) by (auto intro!: get_val hasField_account)
  define take where "take = (if amount_value fee > amount_value ?b then ?b else fee)"
  have tv: "canonical take" "mIsNative take" "amount_value take = min (amount_value fee) (amount_value ?b)"
    using E assms(8,9) by (auto simp: take_def)
  obtain a where a: "amount_sub ?b take = Inr a" "amount_value a = amount_value ?b - amount_value take"
    using native_sub [of ?b take] E tv by auto
  have less: "amount_less ?b fee = Inr (amount_value ?b < amount_value fee)" and gr: "amount_greater fee ?b = Inr (amount_value fee > amount_value ?b)"
    using native_less native_greater E assms(8,9) by blast+
  have nz: "\<not> is_zero ?b" using assms(10) by (auto simp: is_zero_def signum_def amount_value_def magnitude_def split: if_splits)
  then have open_ok: "runs (if mValue ?b = 0 then retM True else if params AND tapOPEN_LEDGER \<noteq> 0 then liftM (amount_less ?b fee) else retM False) s0 Q =
      Q False s0" for s0 Q
    using assms(11) less by (auto simp: runs_def retM_def liftM_def)
  have "runs (claim_fee E txn params ter) s (\<lambda>x s'. x = (ter, True) \<and> les_ok s' \<and>
      view s' = (view s)(i \<mapsto> put sfSequence (STUInt32 (n + 1)) (put sfBalance (STAmount a) e)))"
    unfolding claim_fee_def runs_bind
    apply (simp add: assms(3) split del: if_split)
    apply (rule runs_cache, rule assms(2) [unfolded les_ok_st])
    subgoal premises st for s1
    proof -
      have st1: "st s1 (view s) {i} {} {} (rest s)" using st E by (simp add: i_def)
      show ?thesis
        unfolding i_def [symmetric] using E
        apply (simp add: assms(5) runs_bind split del: if_split)
        apply (rule runs_field, rule st1, simp, simp, rule get(2))
        apply (simp add: assms(7) runs_bind split del: if_split)
        apply (rule runs_field, rule st1, simp, simp, rule get(1))
        apply (simp add: open_ok gr runs_bind take_def [symmetric] a setFieldAmount_def setFieldU32_def split del: if_split)
        apply (rule runs_put, rule st1, simp, simp, rule hasField_account, simp, simp)
        apply (rule runs_put, assumption, simp, simp, rule hasField_account, simp, simp)
        apply (rule runs_modify, assumption, simp)
        apply (auto dest!: st_les_ok)
        done
    qed
    done
  then obtain s' where s': "claim_fee E txn params ter s = Inr ((ter, True), s')" "les_ok s'"
    "view s' = (view s)(i \<mapsto> put sfSequence (STUInt32 (n + 1)) (put sfBalance (STAmount a) e))"
    by (auto elim!: runsE)
  have "sfSequence \<noteq> sfBalance" by (simp add: sfields)
  then have "native_total (view s') = native_total (view s) - amount_value take"
    using native_total_put(1) [OF assms(4), of a] native_total_other [of "(view s)(i \<mapsto> put sfBalance (STAmount a) e)" i] a
    unfolding s'(3) by simp
  then show ?thesis using s' a(2) tv(3) by auto
qed

lemma example_fee_paying_tx_simps:
  "getSourceAccountID example_fee_paying_tx = Inr 11" "tx_getSequence example_fee_paying_tx = Inr 0"
  "getTransactionFee example_fee_paying_tx = Inr (STAmount_u64 10 False)"
  by (simp_all add: example_fee_paying_tx_def tx_eval)

lemma example_native: "canonical (STAmount_u64 10 False)" "mIsNative (STAmount_u64 n False)" "canonical (STAmount_u64 100 False)"
  "amount_value (STAmount_u64 10 False) = 10" "amount_value (STAmount_u64 100 False) = 100"
  by (simp_all add: canonical_def STAmount_u64_def isSWT_amount_def default_issue_def isSWT_def cMaxNativeN_def amount_value_def magnitude_def)

lemma example_root_native: "V k = Some (example_root acc 100) \<Longrightarrow> native_root V k (example_root acc 100)"
  by (simp add: native_root_def example_root_simps example_native)

lemma example_root_sequence: "valU32 sfSequence (example_root acc n) = 0"
  by (simp add: example_root_def valU32_def put_def new_entry_def STLedgerEntry_def findByType_def setFieldU16_def setField_def
      hasField_def addCommonFields_def set_template_def sfields)

theorem claim_fee_burns_fee_witness:
  "\<exists>s'. claim_fee example_env example_fee_paying_tx tapNONE tecCLAIM (set_with [example_root 11 100]) = Inr ((tecCLAIM, True), s') \<and>
     native_total (view s') = native_total (view (set_with [example_root 11 100])) - 10"
proof -
  let ?s = "set_with [example_root 11 100]" and ?i = "getAccountRootIndex (app_sha512 example_app) 11"
  have "?i \<noteq> 0" by (simp add: key_eval)
  then have s: "les_ok ?s" "view ?s ?i = Some (example_root 11 100)"
    using set_with_ok [of "[example_root 11 100]"] by (auto simp: example_root_simps)
  have b: "amount_value (valAmount sfBalance (example_root 11 100)) = 100" by (simp add: example_root_simps example_native)
  have r: "native_root (view ?s) (getAccountRootIndex (sha example_env) 11) (example_root 11 100)"
    using example_root_native [where V = "view ?s", OF s(2)] by simp
  show ?thesis
    using claim_fee_burns_fee [OF s(1) example_fee_paying_tx_simps(1) r example_fee_paying_tx_simps(2) example_root_sequence
        example_fee_paying_tx_simps(3) example_native(1,2), of tapNONE tecCLAIM] b
    by (auto simp: example_native tapNONE_def)
qed

subsection \<open>Paying the fee\<close>

text \<open>C3: Paying the fee. For a source and a fee account that differ, \<open>payFee\<close> returns, and if it
  succeeds, exactly the fee has moved from the source to the fee account, the balance the
  transactor remembers is the source's new one, and the native currency of the ledger is what it
  was. If the balance does not cover the fee, a closed ledger empties the account and reports that the
  fee is to be claimed; in every other case nothing changes. The code is exactly the one the amounts
  call for.
\<close>

theorem payFee_moves_fee:
  assumes "pays_from t s i j e f" "getTransactionFee (mTxn t) = Inr fee" "canonical fee" "mIsNative fee"
  shows "\<exists>ter t' s'. payFee E t s = Inr ((ter, t'), s') \<and> les_typed s' \<and>
    ter = fee_code (hasParam tapOPEN_LEDGER t) (amount_value (mFeeDue t)) (amount_value (valAmount sfBalance e)) (amount_value fee) \<and>
    (if ter = tesSUCCESS then
       native_total (view s') = native_total (view s) \<and>
       amount_value (mSourceBalance t') = amount_value (valAmount sfBalance e) - amount_value fee \<and>
       (if amount_value fee = 0 then view s' = view s
        else 0 < amount_value fee \<and> amount_value fee \<le> amount_value (valAmount sfBalance e) \<and>
          moved i j (amount_value fee) (view s) (view s'))
     else if ter = tecINSUFF_FEE then
       0 < amount_value (valAmount sfBalance e) \<and> amount_value (valAmount sfBalance e) < amount_value fee \<and>
       view s' = (view s)(i \<mapsto> put sfBalance (STAmount (clear (valAmount sfBalance e))) e)
     else view s' = view s)"
proof -
  let ?b = "valAmount sfBalance e" and ?c = "valAmount sfBalance f"
  note P = assms(1) [unfolded pays_from_def native_root_def]
  define Q :: "TER \<times> transactor \<Rightarrow> les \<Rightarrow> bool" where "Q = (\<lambda>(ter, t') s'. les_typed s' \<and>
    ter = fee_code (hasParam tapOPEN_LEDGER t) (amount_value (mFeeDue t)) (amount_value ?b) (amount_value fee) \<and>
    (if ter = tesSUCCESS then
       native_total (view s') = native_total (view s) \<and>
       amount_value (mSourceBalance t') = amount_value ?b - amount_value fee \<and>
       (if amount_value fee = 0 then view s' = view s
        else 0 < amount_value fee \<and> amount_value fee \<le> amount_value ?b \<and> moved i j (amount_value fee) (view s) (view s'))
     else if ter = tecINSUFF_FEE then
       0 < amount_value ?b \<and> amount_value ?b < amount_value fee \<and> view s' = (view s)(i \<mapsto> put sfBalance (STAmount (clear ?b)) e)
     else view s' = view s))"
  have st: "st s (view s) (loaded s) (marked s) (pending s) (rest s)" using P typed_st by blast
  have ok: "entry_ok e" "entry_ok f" using P view_entry(3) [of s] by auto
  have get: "getFieldAmount sfBalance f = Inr ?c" using P ok by (auto intro!: get_val hasField_account)
  obtain a where a: "amount_sub ?b fee = Inr a" "amount_value a = amount_value ?b - amount_value fee"
    using native_sub [of ?b fee] P assms(3,4) by auto
  obtain b where b: "amount_add ?c fee = Inr b" "amount_value b = amount_value ?c + amount_value fee"
    using native_add [of ?c fee] P assms(3,4) by auto
  have less: "amount_less ?b fee = Inr (amount_value ?b < amount_value fee)"
    "amount_less fee (mFeeDue t) = Inr (amount_value fee < amount_value (mFeeDue t))"
    using native_less P assms(3,4) by blast+
  have legal: "isLegalNet fee" using assms(3,4) by (auto simp: isLegalNet_def canonical_def split: if_splits)
  have low: "runs (if hasParam tapOPEN_LEDGER t then liftM (amount_less fee (mFeeDue t)) else retM False) s0 R =
      R (hasParam tapOPEN_LEDGER t \<and> amount_value fee < amount_value (mFeeDue t)) s0" for s0 R
    using less(2) by simp
  have keep: "ter = fee_code (hasParam tapOPEN_LEDGER t) (amount_value (mFeeDue t)) (amount_value ?b) (amount_value fee) \<Longrightarrow>
      ter \<noteq> tesSUCCESS \<Longrightarrow> ter \<noteq> tecINSUFF_FEE \<Longrightarrow> Q (ter, t) s" for ter using P by (simp add: Q_def)
  have "runs (payFee E t) s Q"
  proof (cases "hasParam tapOPEN_LEDGER t \<and> amount_value fee < amount_value (mFeeDue t) \<or> amount_value fee < 0")
    case True
    then show ?thesis using assms(4) P
      by (auto simp: payFee_def runs_bind assms(2) legal low amount_sign intro!: keep simp: fee_code_def ters)
  next
    case False
    then have nl: "\<not> (hasParam tapOPEN_LEDGER t \<and> amount_value fee < amount_value (mFeeDue t))" "\<not> amount_value fee < 0" by auto
    have fee0: "amount_value fee = 0 \<Longrightarrow> Q (tesSUCCESS, t) s"
      using P nl by (auto simp: Q_def fee_code_def simp del: amount_value_zero_iff)
    show ?thesis
    proof (cases "amount_value fee = 0")
      case True
      then have z: "mValue fee = 0" by simp
      show ?thesis using fee0 [OF True] by (simp add: payFee_def runs_bind assms(2,4) legal low nl amount_sign(1) z)
    next
      case nz: False
      have eqs: "mTxnAccount t = Some i" "mFeeAccount t = Some j" "mSourceBalance t = ?b" using P by simp_all
      have nz': "mValue fee \<noteq> 0" using nz by simp
      note start = payFee_def runs_bind assms(2,4) legal low nl amount_sign(1,2) nz' eqs less
      show ?thesis
      proof (cases "amount_value ?b < amount_value fee")
        case short: True
        show ?thesis
        proof (cases "amount_value ?b > 0 \<and> \<not> hasParam tapOPEN_LEDGER t")
          case True
          then show ?thesis using short P
            apply (simp add: start setFieldAmount_def Let_def split del: if_split)
            apply (rule runs_put, rule st, simp, simp, rule hasField_account, simp, simp)
            using nl nz apply (auto simp: Q_def fee_code_def st_def ters)
            done
        next
          case False
          then have "Q (terINSUF_FEE_B, t) s" using short nl nz by (intro keep) (auto simp: fee_code_def ters)
          then show ?thesis using False short by (auto simp: start Let_def)
        qed
      next
        case enough: False
        then show ?thesis using P
          apply (simp add: start setFieldAmount_def Let_def a(1) split del: if_split)
          apply (rule runs_put, rule st, simp, simp, rule hasField_account, simp, simp)
          apply (rule runs_field [where x = f], assumption, simp, force, rule get)
          apply (simp add: b(1) runs_bind)
          apply (rule runs_put [where x = f], assumption, simp, force, rule hasField_account, simp, simp)
          subgoal premises st' for s1 s2
          proof -
            have V: "view s2 = (view s)(i \<mapsto> put sfBalance (STAmount a) e, j \<mapsto> put sfBalance (STAmount b) f)" and ty: "les_typed s2"
              using st' by (auto simp: st_def)
            have mv: "moved i j (amount_value fee) (view s) (view s2)" unfolding moved_def V using P a(2) b(2) by blast
            have "native_total (view s2) = native_total (view s)"
              using moved_conserves [OF _ _ _ mv] assms(1) by (auto simp: pays_from_def)
            moreover have "0 < amount_value fee" using nl(2) nz by linarith
            ultimately show ?thesis using enough ty mv a(2) nl nz' by (auto simp: Q_def fee_code_def)
          qed
          done
      qed
    qed
  qed
  then obtain ter t' s' where "payFee E t s = Inr ((ter, t'), s')" "Q (ter, t') s'" by (auto elim!: runsE)
  then show ?thesis unfolding Q_def prod.case by blast
qed

theorem payFee_moves_fee_witness:
  "\<exists>t s t' s'. find_accounts example_env example_payer (set_with [example_root 11 100, example_root 1 100]) = Inr (t, s) \<and>
     payFee example_env t s = Inr ((tesSUCCESS, t'), s') \<and> amount_value (mSourceBalance t') = 90 \<and>
     native_total (view s') = native_total (view s)"
proof -
  let ?i = "getAccountRootIndex (app_sha512 example_app) 11" and ?j = "getAccountRootIndex (app_sha512 example_app) 1"
  let ?s = "set_with [example_root 11 100, example_root 1 100]"
  have ij: "?i \<noteq> ?j" "?i \<noteq> 0" "?j \<noteq> 0" by (simp_all add: key_eval)
  then have ok: "les_ok ?s" and v: "view ?s ?i = Some (example_root 11 100)" "view ?s ?j = Some (example_root 1 100)"
    using set_with_ok [of "[example_root 11 100, example_root 1 100]"] by (auto simp: example_root_simps)
  obtain s1 where s1: "entryCache ?i ?s = Inr (Some ?i, s1)" "st s1 (view ?s) {?i} {} {} (rest ?s)"
    using st_cache [OF ok [unfolded les_ok_st] v(1)] by metis
  obtain s2 where s2: "entryCache ?j s1 = Inr (Some ?j, s2)" "st s2 (view ?s) {?j, ?i} {} {} (rest ?s)"
    using st_cache [OF s1(2) v(2)] by metis
  let ?t = "example_payer\<lparr>mTxnAccount := Some ?i, mFeeAccount := Some ?j\<rparr>"
  have f: "find_accounts example_env example_payer ?s = Inr (?t, s2)"
    by (simp add: find_accounts_def bindM_def retM_def example_payer_def s1(1) s2(1))
  have V: "view s2 = view ?s" using s2(2) by (simp add: st_def)
  have "pays_from ?t s2 ?i ?j (example_root 11 100) (example_root 1 100)"
    using s2(2) v ij V by (auto simp: pays_from_def st_def example_payer_def example_root_simps example_native example_root_native)
  from payFee_moves_fee [OF this _ example_native(1,2), of example_env] show ?thesis
    using f by (auto simp: example_payer_def new_transactor_def example_fee_paying_tx_simps fee_code_def example_native
        example_root_simps hasParam_def tapNONE_def)
qed

end
