(* ===== verification/PaymentLaws.thy ===== *)
theory PaymentLaws
  imports FeeLaws
begin

text \<open>
  A direct payment in the native currency: if it fails nothing has moved, and if it succeeds exactly the amount has, from
  the balance that the transactor remembers of its source.
\<close>

definition balance_in :: "(u256 \<rightharpoonup> sle) \<Rightarrow> u256 \<Rightarrow> real" where
  "balance_in V k = (case V k of None \<Rightarrow> 0 | Some e \<Rightarrow> amount_value (valAmount sfBalance e))"

text \<open>
  The transactor of a direct native payment when \<open>doApply\<close> is called: the source account has been
  looked up, read and marked as modified, and the transaction asks for an amount of native
  currency to be paid to an account without paths or a maximum to send.
\<close>

definition native_payer :: "transactor \<Rightarrow> les \<Rightarrow> u256 \<Rightarrow> sle \<Rightarrow> stamount \<Rightarrow> Account \<Rightarrow> bool" where
  "native_payer t s i e amt dst \<longleftrightarrow>
     st s (view s) {i} {i} {} (rest s) \<and> mBaseFee (mLedger s) \<noteq> 0 \<and> native_root (view s) i e \<and>
     mTxnAccount t = Some i \<and> canonical (mSourceBalance t) \<and> mIsNative (mSourceBalance t) \<and> mIsNative (mPriorBalance t) \<and>
     txAccount160 sfDestination (mTxn t) = Inr dst \<and> txAmount sfAmount (mTxn t) = Inr amt \<and> canonical amt \<and> mIsNative amt \<and>
     \<not> tx_isFieldPresent sfPaths (mTxn t) \<and> \<not> tx_isFieldPresent sfSendMax (mTxn t) \<and>
     (\<exists>fee n. getTransactionFee (mTxn t) = Inr fee \<and> getNValue fee = Inr n)"

definition example_pay_tx :: sttx where
  "example_pay_tx =
     \<lparr>txType = ttPAYMENT,
      txFields = [sfAccount \<mapsto> STAccount (Some 11), sfDestination \<mapsto> STAccount (Some 12), sfAmount \<mapsto> STAmount (STAmount_u64 10 False),
        sfFee \<mapsto> STAmount (STAmount_u64 10 False)],
      sigState = None\<rparr>"

definition example_sender :: transactor where
  "example_sender =
     (new_transactor example_pay_tx tapNONE)
       \<lparr>mTxnAccountID := 11, mTxnAccount := Some (getAccountRootIndex (app_sha512 example_app) 11),
        mPriorBalance := STAmount_u64 100 False, mSourceBalance := STAmount_u64 100 False\<rparr>"

subsection \<open>The destination\<close>

lemma runs_reserve:
  assumes "mBaseFee (mLedger s) \<noteq> 0"
  shows "\<exists>r. \<forall>Q. runs (reserveM A n) s Q = Q r s"
  using assms by (simp add: runs_def reserveM_def getReserve_def updateFees_def) blast

lemma new_root_balance: "valAmount sfBalance (new_entry ltACCOUNT_ROOT i) = STAmount_u64 0 False"
  by (simp add: new_entry_def STLedgerEntry_def findByType_def setFieldU16_def setField_def hasField_def addCommonFields_def
      set_template_def valAmount_def STAmount_named_def STAmount_u64_def sfields)

lemma balance_other: "sfSequence \<noteq> sfBalance" "sfAccount \<noteq> sfBalance" "sfFlags \<noteq> sfBalance"
  by (simp_all add: sfields)

lemma native_zero: "canonical (STAmount_u64 0 False)" "amount_value (STAmount_u64 0 False) = 0"
  by (simp_all add: canonical_def STAmount_u64_def isSWT_amount_def isSWT_def default_issue_def amount_value_def magnitude_def)

lemma native_total_new:
  assumes "V j = None" "sleType f = ltACCOUNT_ROOT" "amount_value (valAmount sfBalance f) = 0"
  shows "native_total (V(j \<mapsto> f)) = native_total V"
proof -
  have "account_roots (V(j \<mapsto> f)) = insert j (account_roots V)" "j \<notin> account_roots V"
    using assms by (auto simp: account_roots_def)
  moreover have "(\<Sum>k\<in>account_roots V. amount_value (valAmount sfBalance (the ((V(j \<mapsto> f)) k)))) = native_total V"
    unfolding native_total_def using \<open>j \<notin> account_roots V\<close> by (intro sum.cong) auto
  ultimately show ?thesis using assms(3) unfolding native_total_def [of "V(j \<mapsto> f)"] by (simp del: amount_value_zero_iff)
qed

lemma native_total_same:
  assumes "V k = Some e" "sleType e = ltACCOUNT_ROOT" "sleType g = ltACCOUNT_ROOT" "valAmount sfBalance g = valAmount sfBalance e"
  shows "native_total (V(k \<mapsto> g)) = native_total V"
proof -
  have r: "account_roots (V(k \<mapsto> g)) = account_roots V" using assms by (auto simp: account_roots_def)
  show ?thesis unfolding native_total_def r by (intro sum.cong) (use assms in auto)
qed

lemma runs_destination:
  fixes E :: txenv and dst :: Account
  defines "j \<equiv> getAccountRootIndex (sha E) dst"
  assumes st: "st s V {i} {i} {} R" and base: "mBaseFee (mLedger s) \<noteq> 0" and ij: "i \<noteq> j" "j \<noteq> 0" and amt: "mIsNative amt"
    and dst: "\<And>f. V j = Some f \<Longrightarrow> native_root V j f"
  shows "runs (payment_destination E t dst amt) s (\<lambda>(ter, p) s'.
    if ter = tesSUCCESS then p = Some j \<and> (\<exists>f. native_root (V(j \<mapsto> f)) j f \<and> st s' (V(j \<mapsto> f)) {i, j} {i, j} {} R \<and>
      amount_value (valAmount sfBalance f) = balance_in V j \<and> native_total (V(j \<mapsto> f)) = native_total V)
    else st s' V {i} {i} {} R)"
proof (cases "V j")
  case None
  let ?f = "put sfSequence (STUInt32 1) (put sfAccount (STAccount (Some dst)) (new_entry ltACCOUNT_ROOT j))"
  have new: "STLedgerEntry ltACCOUNT_ROOT j = Inr (new_entry ltACCOUNT_ROOT j)" "sleType (new_entry ltACCOUNT_ROOT j) = ltACCOUNT_ROOT"
    using entry_eval by simp_all
  have bal: "valAmount sfBalance ?f = STAmount_u64 0 False" using balance_other by (simp add: new_root_balance)
  then have z: "mValue (valAmount sfBalance ?f) = 0" by (simp add: STAmount_u64_def)
  have root: "native_root (V(j \<mapsto> ?f)) j ?f" "native_total (V(j \<mapsto> ?f)) = native_total V"
    using native_total_new [of V j ?f, OF None] new(2) bal by (simp_all add: native_root_def native_zero example_native)
  have poor: "\<exists>b. amount_less_u64 amt r = Inr b" for r using amt by (simp add: amount_less_u64_def getSNValue_def Let_def)
  show ?thesis
    unfolding payment_destination_def Let_def j_def [symmetric] runs_bind
    apply (rule runs_cache, rule st)
    subgoal premises s1 for s1
    proof -
      have st1: "st s1 V {i} {i} {} R" using s1 None by simp
      obtain r where r: "\<And>Q. runs (reserveM (env_app E) 0) s1 Q = Q r s1" using runs_reserve [of s1] base stD(1) [OF st1] stD(1) [OF st] by metis
      obtain b where b: "amount_less_u64 amt r = Inr b" using poor by blast
      show ?thesis
        using None amt
        apply (simp add: runs_bind r b st1 ters)
        apply (intro impI)
        apply (rule runs_create, rule st1, rule None, rule ij(2), rule new(1))
        apply (simp add: setFieldAccount_def setFieldU32_def)
        apply (rule runs_put, assumption, simp, simp, rule hasField_account, rule new(2), simp)
        apply (rule runs_put, assumption, simp, simp, rule hasField_account, simp add: new(2), simp)
        using root z by (auto simp: balance_in_def insert_commute intro!: exI [of _ ?f])
    qed
    done
next
  case (Some f)
  show ?thesis
    unfolding payment_destination_def Let_def j_def [symmetric] runs_bind
    apply (rule runs_cache, rule st)
    using Some
    apply (simp add: runs_bind)
    apply (rule runs_deref, assumption, simp, assumption)
    apply (simp add: runs_bind ters)
    apply (intro conjI impI)
    subgoal by (auto simp: st_def)
    apply (rule runs_modify, assumption, simp)
    using dst [OF Some] by (auto simp: balance_in_def insert_commute fun_upd_idem intro!: exI [of _ f])
qed

subsection \<open>The transfer\<close>

lemma clearFlag_put: "clearFlag g e = e \<or> (\<exists>x. clearFlag g e = put sfFlags (STUInt32 x) e \<and> hasField sfFlags e)"
  by (auto simp: clearFlag_def update_flags_def put_def split: option.splits stvar.splits)

lemma runs_direct:
  assumes st: "st s V {i, j} {i, j} {} R" and base: "mBaseFee (mLedger s) \<noteq> 0" and ij: "i \<noteq> j"
    and e: "native_root V i e" and f: "native_root V j f" and amt: "canonical amt" "mIsNative amt"
    and t: "mTxnAccount t = Some i" "canonical (mSourceBalance t)" "mIsNative (mSourceBalance t)" "mIsNative (mPriorBalance t)"
    and fee: "getTransactionFee (mTxn t) = Inr fee" "getNValue fee = Inr n"
  shows "runs (direct_payment E t (Some j) amt) s (\<lambda>ter s'. les_ok s' \<and>
    (if ter = tesSUCCESS
     then native_total (view s') = native_total V + (amount_value (mSourceBalance t) - balance_in V i) \<and>
       (\<forall>k. balance_in (view s') k = (if k = i then amount_value (mSourceBalance t) - amount_value amt
          else if k = j then balance_in V j + amount_value amt else balance_in V k))
     else native_total (view s') = native_total V \<and> balance_in (view s') = balance_in V))"
    (is "runs _ _ ?Q")
proof -
  let ?b = "mSourceBalance t" and ?c = "valAmount sfBalance f"
  note E = e [unfolded native_root_def] and F = f [unfolded native_root_def]
  have ok: "entry_ok e" "entry_ok f" using st_view [OF st] E F by auto
  have get: "getFieldU32 sfOwnerCount e = Inr (valU32 sfOwnerCount e)" "getFieldAmount sfBalance f = Inr ?c"
    using E F ok by (auto intro!: get_val hasField_account)
  obtain r where r: "\<And>Q. runs (reserveM (env_app E) (valU32 sfOwnerCount e)) s Q = Q r s" using runs_reserve [OF base] by metis
  obtain m where m: "amount_add_u64 amt (max r n) = Inr m" "mIsNative m"
    using amt(2) by (auto simp: amount_add_u64_def getSNValue_def STAmount_int64_def set_int64_def Let_def)
  obtain poor where poor: "amount_less (mPriorBalance t) m = Inr poor"
    using m(2) t(4) by (simp add: amount_less_def throwComparable_def isComparable_def)
  obtain a where a: "amount_sub ?b amt = Inr a" "amount_value a = amount_value ?b - amount_value amt"
    using native_sub [of ?b amt] t(2,3) amt by auto
  obtain b where b: "amount_add ?c amt = Inr b" "amount_value b = amount_value ?c + amount_value amt"
    using native_add [of ?c amt] F amt by auto
  have poor_case: "?Q tecUNFUNDED_PAYMENT s" using st_les_ok [OF st] by (simp add: ters)
  have Vi: "balance_in V i = amount_value (valAmount sfBalance e)" using E by (simp add: balance_in_def)
  have paid: "native_total (V(i \<mapsto> put sfBalance (STAmount a) e, j \<mapsto> g)) = native_total V + (amount_value ?b - balance_in V i) \<and>
      (\<forall>k. balance_in (V(i \<mapsto> put sfBalance (STAmount a) e, j \<mapsto> g)) k =
        (if k = i then amount_value ?b - amount_value amt else if k = j then balance_in V j + amount_value amt else balance_in V k))"
    if "sleType g = ltACCOUNT_ROOT" "valAmount sfBalance g = b" for g
  proof -
    let ?V = "V(i \<mapsto> put sfBalance (STAmount a) e)"
    have "native_root ?V j f" using F ij by (simp add: native_root_def)
    then have "native_total (?V(j \<mapsto> put sfBalance (STAmount b) f)) = native_total V + (amount_value ?b - balance_in V i)"
      using native_total_put(1) [OF e, of a] a(2) b(2) by (simp add: native_total_put(1) Vi)
    then show ?thesis
      using native_total_same [of "?V(j \<mapsto> put sfBalance (STAmount b) f)" j "put sfBalance (STAmount b) f" g] that E F ij a(2) b(2)
      by (auto simp: balance_in_def)
  qed
  show ?thesis
    unfolding direct_payment_def t(1) runs_bind
    apply (rule runs_field [where x = e], rule st, simp, use E in simp, rule get(1))
    apply (simp add: r fee m(1) poor runs_bind a(1) setFieldAmount_def split del: if_split)
    apply (cases poor)
    subgoal using poor_case by simp
    apply (simp add: runs_bind a(1) setFieldAmount_def split del: if_split)
    apply (rule runs_put_marked [where x = e], rule st, simp, simp, use E in simp, rule hasField_account, use E in simp, simp)
    apply (rule runs_field [where x = f], assumption, simp, use F ij in simp, rule get(2))
    apply (simp add: b(1) runs_bind split del: if_split)
    apply (rule runs_put_marked [where x = f], assumption, simp, simp, use F ij in simp, rule hasField_account, use F in simp, simp)
    apply (rule runs_deref, assumption, simp, simp)
    subgoal premises st' for s1 s2
    proof -
      have st2: "st s2 (V(i \<mapsto> put sfBalance (STAmount a) e, j \<mapsto> put sfBalance (STAmount b) f)) {i, j} {i, j} {} R"
        using st' by blast
      let ?f = "put sfBalance (STAmount b) f" and ?V = "V(i \<mapsto> put sfBalance (STAmount a) e)"
      have fin: "?Q tesSUCCESS s3" if "st s3 (?V(j \<mapsto> g)) {i, j} {i, j} {} R" "sleType g = ltACCOUNT_ROOT" "valAmount sfBalance g = b" for s3 g
        using st_les_ok [OF that(1)] paid [OF that(2,3)] by auto
      let ?g = "clearFlag lsfPasswordSpent ?f"
      have f': "sleIndex ?f = j" "entry_ok ?f" using st_view [OF st2, of j] by auto
      have g: "sleType ?g = ltACCOUNT_ROOT" "valAmount sfBalance ?g = b" "sleIndex ?g = j" "entry_ok ?g"
        using clearFlag_put [of lsfPasswordSpent ?f] F f' balance_other(3) by (auto intro!: entry_ok_put)
      have clr: "runs (updateM (\<lambda>x. Inr (clearFlag lsfPasswordSpent x)) (Some j)) s2 (\<lambda>_. ?Q tesSUCCESS)"
        by (rule runs_update_marked [OF st2, where i = j and x = ?f and x' = ?g], simp, simp, simp, simp, rule g(3), rule g(4),
            rule fin [OF _ g(1,2)], simp)
      show ?thesis using clr fin [OF st2] F by (auto simp: whenM_def)
    qed
    done
qed

text \<open>C2: What a direct payment of native currency moves. It always returns. If it fails, no balance changes. If it
  succeeds, the destination, which may be created by the payment, has exactly the amount more, every other account keeps
  its balance, and the source has the balance the transactor remembers of it less the amount. The native currency held
  by all accounts together then changes by what the remembered balance differs from the stored one: it is conserved
  exactly if the two agree.
\<close>

theorem native_payment_conserves:
  fixes E :: txenv and dst :: Account
  defines "j \<equiv> getAccountRootIndex (sha E) dst"
  assumes "native_payer t s i e amt dst" "i \<noteq> j" "j \<noteq> 0" "\<And>f. view s j = Some f \<Longrightarrow> native_root (view s) j f"
  shows "\<exists>ter s'. Payment_doApply E t s = Inr ((ter, t), s') \<and> les_ok s' \<and>
    (if ter = tesSUCCESS
     then native_total (view s') = native_total (view s) + (amount_value (mSourceBalance t) - balance_in (view s) i) \<and>
       (\<forall>k. balance_in (view s') k = (if k = i then amount_value (mSourceBalance t) - amount_value amt
          else if k = j then balance_in (view s) j + amount_value amt else balance_in (view s) k))
     else native_total (view s') = native_total (view s) \<and> balance_in (view s') = balance_in (view s))"
proof -
  let ?V = "view s" and ?R = "rest s"
  note P = assms(2) [unfolded native_payer_def]
  obtain fee n where fee: "getTransactionFee (mTxn t) = Inr fee" "getNValue fee = Inr n" using P by blast
  define Q where "Q ter s' \<longleftrightarrow> les_ok s' \<and> (if ter = tesSUCCESS
         then native_total (view s') = native_total ?V + (amount_value (mSourceBalance t) - balance_in ?V i) \<and>
           (\<forall>k. balance_in (view s') k = (if k = i then amount_value (mSourceBalance t) - amount_value amt
              else if k = j then balance_in ?V j + amount_value amt else balance_in ?V k))
         else native_total (view s') = native_total ?V \<and> balance_in (view s') = balance_in ?V)" for ter :: TER and s'
  have st: "st s ?V {i} {i} {} ?R" using P by blast
  have pay: "runs (direct_payment E t (Some j) amt) s1 Q"
    if "native_root (?V(j \<mapsto> f)) j f" "st s1 (?V(j \<mapsto> f)) {i, j} {i, j} {} ?R"
      "amount_value (valAmount sfBalance f) = balance_in ?V j" "native_total (?V(j \<mapsto> f)) = native_total ?V" for s1 f
  proof -
    have "mLedger s1 = mLedger s" using stD(1) [OF that(2)] by simp
    then have base: "mBaseFee (mLedger s1) \<noteq> 0" using P by metis
    have e: "native_root (?V(j \<mapsto> f)) i e" using P assms(3) by (simp add: native_root_def)
    have b: "balance_in (?V(j \<mapsto> f)) = balance_in ?V" using that(3) by (auto simp: balance_in_def)
    note run = runs_direct [OF that(2) base assms(3) e that(1) _ _ _ _ _ _ fee]
    have "runs (direct_payment E t (Some j) amt) s1 Q"
      unfolding Q_def using run [of amt E] P unfolding that(4) b by blast
    then show ?thesis .
  qed
  have tx: "txAccount160 sfDestination (mTxn t) = Inr dst" "txAmount sfAmount (mTxn t) = Inr amt"
    "max_source (mTxn t) (mTxnAccountID t) amt = Inr amt" "mIsNative amt"
    "\<not> tx_isFieldPresent sfPaths (mTxn t)" "\<not> tx_isFieldPresent sfSendMax (mTxn t)"
    using P by (simp_all add: max_source_def)
  have base: "mBaseFee (mLedger s) \<noteq> 0" using P by blast
  have same: "st s' ?V {i} {i} {} ?R \<Longrightarrow> ter \<noteq> tesSUCCESS \<Longrightarrow> Q ter s'" for ter s' by (auto simp: Q_def dest!: st_les_ok)
  have "runs (Payment_doApply E t) s (\<lambda>(ter, t') s'. t' = t \<and> Q ter s')"
    unfolding Payment_doApply_def doneT_def runs_bind
    apply (simp add: tx split del: if_split)
    apply (rule runs_mono [OF runs_destination [where E = E and dst = dst, folded j_def, OF st base assms(3,4) tx(4) assms(5)]], assumption)
    subgoal for x s1
      by (cases x) (auto simp: runs_bind tx same pay split: if_splits)
    done
  then obtain ter s' where "Payment_doApply E t s = Inr ((ter, t), s')" "Q ter s'" by (auto elim!: runsE)
  then show ?thesis unfolding Q_def by blast
qed

lemma example_pay_tx_simps:
  "txAccount160 sfDestination example_pay_tx = Inr 12" "txAmount sfAmount example_pay_tx = Inr (STAmount_u64 10 False)"
  "\<not> tx_isFieldPresent sfPaths example_pay_tx" "\<not> tx_isFieldPresent sfSendMax example_pay_tx"
  "getTransactionFee example_pay_tx = Inr (STAmount_u64 10 False)"
  by (simp_all add: example_pay_tx_def tx_eval)

theorem native_payment_conserves_witness:
  "\<exists>s ter s'. view s = view (set_with [example_root 11 100, example_root 12 100]) \<and>
     Payment_doApply example_env example_sender s = Inr ((ter, example_sender), s') \<and>
     native_total (view s') = native_total (view s)"
proof -
  let ?i = "getAccountRootIndex (app_sha512 example_app) 11" and ?j = "getAccountRootIndex (app_sha512 example_app) 12"
  let ?s = "set_with [example_root 11 100, example_root 12 100]"
  have ij: "?i \<noteq> ?j" "?i \<noteq> 0" "?j \<noteq> 0" by (simp_all add: key_eval)
  then have ok: "les_ok ?s" and v: "view ?s ?i = Some (example_root 11 100)" "view ?s ?j = Some (example_root 12 100)"
    using set_with_ok [of "[example_root 11 100, example_root 12 100]"] by (auto simp: example_root_simps)
  have "runs (bindM (entryCache ?i) entryModify) ?s (\<lambda>_ s'. st s' (view ?s) {?i} {?i} {} (rest ?s))"
    unfolding runs_bind
    by (rule runs_cache, rule ok [unfolded les_ok_st], simp add: v, rule runs_modify, assumption, simp, simp)
  then obtain s where s: "st s (view ?s) {?i} {?i} {} (rest ?s)" by (auto elim!: runsE)
  then have V: "view s = view ?s" "rest s = rest ?s" by (auto simp: st_def)
  have base: "mBaseFee (mLedger s) \<noteq> 0" using stD(1) [OF s] by (simp add: set_with_def LedgerEntrySet_def ledger_with_def empty_ledger_def)
  have roots: "native_root (view s) ?i (example_root 11 100)" "native_root (view s) ?j (example_root 12 100)"
    using v by (simp_all add: V example_root_native)
  have "native_payer example_sender s ?i (example_root 11 100) (STAmount_u64 10 False) 12"
    using s base roots
    by (simp add: native_payer_def V example_sender_def new_transactor_def example_pay_tx_simps example_root_simps example_native
        getNValue_def) (simp add: STAmount_u64_def)
  moreover have "amount_value (mSourceBalance example_sender) = balance_in (view s) ?i"
    by (simp add: example_sender_def balance_in_def V v example_root_simps)
  ultimately show ?thesis
    using native_payment_conserves [of example_sender s ?i "example_root 11 100" "STAmount_u64 10 False" 12 example_env] ij v roots V
    by (auto split: if_splits)
qed

end
