(* ===== verification/Frames.thy ===== *)
theory Frames
  imports Evaluation
begin

text \<open>
  What running a transaction cannot do: the operations on an entry set leave the ledger underneath
  alone, apart from its fee cache. From this follows that the engine changes the ledger only when it
  reports that it applied the transaction, and that it applies a transaction at most once.

  The interface between the base class and the concrete transactors is the locale
  \<open>framed_transactor\<close>: methods that keep the ledger. It is interpreted for every transactor.
\<close>

definition same_state :: "ledger \<Rightarrow> ledger \<Rightarrow> bool" where
  "same_state l l' \<longleftrightarrow> mAccountStateMap l' = mAccountStateMap l \<and> mTransactionMap l' = mTransactionMap l \<and>
     mLedgerSeq l' = mLedgerSeq l \<and> mTotCoins l' = mTotCoins l"

definition framed :: "les \<Rightarrow> les \<Rightarrow> bool" where
  "framed s s' \<longleftrightarrow> same_state (mLedger s) (mLedger s') \<and> setTxID s' = setTxID s \<and> setLgrSeq s' = setLgrSeq s"

definition frames :: "'a lesM \<Rightarrow> bool" where
  "frames m \<longleftrightarrow> (\<forall>s x s'. m s = Inr (x, s') \<longrightarrow> framed s s')"

text \<open>The promise about the path calculation: like every operation on a set, it keeps the ledger.\<close>

definition calc_frames :: "txenv \<Rightarrow> bool" where
  "calc_frames E \<longleftrightarrow> (\<forall>a b c d e f. frames (skywellCalculate E a b c d e f))"

text \<open>The transaction map is a \<open>std::map\<close>; recording a transaction adds exactly one key, which was not there.\<close>

definition recorded :: "u256 \<Rightarrow> ledger \<Rightarrow> ledger \<Rightarrow> bool" where
  "recorded txID l l' \<longleftrightarrow> \<not> hasTransaction l txID \<and> (\<exists>b. mTransactionMap l' = smap_insert txID b (mTransactionMap l))"

text \<open>A history of calls of the engine: any transactions, each in an environment of its own.\<close>

inductive engine_steps :: "engine \<Rightarrow> engine \<Rightarrow> bool" where
  no_call: "engine_steps g g"
| call: "engine_steps g g' \<Longrightarrow> calc_frames E \<Longrightarrow> applyTransaction E txn params g' = (r, g'') \<Longrightarrow> engine_steps g g''"

named_theorems frame_rules

subsection \<open>Operations on the set\<close>

lemma same_state_refl [simp]: "same_state l l"
  by (simp add: same_state_def)

lemma framed_refl [simp]: "framed s s"
  by (simp add: framed_def)

lemma framed_trans: "framed s s' \<Longrightarrow> framed s' s'' \<Longrightarrow> framed s s''"
  by (simp add: framed_def same_state_def)

lemma framed_updates [simp]:
  "framed s (s\<lparr>mEntries := m\<rparr>)" "framed s (set_entry i e s)" "framed s (s\<lparr>mDeferredCredits := d\<rparr>)"
  "framed s (les_clear s)" "framed s (setDeliveredAmount a s)" "framed s (enableDeferredCredits b s)"
  by (simp_all add: framed_def set_entry_def les_clear_def setDeliveredAmount_def enableDeferredCredits_def)

lemma framesI: "(\<And>s x s'. m s = Inr (x, s') \<Longrightarrow> framed s s') \<Longrightarrow> frames m"
  by (simp add: frames_def)

lemma framesD: "frames m \<Longrightarrow> m s = Inr (x, s') \<Longrightarrow> framed s s'"
  by (simp add: frames_def)

lemma frames_ret [frame_rules]: "frames (retM x)"
  by (simp add: frames_def retM_def)

lemma frames_lift [frame_rules]: "frames (liftM r)"
  by (auto simp: frames_def liftM_def split: sum.splits)

lemma frames_gets [frame_rules]: "frames (getsM f)"
  by (simp add: frames_def getsM_def)

lemma frames_bind [frame_rules]:
  assumes "frames m" "\<And>x. frames (f x)"
  shows "frames (bindM m f)"
proof (rule framesI)
  fix s x s' assume "bindM m f s = Inr (x, s')"
  then obtain y s1 where "m s = Inr (y, s1)" "f y s1 = Inr (x, s')" by (auto simp: bindM_def split: sum.splits)
  with assms show "framed s s'" by (blast intro: framed_trans framesD)
qed

lemma frames_if [frame_rules]: "(b \<Longrightarrow> frames m) \<Longrightarrow> (\<not> b \<Longrightarrow> frames m') \<Longrightarrow> frames (if b then m else m')"
  by simp

lemma frames_when [frame_rules]: "frames m \<Longrightarrow> frames (whenM b m)"
  by (simp add: whenM_def frames_ret)

lemma frames_option [frame_rules]:
  "(r = None \<Longrightarrow> frames m) \<Longrightarrow> (\<And>x. r = Some x \<Longrightarrow> frames (f x)) \<Longrightarrow> frames (case r of None \<Rightarrow> m | Some x \<Rightarrow> f x)"
  by (cases r) simp_all

lemma frames_prod [frame_rules]: "(\<And>a b. p = (a, b) \<Longrightarrow> frames (f a b)) \<Longrightarrow> frames (case p of (a, b) \<Rightarrow> f a b)"
  by (cases p) simp

lemma frames_sum [frame_rules]:
  "(\<And>er. r = Inl er \<Longrightarrow> frames (g er)) \<Longrightarrow> (\<And>x. r = Inr x \<Longrightarrow> frames (f x)) \<Longrightarrow> frames (case r of Inl er \<Rightarrow> g er | Inr x \<Rightarrow> f x)"
  by (cases r) simp_all

lemma frames_let [frame_rules]: "frames (f x) \<Longrightarrow> frames (let y = x in f y)"
  by simp

lemma frames_then [frame_rules]: "frames m \<Longrightarrow> (\<And>t. frames (k t)) \<Longrightarrow> frames (thenT m k)"
  unfolding thenT_def by (intro frame_rules)

lemma frames_done [frame_rules]: "frames m \<Longrightarrow> frames (doneT t m)"
  unfolding doneT_def by (intro frame_rules)

lemma frames_catch [frame_rules]: "frames m \<Longrightarrow> frames h \<Longrightarrow> frames (catchM m h)"
  by (auto simp: frames_def catchM_def split: sum.splits if_splits)

lemma frames_deref [frame_rules]: "frames (deref p)"
  by (auto simp: frames_def deref_def split: option.splits)

lemma frames_field [frame_rules]: "frames (fieldM get p)"
  unfolding fieldM_def by (intro frame_rules)

lemma frames_update [frame_rules]: "frames (updateM upd p)"
  by (auto simp: frames_def updateM_def split: option.splits sum.splits)

lemma frames_cache_sle [frame_rules]: "frames (entryCache_sle x)"
  by (rule framesI, clarsimp simp: entryCache_sle_def split: option.splits LedgerEntryAction.splits if_splits)

lemma frames_getEntry [frame_rules]: "frames (getEntry i)"
  by (rule framesI, clarsimp simp: getEntry_def Let_def split: option.splits if_splits)

lemma frames_cache [frame_rules]: "frames (entryCache i)"
proof -
  have "frames (\<lambda>s. case (if mImmutable s then getSLEi (mLedger s) i else getSLE (mLedger s) i) of
      None \<Rightarrow> Inr (None, s) | Some x \<Rightarrow> bindM (entryCache_sle x) (\<lambda>_. retM (Some (sleIndex x))) s)"
    using framesD [OF frames_bind [OF frames_cache_sle frames_ret]] by (intro framesI) (auto split: option.splits)
  then show ?thesis unfolding entryCache_def by (intro frame_rules)
qed

lemma frames_create_sle [frame_rules]: "frames (entryCreate_sle x)"
  by (rule framesI, clarsimp simp: entryCreate_sle_def split: option.splits LedgerEntryAction.splits if_splits)

lemma frames_create [frame_rules]: "frames (entryCreate ty i)"
  unfolding entryCreate_def by (intro frame_rules)

lemma frames_modify_sle [frame_rules]: "frames (entryModify_sle x)"
  by (rule framesI, clarsimp simp: entryModify_sle_def split: option.splits LedgerEntryAction.splits if_splits)

lemma frames_modify [frame_rules]: "frames (entryModify p)"
  unfolding entryModify_def by (intro frame_rules)

lemma frames_delete_sle [frame_rules]: "frames (entryDelete_sle x)"
  by (rule framesI, clarsimp simp: entryDelete_sle_def split: option.splits LedgerEntryAction.splits if_splits)

lemma frames_delete [frame_rules]: "frames (entryDelete p)"
  unfolding entryDelete_def by (intro frame_rules)

lemma frames_cacheCredit [frame_rules]: "frames (cacheCredit a b n)"
  by (auto simp: frames_def cacheCredit_def split: option.splits sum.splits)

lemma frames_adjusted [frame_rules]: "frames (adjustedBalance a b n)"
  by (auto simp: frames_def adjustedBalance_def liftM_def split: option.splits sum.splits)

lemma same_state_fees: "updateFees A l = Inr l' \<Longrightarrow> same_state l l'"
  by (auto simp: updateFees_def same_state_def Let_def bindE_eq_Inr split: if_splits)

lemma frames_ledger:
  assumes "\<And>l x l'. f l = Inr (x, l') \<Longrightarrow> same_state l l'"
  shows "frames (ledgerM f)"
  using assms by (auto simp: frames_def ledgerM_def framed_def split: sum.splits)

lemma frames_reserve [frame_rules]: "frames (reserveM A n)"
proof -
  have eq: "reserveM A n = ledgerM (getReserve A (sint n))" by (simp add: reserveM_def ledgerM_def fun_eq_iff)
  show ?thesis unfolding eq
    by (rule frames_ledger) (auto simp: getReserve_def bindE_eq_Inr dest: same_state_fees)
qed

lemma frames_scale [frame_rules]: "frames (ledgerM (Ledger_scaleFeeLoad A tr fee b))"
  by (rule frames_ledger) (auto simp: Ledger_scaleFeeLoad_def bindE_eq_Inr dest: same_state_fees)

lemma frames_failed [frame_rules]: "frames (\<lambda>s. retM (failed_processing s) s)"
  by (simp add: frames_def retM_def)

subsection \<open>Directories and lines\<close>

lemma frames_directory [frame_rules]:
  "frames (dirIsEmpty A i)" "frames (dirAdd A i j d)" "frames (dirDelete_emptied A keep n i p)"
  unfolding dirIsEmpty_def dirAdd_def dirAdd_page_def dirAdd_last_def dirDelete_emptied_def by (intro frame_rules)+

lemma frames_bind_apply:
  assumes "bindM m f s = Inr (x, s')" "frames m" "\<And>y s1. f y s1 = Inr (x, s') \<Longrightarrow> m s = Inr (y, s1) \<Longrightarrow> framed s1 s'"
  shows "framed s s'"
proof -
  obtain y s1 where "m s = Inr (y, s1)" "f y s1 = Inr (x, s')" using assms(1) by (auto simp: bindM_def split: sum.splits)
  with assms(2,3) show ?thesis by (blast intro: framed_trans framesD)
qed

lemma frames_dirDelete [frame_rules]: "frames (dirDelete A keep n r x b soft)"
proof (rule framesI)
  fix s v s' assume "dirDelete A keep n r x b soft s = Inr (v, s')"
  then show "framed s s'"
  proof (induction A keep n r x b soft s rule: dirDelete.induct)
    case (1 A keep n r x b soft s)
    have fin: "frames (bindM (updateM (setFieldV256 sfIndexes sv) p) (\<lambda>_. bindM (entryModify p) (\<lambda>_.
        if sv = [] then dirDelete_emptied A keep n r p else retM tesSUCCESS)))" for sv p
      by (intro frame_rules)
    from 1(3) show ?case
      unfolding dirDelete.simps [of A keep n r x b soft s]
      apply (rule frames_bind_apply)
       apply (rule frames_cache)
      subgoal for p s1
        apply (cases "p = None")
        subgoal using 1(1) [of p s1] by (auto simp: retM_def split: if_splits)
        subgoal
          apply simp
          apply (erule frames_bind_apply, rule frames_field)
          subgoal for sv s2
            using 1(2) [of p s1 sv s2] framesD [OF fin [of "erase_index b x sv" p], of s2 v s']
            by (cases "x \<in> set sv") (simp add: Let_def split del: if_split, auto simp: retM_def split: if_splits)
          done
        done
      done
  qed
qed

lemma frames_counts [frame_rules]: "frames (decrementOwnerCount p)" "frames (incrementOwnerCount p)"
  "frames (decrementOwnerCount_account A a)" "frames (incrementOwnerCount_account A a)"
  unfolding decrementOwnerCount_def incrementOwnerCount_def decrementOwnerCount_account_def incrementOwnerCount_account_def
  by (intro frame_rules)+

lemma frames_holdings [frame_rules]: "frames (isFrozen A a c i)" "frames (skywellHolds A a c i z)" "frames (accountHolds A a c i z)"
  "frames (accountFunds A a n z)"
  unfolding accountFunds_def accountHolds_def skywellHolds_def isFrozen_def by (intro frame_rules)+

lemma frames_lines [frame_rules]: "frames (trustDelete A p a b)" "frames (add_to_owner A a i)"
  "frames (set_line h d a b p l n bal lm qi qo)" "frames (line_unused high p fl af)"
  unfolding trustDelete_def add_to_owner_def set_line_def line_unused_def by (intro frame_rules)+

lemma frames_line_creation [frame_rules]: "frames (trustCreate A h a b i p au ns fr bal lm qi qo)"
  "frames (relationCreate A h a b i p bal lm qi qo)" "frames (signCreate A i p a w q qh es)"
  unfolding trustCreate_def relationCreate_def signCreate_def Let_def by (intro frame_rules)+

lemma frames_credit [frame_rules]: "frames (skywellCredit A a b n)"
  unfolding skywellCredit_def Let_def by (intro frame_rules)

lemma frames_rates [frame_rules]: "frames (account_rate p)" "frames (skywellTransferRate A a c)" "frames (skywellTransferFee A a b i n)"
  unfolding skywellTransferFee_def skywellTransferRate_def account_rate_def by (intro frame_rules)+

lemma frames_send [frame_rules]: "frames (skywellSend A a b n)" "frames (accountSend A a b n)" "frames (issue_trust_auto A a n i d)"
  unfolding accountSend_def skywellSend_def issue_trust_auto_def Let_def by (intro frame_rules)+

lemma frames_author [frame_rules]: "frames (draw_from_author A a b n f z g items)"
  unfolding draw_from_author_def Let_def by (intro frame_rules)

lemma case_sum_Some_Inr:
  "(case r of Inl er \<Rightarrow> Some (Inl er) | Inr x \<Rightarrow> f x) = Some (Inr z) \<longleftrightarrow> (\<exists>x. r = Inr x \<and> f x = Some (Inr z))"
  by (cases r) auto

lemma frames_fundsCheck [frame_rules]: "frames (fundsCheckM A a n)"
proof (rule framesI)
  fix s ter s' assume "fundsCheckM A a n s = Inr (ter, s')"
  then have "accountFundsCheck A a n s = Some (Inr (ter, s'))" by (simp add: fundsCheckM_def split: option.splits)
  then show "framed s s'"
    unfolding accountFundsCheck_def case_sum_Some_Inr bind_eq_Some_conv
    apply (elim exE conjE)
    subgoal for own
      apply (cases own)
       apply simp
      apply (clarsimp simp: bindE_eq_Inr bind_eq_Some_conv case_sum_Some_Inr)
      apply (drule framesD [OF frames_holdings(4)])
      apply (clarsimp simp: bindE_eq_Inr bind_eq_Some_conv case_sum_Some_Inr split: if_split_asm)
      apply (drule framesD [OF frames_author], erule (1) framed_trans)+
      done
    done
qed

subsection \<open>The base class and its transactors\<close>

lemma frames_scoped [frame_rules]:
  assumes "calc_frames E"
  shows "frames (calculate_payment E a b c d e f)"
proof -
  have calc: "frames (skywellCalculate E a b c d e f)" using assms by (simp add: calc_frames_def)
  have "frames (\<lambda>s. let (enabled, s) = ScopedDeferCredits s
           in bindM (skywellCalculate E a b c d e f) (\<lambda>rc s. Inr (rc, leave_ScopedDeferCredits enabled s)) s)"
    by (rule framesI)
      (auto simp: ScopedDeferCredits_def leave_ScopedDeferCredits_def bindM_def split: sum.splits if_splits
        dest!: framesD [OF calc] elim: framed_trans [OF framed_trans [OF framed_updates(6)] framed_updates(6)])
  then show ?thesis unfolding calculate_payment_def
    by (intro frame_rules) (auto simp: frames_def)
qed

lemma frames_base [frame_rules]:
  "frames (preCheck E t)" "frames (checkSeq E t)" "frames (payFee E t)" "frames (calculateBaseFee E t)" "frames (checkSig E t)"
  unfolding preCheck_def checkSeq_def payFee_def calculateBaseFee_def checkSig_def Let_def by (intro frame_rules)+

lemma frames_apply_parts [frame_rules]:
  "frames (find_accounts E t)" "frames (read_source t)" "frames (ensure_fee_account E t)" "frames (mark_accounts t)"
  unfolding find_accounts_def read_source_def ensure_fee_account_def mark_accounts_def by (intro frame_rules)+

locale framed_transactor =
  fixes V :: transactor_ops
  assumes pre_frames: "calc_frames E \<Longrightarrow> frames (op_preCheck V E t)"
    and seq_frames: "calc_frames E \<Longrightarrow> frames (op_checkSeq V E t)"
    and fee_frames: "calc_frames E \<Longrightarrow> frames (op_payFee V E t)"
    and base_frames: "calc_frames E \<Longrightarrow> frames (op_calculateBaseFee V E t)"
    and sig_frames: "calc_frames E \<Longrightarrow> frames (op_checkSig V E t)"
    and do_frames: "calc_frames E \<Longrightarrow> frames (op_doApply V E t)"
begin

lemma apply_frames: "calc_frames E \<Longrightarrow> frames (apply_ops V E t)"
  unfolding apply_ops_def calculateFee_def
  by (intro frame_rules pre_frames seq_frames fee_frames base_frames sig_frames do_frames)

lemma run_frames: "calc_frames E \<Longrightarrow> frames (run_ops V E txn params)"
  unfolding run_ops_def by (intro frame_rules apply_frames)

end

lemma framed_base:
  assumes "\<And>E t. calc_frames E \<Longrightarrow> frames (pre E t)" "\<And>E t. calc_frames E \<Longrightarrow> frames (f E t)"
  shows "framed_transactor ((base_ops f)\<lparr>op_preCheck := pre\<rparr>)"
  by unfold_locales (simp_all add: base_ops_def assms frames_base)

lemma base_ops_pre: "base_ops f = (base_ops f)\<lparr>op_preCheck := preCheck\<rparr>"
  by (simp add: base_ops_def)

lemma frames_copy [frame_rules]: "frames (copy_blob f n ter txn p)"
  unfolding copy_blob_def by (intro frame_rules)

lemma frames_set_account [frame_rules]: "frames (SetAccount_preCheck E t)" "frames (SetAccount_doApply E t)"
  unfolding SetAccount_preCheck_def SetAccount_doApply_def SetAccount_fields_def Let_def by (intro frame_rules)+

interpretation set_account: framed_transactor SetAccount_ops
  unfolding SetAccount_ops_def by (intro framed_base frame_rules)

interpretation set_regular_key: framed_transactor SetRegularKey_ops
proof -
  have "frames (SetRegularKey_preCheck E t)" "frames (SetRegularKey_doApply E t)" "frames (SetRegularKey_calculateBaseFee E t)" for E t
    unfolding SetRegularKey_preCheck_def SetRegularKey_doApply_def SetRegularKey_calculateBaseFee_def Let_def
    by (intro frame_rules)+
  then show "framed_transactor SetRegularKey_ops"
    by unfold_locales (simp_all add: SetRegularKey_ops_def base_ops_def frames_base)
qed

interpretation set_sign: framed_transactor SetSign_ops
  unfolding SetSign_ops_def SetSign_preCheck_def SetSign_doApply_def Let_def by (intro framed_base frame_rules)

interpretation set_nick_name: framed_transactor SetNickName_ops
  unfolding SetNickName_ops_def SetNickName_doApply_def Let_def by (subst base_ops_pre) (intro framed_base frame_rules)

interpretation message: framed_transactor Message_ops
  unfolding Message_ops_def Message_preCheck_def Message_doApply_def Let_def by (intro framed_base frame_rules)

interpretation account_merge: framed_transactor AccountMerge_ops
proof -
  have "frames (AccountMerge_preCheck E t)" "frames (AccountMerge_doApply E t)" "frames (succeedT E t)" for E t
    unfolding AccountMerge_preCheck_def AccountMerge_doApply_def succeedT_def Let_def by (intro frame_rules)+
  then show "framed_transactor AccountMerge_ops"
    by unfold_locales (simp_all add: AccountMerge_ops_def base_ops_def frames_base)
qed

interpretation set_trust: framed_transactor SetTrust_ops
  unfolding SetTrust_ops_def SetTrust_preCheck_def limit_preCheck_def SetTrust_doApply_def modify_line_def adjust_reserve_def
    set_quality_def Let_def
  by (intro framed_base frame_rules)

interpretation set_rel: framed_transactor SetREL_ops
  unfolding SetREL_ops_def SetREL_preCheck_def limit_preCheck_def SetREL_doApply_def Let_def by (intro framed_base frame_rules)

interpretation payment: framed_transactor Payment_ops
  unfolding Payment_ops_def Payment_preCheck_def Payment_doApply_def payment_destination_def path_payment_def auto_trust_def
    direct_payment_def Let_def
  by (intro framed_base frame_rules)

lemma frames_find [frame_rules]: "frames (find_or_create ty i)"
  unfolding find_or_create_def by (intro frame_rules)

interpretation change: framed_transactor Change_ops
proof -
  have "frames (Change_preCheck E t)" "frames (Change_doApply E t)" "frames (Change_checkSig E t)" "frames (Change_checkSeq E t)"
    "frames (Change_payFee E t)" for E t
    unfolding Change_preCheck_def Change_doApply_def applyAmendment_def applyFee_def Change_checkSig_def Change_checkSeq_def
      Change_payFee_def Let_def
    by (intro frame_rules)+
  then show "framed_transactor Change_ops"
    by unfold_locales (simp_all add: Change_ops_def base_ops_def frames_base)
qed

interpretation manage: framed_transactor Manage_ops
proof -
  have "frames (Manage_preCheck E t)" "frames (Manage_doApply E t)" "frames (Manage_checkSeq E t)" "frames (succeedT E t)" for E t
    unfolding Manage_preCheck_def Manage_doApply_def applyManageFee_def applyManageIssuer_def applyManageBlackList_def
      set_manage_account_def Manage_checkSeq_def succeedT_def Let_def
    by (intro frame_rules)+
  then show "framed_transactor Manage_ops"
    by unfold_locales (simp_all add: Manage_ops_def base_ops_def frames_base)
qed

lemma simple_framed: "simple_ops ty = Some V \<Longrightarrow> framed_transactor V"
  by (auto simp: simple_ops_def split: TxType.splits
      intro: set_account.framed_transactor_axioms set_regular_key.framed_transactor_axioms set_sign.framed_transactor_axioms
        set_nick_name.framed_transactor_axioms message.framed_transactor_axioms account_merge.framed_transactor_axioms
        set_trust.framed_transactor_axioms set_rel.framed_transactor_axioms payment.framed_transactor_axioms
        change.framed_transactor_axioms manage.framed_transactor_axioms)

subsection \<open>Batches and dispatch\<close>

lemma frames_precheckSig [frame_rules]: "frames (precheckSig E signers txn params)"
  unfolding precheckSig_def Let_def by (intro frame_rules)

lemma frames_parts:
  assumes "\<And>txn params. frames (run txn params)"
  shows "frames (run_parts run signers txns ter E t)"
  by (induction txns arbitrary: ter t) (auto simp: Let_def intro!: frame_rules assms)

lemma framed_operations:
  assumes "\<And>txn params. frames (run txn params)"
  shows "framed_transactor (Operations_ops run)"
  unfolding Operations_ops_def Operations_doApply_def
  by (subst base_ops_pre) (intro framed_base frame_rules frames_parts assms)

lemma frames_transact_fuel: "calc_frames E \<Longrightarrow> frames (transact_fuel n E txn params)"
proof (induction n arbitrary: txn params)
  case 0
  show ?case using framed_transactor.run_frames [OF simple_framed 0]
    by (auto simp: frames_ret frames_def [of "\<lambda>_. Inl _"] split: option.splits)
next
  case (Suc n)
  show ?case
    using framed_transactor.run_frames [OF simple_framed Suc.prems]
      framed_transactor.run_frames [OF framed_operations [OF Suc.IH [OF Suc.prems]] Suc.prems]
    by (subst transact_fuel.simps) (auto simp: frames_ret simp del: transact_fuel.simps split: option.splits)
qed

lemma frames_process:
  assumes "calc_frames E"
  shows "frames (process E txn params)"
proof -
  have clear: "frames (\<lambda>s. Inr ((), les_clear s))" by (rule framesI) auto
  show ?thesis unfolding process_def claim_fee_def transact_def
    by (intro frame_rules clear frames_transact_fuel assms)
qed

subsection \<open>Threading and recording\<close>

lemma framed_getForMod: "getForMod k t = (r, t') \<Longrightarrow> framed (thSet t) (thSet t')"
  by (auto simp: getForMod_def split: option.splits if_splits)

lemma framed_mods [simp]: "framed (thSet t) (thSet (mod_put r x t))" "thSet (snd (meta_thread k t)) = thSet t"
  by (auto simp: mod_put_def meta_thread_def split: mod_ref.splits option.splits)

lemma framed_threadTx:
  assumes "threadTx r t = Inr (b, t')"
  shows "framed (thSet t) (thSet t')"
proof -
  obtain x q where "mod_get r t = Some x" "thread_sle (setTxID (thSet t)) (setLgrSeq (thSet t)) x = Inr q"
    using assms by (auto simp: threadTx_def bindE_eq_Inr split: option.splits)
  then show ?thesis
    using assms framed_mods(1) [of t r] framed_mods(2) [of "sleIndex x"]
    by (cases q) (auto simp: threadTx_def Let_def split: if_splits dest!: arg_cong [where f = snd])
qed

lemma framed_threadTx_account: "threadTx_account A a t = Inr (b, t') \<Longrightarrow> framed (thSet t) (thSet t')"
  by (auto simp: threadTx_account_def split: prod.splits option.splits
      dest!: framed_getForMod framed_threadTx elim: framed_trans)

lemma framed_threadOwners: "threadOwners A x t = Inr (b, t') \<Longrightarrow> framed (thSet t) (thSet t')"
  by (auto simp: threadOwners_def bindE_eq_Inr split: if_splits dest!: framed_threadTx_account elim: framed_trans)

lemma framed_thread_entry: "thread_entry A k t = Inr t' \<Longrightarrow> framed (thSet t) (thSet t')"
  by (auto simp: thread_entry_def bindE_eq_Inr split: option.splits LedgerEntryAction.splits if_splits
      dest!: framed_threadTx framed_threadOwners elim: framed_trans)

lemma framed_thread_entries: "thread_entries A ks t = Inr t' \<Longrightarrow> framed (thSet t) (thSet t')"
  by (induction ks arbitrary: t) (auto simp: bindE_eq_Inr dest!: framed_thread_entry elim: framed_trans)

lemma frames_modify_all: "frames (modify_all xs)"
  by (induction xs) (auto intro!: frame_rules)

lemma frames_calcRawMeta: "frames (calcRawMeta A)"
proof (rule framesI)
  fix s x s' assume "calcRawMeta A s = Inr (x, s')"
  then obtain t where "thread_entries A (map fst (mEntries s)) \<lparr>thSet = s, newMods = [], metaThreaded = []\<rparr> = Inr t"
    and "modify_all (map snd (newMods t)) (thSet t) = Inr (x, s')"
    by (auto simp: calcRawMeta_def bindE_eq_Inr)
  moreover from this(1) have "framed s (thSet t)" using framed_thread_entries by fastforce
  ultimately show "framed s s'" using framesD [OF frames_modify_all] framed_trans by blast
qed

lemma txnWrite_transactions [simp]: "mTransactionMap (mLedger (txnWrite s)) = mTransactionMap (mLedger s)"
proof -
  have "mTransactionMap (write_entry it l) = mTransactionMap l" for it l
    by (auto simp: write_entry_def writeBack_def delItem_def Let_def split: LedgerEntryAction.splits)
  then have "mTransactionMap (fold write_entry its l) = mTransactionMap l" for its l
    by (induction its arbitrary: l) simp_all
  then show ?thesis by (simp add: txnWrite_def)
qed

lemma record_tx_records: "record_tx E txn params md l = Inr l' \<Longrightarrow>
    recorded (getTransactionID E txn) l l' \<and> mAccountStateMap l' = mAccountStateMap l"
  by (auto simp: record_tx_def recorded_def hasTransaction_def addTransaction_def addTransaction_meta_def bindE_eq_Inr
      split: if_splits prod.splits bool.splits)

lemma recorded_has: "recorded i l l' \<Longrightarrow> smap_valid (mTransactionMap l) \<Longrightarrow>
    smap_valid (mTransactionMap l') \<and> hasTransaction l' j = (j = i \<or> hasTransaction l j)"
  by (auto simp: recorded_def hasTransaction_def std.lookup_insert std.valid_insert)

lemma commit_records:
  assumes "commit E txn params ter eff s g = (r, g')"
  shows "case r of
      Inl er \<Rightarrow> mTransactionMap (eLedger g') \<in> {mTransactionMap (eLedger g), mTransactionMap (mLedger s)}
    | Inr (ter', b, eff') \<Rightarrow> b \<and> ter' = ter \<and> (\<exists>s' l. calcRawMeta (env_app E) s = Inr ((), s') \<and> l = mLedger (txnWrite s') \<and>
        recorded (getTransactionID E txn) l (eLedger g') \<and> mAccountStateMap (eLedger g') = mAccountStateMap l)"
proof (cases "calcRawMeta (env_app E) s")
  case (Inr p)
  then obtain s' where s': "calcRawMeta (env_app E) s = Inr ((), s')" by (cases p) simp
  then have "framed s s'" by (rule framesD [OF frames_calcRawMeta])
  then show ?thesis
    using assms s' by (auto simp: commit_def Let_def framed_def same_state_def
      split: sum.splits dest!: record_tx_records)
qed (use assms in \<open>auto simp: commit_def\<close>)

lemma claim_code:
  assumes "process E txn params s = Inr ((ter, True, eff), s')"
  shows "isTesSuccess ter \<or> isTecClaim ter \<and> params AND tapRETRY = 0"
proof -
  have kept: "claim_fee E txn params t s1 = Inr ((t', True), s2) \<Longrightarrow> t' = t" for t t' s1 s2
    by (auto simp: claim_fee_def bindM_def liftM_def retM_def split: sum.splits if_splits option.splits)
  show ?thesis using assms
    by (auto simp: process_def bindM_def retM_def split: sum.splits if_splits dest: kept)
qed

lemma apply_records:
  assumes "calc_frames E" "applyTransaction E txn params g = (r, g')"
  shows "case r of
      Inl er \<Rightarrow> mTransactionMap (eLedger g') = mTransactionMap (eLedger g)
    | Inr (ter, applied, effects) \<Rightarrow>
        if applied
        then recorded (getTransactionID E txn) (eLedger g) (eLedger g') \<and>
             (isTesSuccess ter \<or> isTecClaim ter \<and> params AND tapRETRY = 0)
        else same_state (eLedger g) (eLedger g')"
proof (cases "getTransactionID E txn = 0")
  case False
  let ?s = "les_init (eLedger g) (getTransactionID E txn) (mLedgerSeq (eLedger g)) params (mNodes g)"
  show ?thesis
  proof (cases "process E txn params ?s")
    case (Inl er)
    then show ?thesis using assms(2) False by (auto simp: applyTransaction_def Let_def)
  next
    case (Inr p)
    then obtain ter b eff s where p: "process E txn params ?s = Inr ((ter, b, eff), s)" by (cases p) auto
    then have "framed ?s s" by (rule framesD [OF frames_process [OF assms(1)]])
    then have s: "same_state (eLedger g) (mLedger s)" by (simp add: framed_def les_init_def)
    show ?thesis
    proof (cases b)
      case True
      then have "commit E txn params ter eff s g = (r, g')" using assms(2) False p by (simp add: applyTransaction_def Let_def)
      from commit_records [OF this] show ?thesis
        using s claim_code [of E txn params ?s ter eff s] p True by (auto simp: same_state_def recorded_def hasTransaction_def framed_def
            split: sum.splits dest!: framesD [OF frames_calcRawMeta])
    next
      case False
      then show ?thesis using assms(2) \<open>getTransactionID E txn \<noteq> 0\<close> p s by (auto simp: applyTransaction_def Let_def)
    qed
  qed
qed (use assms in \<open>auto simp: applyTransaction_def\<close>)

lemma example_calc_frames: "calc_frames example_env"
  by (simp add: calc_frames_def example_env_def frames_ret)

text \<open>C1: The engine is all or nothing. If \<open>applyTransaction\<close> returns without applying, the ledger's
  account state, transaction map, sequence and coin total are what they were. If it reports that it
  applied the transaction, the transaction was not in the ledger before and has been added to it,
  and the code is a success, or a claimed fee on a run that is not a retry. If it throws, no
  transaction has been recorded. The path calculation is only assumed to keep the ledger under
  the entry set, as all operations on a set do.
\<close>

theorem apply_all_or_nothing:
  assumes "calc_frames E" "applyTransaction E txn params g = (r, g')"
  shows "case r of
      Inl er \<Rightarrow> mTransactionMap (eLedger g') = mTransactionMap (eLedger g)
    | Inr (ter, applied, effects) \<Rightarrow>
        if applied
        then recorded (getTransactionID E txn) (eLedger g) (eLedger g') \<and>
             (isTesSuccess ter \<or> isTecClaim ter \<and> params AND tapRETRY = 0)
        else same_state (eLedger g) (eLedger g')"
  using assms by (rule apply_records)

theorem apply_all_or_nothing_witness:
  "\<exists>g. applyTransaction example_env example_fee_tx tapNONE (TransactionEngine empty_ledger) = (Inr (tesSUCCESS, True, []), g) \<and>
     recorded 77 empty_ledger (eLedger g)"
proof -
  obtain g where g: "applyTransaction example_env example_fee_tx tapNONE (TransactionEngine empty_ledger) = (Inr (tesSUCCESS, True, []), g)"
    using example_fee_applied by blast
  have "recorded 77 empty_ledger (eLedger g)"
    using apply_all_or_nothing [OF example_calc_frames g] by (simp add: TransactionEngine_def)
  with g show ?thesis by blast
qed

lemma apply_keeps_transactions:
  assumes "calc_frames E" "applyTransaction E txn params g = (r, g')" "smap_valid (mTransactionMap (eLedger g))"
  shows "smap_valid (mTransactionMap (eLedger g'))" "hasTransaction (eLedger g) i \<Longrightarrow> hasTransaction (eLedger g') i"
  using apply_records [OF assms(1,2)] recorded_has [OF _ assms(3)] assms(3)
  by (auto simp: same_state_def hasTransaction_def split: sum.splits if_splits)

lemma steps_keep_transactions:
  "engine_steps g g' \<Longrightarrow> smap_valid (mTransactionMap (eLedger g)) \<Longrightarrow>
    smap_valid (mTransactionMap (eLedger g')) \<and> (hasTransaction (eLedger g) i \<longrightarrow> hasTransaction (eLedger g') i)"
  by (induction rule: engine_steps.induct) (auto dest: apply_keeps_transactions)

text \<open>C6: A transaction is applied at most once. Once the engine has applied a transaction, then whatever
  transactions it is given afterwards, and in whatever environments, offering it a transaction
  with the same identifier again never applies it: if the engine returns, it reports so and the account state
  and the transaction map are unchanged, and if it throws, the transaction map is.
\<close>

theorem applied_at_most_once:
  assumes "smap_valid (mTransactionMap (eLedger g))" "calc_frames E"
    and "applyTransaction E txn params g = (Inr (ter, True, eff), g1)"
    and "engine_steps g1 g2" "calc_frames E'" "getTransactionID E' txn' = getTransactionID E txn"
    and "applyTransaction E' txn' params' g2 = (r, g3)"
  shows "case r of
      Inl er \<Rightarrow> mTransactionMap (eLedger g3) = mTransactionMap (eLedger g2)
    | Inr (ter', applied, eff') \<Rightarrow> \<not> applied \<and> same_state (eLedger g2) (eLedger g3)"
proof -
  have "hasTransaction (eLedger g1) (getTransactionID E txn)" "smap_valid (mTransactionMap (eLedger g1))"
    using apply_records [OF assms(2,3)] recorded_has [OF _ assms(1)] by auto
  then have "hasTransaction (eLedger g2) (getTransactionID E' txn')"
    using steps_keep_transactions [OF assms(4)] assms(6) by simp
  then show ?thesis using apply_records [OF assms(5,7)] by (auto simp: recorded_def split: if_splits sum.splits)
qed

theorem applied_at_most_once_witness:
  "\<exists>g1 ter applied eff g3.
     applyTransaction example_env example_fee_tx tapNONE (TransactionEngine empty_ledger) = (Inr (tesSUCCESS, True, []), g1) \<and>
     applyTransaction example_env example_fee_tx tapOPEN_LEDGER g1 = (Inr (ter, applied, eff), g3) \<and>
     \<not> applied \<and> same_state (eLedger g1) (eLedger g3)"
proof -
  obtain g1 where g1: "applyTransaction example_env example_fee_tx tapNONE (TransactionEngine empty_ledger) = (Inr (tesSUCCESS, True, []), g1)"
    using example_fee_applied by blast
  obtain g3 where g3: "applyTransaction example_env example_fee_tx tapOPEN_LEDGER g1 = (Inr (temINVALID, False, []), g3)"
    using example_fee_refused by blast
  have v: "smap_valid (mTransactionMap (eLedger (TransactionEngine empty_ledger)))"
    by (simp add: TransactionEngine_def empty_ledger_def smap_valid_def)
  show ?thesis
    using g1 g3 applied_at_most_once [OF v example_calc_frames g1 no_call example_calc_frames refl g3] by auto
qed

end
