(* ===== verification/TransactorLaws.thy ===== *)
theory TransactorLaws
  imports Frames
begin

text \<open>
  Laws of single transactors: the merge of accounts, which is always refused; the
  authorization of the parts of a batch; and the nesting of batches, for which the fuel of the
  model is enough.
\<close>

definition example_merge_tx :: sttx where
  "example_merge_tx =
     \<lparr>txType = ttACCOUNT_MERGE,
      txFields = [sfAccount \<mapsto> STAccount (Some 11), sfDestination \<mapsto> STAccount (Some 12)], sigState = None\<rparr>"

definition example_batch_tx :: sttx where
  "example_batch_tx =
     \<lparr>txType = ttOPERATION,
      txFields = [sfAccount \<mapsto> STAccount (Some 11), sfOperations \<mapsto> STArray [[(sfTransactionType, STUInt16 0)]]], sigState = None\<rparr>"

text \<open>
  The specification of the authorization by signers: the weights of the entries whose account has
  signed.
\<close>

definition signer_entry :: "(sfield \<times> stvar) list \<Rightarrow> Account \<Rightarrow> u16 \<Rightarrow> bool" where
  "signer_entry en a w \<longleftrightarrow> obj_AccountID sfAccount en = Inr a \<and> obj_get asU16 sfWeight en = Inr w"

fun signed_weight :: "Account set \<Rightarrow> (Account \<times> u16) list \<Rightarrow> int" where
  "signed_weight signers [] = 0"
| "signed_weight signers ((a, w) # es) = (if a \<in> signers then uint w else 0) + signed_weight signers es"

definition signer_list_is :: "sle option \<Rightarrow> (int \<times> int \<times> (Account \<times> u16) list) option \<Rightarrow> bool" where
  "signer_list_is q l \<longleftrightarrow>
     (case (q, l) of
        (None, None) \<Rightarrow> True
      | (Some q, Some (quorum, master, es)) \<Rightarrow>
          map_sum id sint (getFieldU32 sfQuorum q) = Inr quorum \<and> map_sum id uint (getFieldU16 sfMasterWeight q) = Inr master \<and>
          (\<exists>entries. getFieldArray sfSignerEntries q = Inr entries \<and> list_all2 (\<lambda>en (a, w). signer_entry en a w) entries es)
      | _ \<Rightarrow> False)"

text \<open>Who may sign for an account: the account itself unless its master key is disabled; anybody if its regular key is the
  account itself; and otherwise the signers of its list.\<close>

definition quorum_reached :: "Account set \<Rightarrow> (int \<times> int \<times> (Account \<times> u16) list) option \<Rightarrow> bool" where
  "quorum_reached signers l \<longleftrightarrow>
     (case l of None \<Rightarrow> False
      | Some (quorum, master, es) \<Rightarrow> signers \<noteq> {} \<and> 0 \<le> quorum \<and> quorum \<le> master + signed_weight signers es)"

definition part_verdict :: "Account \<Rightarrow> Account set \<Rightarrow> sle \<Rightarrow> (int \<times> int \<times> (Account \<times> u16) list) option \<Rightarrow> u32 \<Rightarrow> TER \<times> u32" where
  "part_verdict acc signers e l params =
     (if acc \<in> signers then
        if isFlag lsfDisableMaster e then (tefMASTER_DISABLED, params) else (tesSUCCESS, params OR tapMASTER_SIGN)
      else if isFieldPresent sfRegularKey e \<and> getFieldAccount160 sfRegularKey e = Inr acc \<or> quorum_reached signers l
      then (tesSUCCESS, params)
      else (tefBAD_AUTH, params))"

definition example_signers :: "(sfield \<times> stvar) list list" where
  "example_signers = [[(sfAccount, STAccount (Some 13)), (sfWeight, STUInt16 3)], [(sfAccount, STAccount (Some 14)), (sfWeight, STUInt16 9)]]"

definition example_signer_list :: sle where
  "example_signer_list =
     put sfSignerEntries (STArray example_signers) (put sfMasterWeight (STUInt16 2) (put sfQuorum (STUInt32 5)
       (new_entry ltSIGNER_LIST (getSignStateIndex (app_sha512 example_app) 11))))"

subsection \<open>Merging accounts\<close>

lemma merge_preCheck:
  assumes "AccountMerge_preCheck E (new_transactor txn params) s = Inr ((ter, t), s')"
  shows "ter \<in> {temINVALID_FLAG, temDST_NEEDED, telBLKLIST, temBAD_SRC_ACCOUNT} \<and> t = new_transactor txn params \<and> s' = s"
  using assms unfolding AccountMerge_preCheck_def
  by (auto simp: new_transactor_def bindM_def liftM_def retM_def split: sum.splits if_splits)

lemma merge_run:
  assumes "run_ops AccountMerge_ops E txn params s = Inr ((ter, eff), s')"
  shows "ter \<in> {temINVALID_FLAG, temDST_NEEDED, telBLKLIST, temBAD_SRC_ACCOUNT} \<and> eff = [] \<and> s' = s"
proof -
  have op: "op_preCheck AccountMerge_ops = AccountMerge_preCheck" by (simp add: AccountMerge_ops_def)
  obtain t0 ter0 s0 where pre: "AccountMerge_preCheck E (new_transactor txn params) s = Inr ((ter0, t0), s0)"
    using assms by (auto simp: run_ops_def apply_ops_def lazy_eqs op bindE_eq_Inr)
  note m = merge_preCheck [OF this]
  then have "ter0 \<noteq> tesSUCCESS" by (auto simp: ters)
  then show ?thesis using assms pre m by (auto simp: run_ops_def apply_ops_def lazy_eqs op new_transactor_def)
qed

text \<open>C14: An \<open>AccountMerge\<close> transaction is never applied, whoever sends it: its check of the source
  account compares two members that still have their initial value, and so refuses every
  transaction that passes the checks before it. Only four codes are possible, none of which
  claims a fee, and the account state is unchanged.
\<close>

theorem account_merge_never_applies:
  assumes "txType txn = ttACCOUNT_MERGE" "applyTransaction E txn params g = (Inr (ter, applied, eff), g')"
  shows "\<not> applied \<and> ter \<in> {temINVALID_FLAG, temDST_NEEDED, telBLKLIST, temBAD_SRC_ACCOUNT} \<and> eLedger g' = eLedger g"
proof (cases "getTransactionID E txn = 0")
  case False
  let ?s = "les_init (eLedger g) (getTransactionID E txn) (mLedgerSeq (eLedger g)) params (mNodes g)"
  have tr: "transact E txn params = run_ops AccountMerge_ops E txn params"
    using assms(1) by (simp add: transact_def simple_ops_def)
  have proc: "process E txn params ?s = Inr ((t, b, f), s) \<Longrightarrow>
      \<not> b \<and> t \<in> {temINVALID_FLAG, temDST_NEEDED, telBLKLIST, temBAD_SRC_ACCOUNT} \<and> s = ?s" for t b f s
    by (auto simp: process_def tr lazy_eqs bindE_eq_Inr isTecClaim_def isTesSuccess_def ters dest!: merge_run split: if_splits)
  obtain t b f s where p: "process E txn params ?s = Inr ((t, b, f), s)"
    using assms(2) False by (auto simp: applyTransaction_def Let_def split: sum.splits)
  have "mLedger ?s = eLedger g" by (simp add: les_init_def)
  then show ?thesis using proc [OF p] p assms(2) False by (auto simp: applyTransaction_def Let_def)
qed (use assms in \<open>auto simp: applyTransaction_def\<close>)

lemma example_merge_refused:
  "\<exists>g. applyTransaction example_env example_merge_tx tapNONE (TransactionEngine (ledger_with [example_root 11 100, example_root 12 1])) =
     (Inr (temBAD_SRC_ACCOUNT, False, []), g)"
proof -
  have tx: "txType example_merge_tx = ttACCOUNT_MERGE" "tx_getFlags example_merge_tx = 0" "txAccount160 sfDestination example_merge_tx = Inr 12"
    by (simp_all add: example_merge_tx_def tx_getFlags_def tx_eval)
  have ops: "op_preCheck AccountMerge_ops = AccountMerge_preCheck" by (simp add: AccountMerge_ops_def)
  have blk: "\<not> checkBlackList example_app empty_ledger 12"
    by (simp add: checkBlackList_def getASNode_def empty_ledger_def getSLE_def)
  show ?thesis
    by (simp add: engine_eval apply_eval set_eval ops AccountMerge_preCheck_def tx has_def blk ters cong: lazy_cong)
qed

theorem account_merge_never_applies_witness:
  "\<exists>g'. applyTransaction example_env example_merge_tx tapNONE (TransactionEngine (ledger_with [example_root 11 100, example_root 12 1])) =
     (Inr (temBAD_SRC_ACCOUNT, False, []), g') \<and> eLedger g' = ledger_with [example_root 11 100, example_root 12 1]"
proof -
  have ty: "txType example_merge_tx = ttACCOUNT_MERGE" by (simp add: example_merge_tx_def)
  show ?thesis using example_merge_refused account_merge_never_applies [OF ty] by (fastforce simp: TransactionEngine_def)
qed

subsection \<open>Nested batches\<close>

lemma run_parts_cong:
  assumes "\<And>txn params. txn \<in> set txns \<Longrightarrow> run txn params = run' txn params"
  shows "run_parts run signers txns ter E t = run_parts run' signers txns ter E t"
  using assms
proof (induction txns arbitrary: ter t)
  case (Cons txn txns)
  show ?case
    using Cons.prems [of txn] Cons.IH [OF Cons.prems] unfolding run_parts.simps Let_def by (simp cong: if_cong)
qed simp

text \<open>The methods of the base class keep the transaction but for what is known about its signature.\<close>

definition same_tx :: "transactor \<Rightarrow> transactor \<Rightarrow> bool" where
  "same_tx t t' \<longleftrightarrow> txType (mTxn t') = txType (mTxn t) \<and> txFields (mTxn t') = txFields (mTxn t)"

definition yields :: "('a \<Rightarrow> bool) \<Rightarrow> 'a lesM \<Rightarrow> bool" where
  "yields Q m \<longleftrightarrow> (\<forall>s x s'. m s = Inr (x, s') \<longrightarrow> Q x)"

named_theorems yields_rules

lemma yieldsD: "yields Q m \<Longrightarrow> m s = Inr (x, s') \<Longrightarrow> Q x"
  by (auto simp: yields_def)

lemma yields_ret [yields_rules]: "Q x \<Longrightarrow> yields Q (retM x)"
  by (simp add: yields_def retM_def)

lemma yields_bind [yields_rules]: "(\<And>x. yields Q (f x)) \<Longrightarrow> yields Q (bindM m f)"
  by (auto simp: yields_def bindM_def split: sum.splits)

lemma yields_if [yields_rules]: "(b \<Longrightarrow> yields Q m) \<Longrightarrow> (\<not> b \<Longrightarrow> yields Q m') \<Longrightarrow> yields Q (if b then m else m')"
  by simp

lemma yields_let [yields_rules]: "(\<And>y. y = x \<Longrightarrow> yields Q (f y)) \<Longrightarrow> yields Q (let y = x in f y)"
  by simp

lemma yields_prod [yields_rules]: "(\<And>a b. p = (a, b) \<Longrightarrow> yields Q (f a b)) \<Longrightarrow> yields Q (case p of (a, b) \<Rightarrow> f a b)"
  by (cases p) simp

lemma checkSign_same: "checkSign v tx = (ok, tx') \<Longrightarrow> txType tx' = txType tx \<and> txFields tx' = txFields tx"
  by (auto simp: checkSign_def Let_def split: option.splits)

lemma same_tx_base:
  "yields (\<lambda>(ter, t'). same_tx t t') (preCheck E t)" "yields (same_tx t) (find_accounts E t)" "yields (same_tx t) (calculateFee V E t)"
  "yields (same_tx t) (read_source t)" "yields (\<lambda>(ter, t'). same_tx t t') (checkSeq E t)" "yields (same_tx t) (ensure_fee_account E t)"
  "yields (\<lambda>(ter, t'). same_tx t t') (payFee E t)" "yields (\<lambda>(ter, t'). same_tx t t') (checkSig E t)"
  unfolding preCheck_def find_accounts_def calculateFee_def read_source_def checkSeq_def ensure_fee_account_def payFee_def checkSig_def
  by (intro yields_rules; auto simp: same_tx_def setGood_def setBad_def split: if_splits dest: checkSign_same [OF sym])+

lemma same_tx_trans: "same_tx t t' \<Longrightarrow> same_tx t' t'' \<Longrightarrow> same_tx t t''" "same_tx t t"
  by (simp_all add: same_tx_def)

lemma bindM_yields: "yields Q m \<Longrightarrow> (\<And>x. Q x \<Longrightarrow> f x = g x) \<Longrightarrow> bindM m f = bindM m g"
  by (force simp: bindM_def yields_def fun_eq_iff split: sum.splits)

lemma thenT_yields: "yields (\<lambda>(ter, t). Q t) m \<Longrightarrow> (\<And>t. Q t \<Longrightarrow> f t = g t) \<Longrightarrow> thenT m f = thenT m g"
  unfolding thenT_def by (erule bindM_yields) auto

lemma yields_seq: "yields Q m \<Longrightarrow> (\<And>x. Q x \<Longrightarrow> yields R (f x)) \<Longrightarrow> yields R (bindM m f)"
  by (fastforce simp: yields_def bindM_def split: sum.splits)

lemma yields_then: "yields (\<lambda>(ter, t). Q t) m \<Longrightarrow> (\<And>t. Q t \<Longrightarrow> yields (\<lambda>(ter, t). R t) (k t)) \<Longrightarrow> (\<And>t. Q t \<Longrightarrow> R t) \<Longrightarrow>
    yields (\<lambda>(ter, t). R t) (thenT m k)"
  unfolding thenT_def by (erule yields_seq) (auto intro!: yields_ret)

lemma yields_mono: "yields Q m \<Longrightarrow> (\<And>x. Q x \<Longrightarrow> R x) \<Longrightarrow> yields R m"
  by (auto simp: yields_def)

lemma apply_base_cong:
  assumes fg: "\<And>t'. same_tx t t' \<Longrightarrow> f E t' = g E t'"
  shows "apply_ops (base_ops f) E t = apply_ops (base_ops g) E t"
proof -
  define fee where "fee = calculateFee (base_ops f)"
  have ops: "op_preCheck (base_ops h) = preCheck" "op_checkSeq (base_ops h) = checkSeq" "op_payFee (base_ops h) = payFee"
    "op_checkSig (base_ops h) = checkSig" "op_doApply (base_ops h) = h" "op_mustHaveValidAccount (base_ops h) = True"
    "calculateFee (base_ops h) = fee" for h
    by (simp_all add: fee_def base_ops_def calculateFee_def fun_eq_iff)
  have seq_fee: "yields (\<lambda>(ter, t'). same_tx u t') (thenT (checkSeq E u) (\<lambda>t. bindM (ensure_fee_account E t) (payFee E)))" for u
    by (rule yields_then [OF same_tx_base(5)], rule yields_seq [OF same_tx_base(6)], rule yields_mono [OF same_tx_base(7)])
      (auto dest: same_tx_trans(1))
  have checked: "yields (\<lambda>(ter, t'). same_tx u t')
      (if hasParam tapPRE_CHECKED u then retM (tesSUCCESS, u)
       else thenT (checkSeq E u) (\<lambda>t. bindM (ensure_fee_account E t) (payFee E)))" for u
    using seq_fee by (simp add: yields_ret same_tx_trans(2))
  have src: "yields (same_tx u) (if mTxnAccount u = None then retM u else read_source u)" for u
    by (simp add: yields_ret same_tx_trans(2) same_tx_base)
  have fee: "yields (same_tx u) (fee E u)" for u by (simp add: fee_def same_tx_base)
  have later: "same_tx t u \<Longrightarrow> yields (same_tx u) m \<Longrightarrow> yields (same_tx t) m" for u m
    by (erule yields_mono) (rule same_tx_trans(1))
  have later': "same_tx t u \<Longrightarrow> yields (\<lambda>(ter, t'). same_tx u t') m \<Longrightarrow> yields (\<lambda>(ter, t'). same_tx t t') m" for u and m :: "(TER \<times> transactor) lesM"
    by (erule yields_mono) (auto intro: same_tx_trans(1))
  note steps = later [OF _ same_tx_base(2)] later [OF _ fee] later [OF _ src] later' [OF _ checked]
    later' [OF _ same_tx_base(8)]
  show ?thesis
    unfolding apply_ops_def ops
    apply (rule thenT_yields [where Q = "same_tx t", OF same_tx_base(1)])
    apply (rule bindM_yields [OF steps(1)], assumption)
    apply (rule bindM_yields [OF steps(2)], assumption)
    apply (rule if_cong [OF refl refl])
    apply (rule bindM_yields [OF steps(3)], assumption)
    apply (rule thenT_yields [where Q = "same_tx t", OF steps(4)], assumption)
    apply (rule thenT_yields [where Q = "same_tx t", OF steps(5)], assumption)
    apply (simp add: fg)
    done
qed

text \<open>The parts of a batch are nested less deep than the batch.\<close>

lemma depth_member:
  "x \<in> set xs \<Longrightarrow> fields_depth x \<le> objects_depth xs" "(f, v) \<in> set fs \<Longrightarrow> stvar_depth v \<le> fields_depth fs"
  by (induction xs) (auto, induction fs, auto)

lemma take_field_sub: "take_field f fs = (r, fs') \<Longrightarrow> set fs' \<subseteq> set fs \<and> (\<forall>v. r = Some v \<longrightarrow> (f, v) \<in> set fs)"
  by (induction fs arbitrary: r fs') (fastforce split: if_splits prod.splits)+

lemma setType_loop_sub: "setType_loop es fs = (b, out, fs') \<Longrightarrow> set out \<subseteq> set fs"
proof (induction es arbitrary: fs b out fs')
  case (Cons e es)
  obtain f flag where e: "e = (f, flag)" by (cases e)
  obtain v fs1 b1 out1 fs2 where s: "take_field f fs = (v, fs1)" "setType_loop es fs1 = (b1, out1, fs2)"
    by (metis prod_cases3 surj_pair)
  show ?case using Cons.IH [OF s(2)] take_field_sub [OF s(1)] Cons.prems e s by (auto split: option.splits)
qed simp

lemma part_depth:
  assumes "STTx_of_object x = Inr txn" "x \<in> set xs"
  shows "batch_depth txn \<le> Suc (objects_depth xs)"
proof -
  obtain c es where c: "obj_get asU16 sfTransactionType x = Inr c" "tx_findByType (tx_type_of c) = Some es"
    using assms(1) by (auto simp: STTx_of_object_def bindE_eq_Inr split: option.splits)
  obtain b out where "setType es x = (b, out)" by (cases "setType es x")
  with c assms(1) have o: "setType es x = (True, out)" "txFields txn = map_of out"
    by (auto simp: STTx_of_object_def split: bool.splits)
  then have "set out \<subseteq> set x" by (auto simp: setType_def split: prod.splits dest: setType_loop_sub)
  then show ?thesis
    using o(2) depth_member(1) [OF assms(2)] depth_member(2) [of sfOperations _ x]
    by (fastforce simp: batch_depth_def split: option.splits dest!: map_of_SomeD)
qed

lemma batch_parts_depth:
  assumes "getSTTxs txn = Inr parts" "part \<in> set parts" "txType txn = ttOPERATION"
  shows "batch_depth part < batch_depth txn"
proof -
  have mapE: "mapE h xs = Inr ys \<Longrightarrow> y \<in> set ys \<Longrightarrow> \<exists>x\<in>set xs. h x = Inr y" for h :: "(sfield \<times> stvar) list \<Rightarrow> sttx result" and xs ys y
    by (induction xs arbitrary: ys) (auto simp: bindE_eq_Inr)
  obtain xs where xs: "txArray sfOperations txn = Inr xs" "mapE STTx_of_object xs = Inr parts"
    using assms(1,3) by (auto simp: getSTTxs_def bindE_eq_Inr split: sum.splits)
  then obtain x where x: "x \<in> set xs" "STTx_of_object x = Inr part" using mapE assms(2) by blast
  then have "txFields txn sfOperations = Some (STArray xs)"
    using xs(1) by (auto simp: txArray_def tx_getFieldBy_def asArray_def split: if_splits option.splits stvar.splits)
  then show ?thesis using part_depth [OF x(2,1)] by (simp add: batch_depth_def)
qed

lemma same_tx_batch: "same_tx t t' \<Longrightarrow> getSTTxs (mTxn t') = getSTTxs (mTxn t) \<or> txType (mTxn t) \<noteq> ttOPERATION"
  by (auto simp: same_tx_def getSTTxs_def txArray_def tx_getFieldBy_def tx_hasField_def)



subsection \<open>Authorizing the parts of a batch\<close>

lemma signed_weight_nonneg: "0 \<le> signed_weight signers es"
  by (induction signers es rule: signed_weight.induct) auto

lemma signers_weigh_total:
  assumes "list_all2 (\<lambda>en (a, w). signer_entry en a w) entries es" "0 < q"
  shows "signers_weigh signers q entries = Inr (q \<le> signed_weight signers es)"
  using assms
proof (induction entries es arbitrary: q rule: list_all2_induct)
  case (Cons en entries e es)
  obtain a w where e: "e = (a, w)" by (cases e)
  then have en: "obj_AccountID sfAccount en = Inr a" "obj_get asU16 sfWeight en = Inr w"
    using Cons.hyps(1) by (auto simp: signer_entry_def)
  show ?case
    using Cons.IH [of q] Cons.IH [of "q - uint w"] Cons.prems e en signed_weight_nonneg [of signers es] by (auto simp: Let_def)
qed simp

lemma signer_listE:
  assumes "signer_list_is (Some q) l"
  obtains quorum w es entries where "l = Some (sint quorum, uint w, es)" "getFieldU32 sfQuorum q = Inr quorum"
    "getFieldU16 sfMasterWeight q = Inr w" "getFieldArray sfSignerEntries q = Inr entries"
    "list_all2 (\<lambda>en (a, w). signer_entry en a w) entries es"
  using assms unfolding signer_list_is_def
  by (cases "getFieldU32 sfQuorum q"; cases "getFieldU16 sfMasterWeight q"; cases l) auto

lemma regular_key_read:
  assumes "entry_ok e" "isFieldPresent sfRegularKey e"
  obtains k where "getFieldAccount160 sfRegularKey e = Inr k"
  using accessor_fails(6) [OF assms(1), of sfRegularKey] assms(2)
  by (cases "getFieldAccount160 sfRegularKey e") (auto simp: read_fails_def isFieldPresent_def sfields)

lemma signers_checked:
  assumes st: "st s V L {} {} R" and some: "signers \<noteq> {}" and list: "signer_list_is (V k) l"
  shows "runs (bindM (entryCache k) (\<lambda>q.
      if q = None then retM (tefBAD_AUTH, params)
      else bindM (fieldM (getFieldU32 sfQuorum) q) (\<lambda>quorum.
        let saQuorum = sint quorum
        in if saQuorum = 0 then retM (tesSUCCESS, params)
           else if saQuorum < 0 then retM (tefBAD_AUTH, params)
           else bindM (fieldM (getFieldU16 sfMasterWeight) q) (\<lambda>w.
             let saQuorum = saQuorum - uint w
             in if saQuorum \<le> 0 then retM (tesSUCCESS, params)
                else bindM (fieldM (getFieldArray sfSignerEntries) q) (\<lambda>es.
                  bindM (liftM (signers_weigh signers saQuorum es)) (\<lambda>ok.
                    retM (if ok then tesSUCCESS else tefBAD_AUTH, params))))))) s
    (\<lambda>x s'. x = (if quorum_reached signers l then tesSUCCESS else tefBAD_AUTH, params) \<and> les_ok s' \<and> view s' = V)"
proof (cases "V k")
  case None
  then have "l = None" using list by (cases l) (auto simp: signer_list_is_def)
  then show ?thesis unfolding runs_bind
    by (intro runs_cache [OF st]) (use None in \<open>auto simp: quorum_reached_def dest: st_les_ok\<close>)
next
  case (Some q)
  then obtain quorum w es entries where l: "l = Some (sint quorum, uint w, es)" and get: "getFieldU32 sfQuorum q = Inr quorum"
    "getFieldU16 sfMasterWeight q = Inr w" "getFieldArray sfSignerEntries q = Inr entries"
    and es: "list_all2 (\<lambda>en (a, w). signer_entry en a w) entries es"
    using list by (auto elim: signer_listE)
  have weigh: "0 < sint quorum - uint w \<Longrightarrow>
      signers_weigh signers (sint quorum - uint w) entries = Inr (sint quorum - uint w \<le> signed_weight signers es)"
    using signers_weigh_total [OF es] by blast
  have nonneg: "0 \<le> signed_weight signers es" "0 \<le> uint w" by (simp_all add: signed_weight_nonneg)
  show ?thesis unfolding runs_bind
  proof (rule runs_cache [OF st], goal_cases)
    case (1 s')
    then have st': "st s' V (insert k L) {} {} R" using Some by simp
    note f = runs_field_eq(1) [OF st' insertI1 Some] and ok = st_les_ok [OF st']
    show ?case using nonneg weigh ok some by (auto simp: Some l get Let_def runs_bind f quorum_reached_def)
  qed
qed

text \<open>C12: The authorization of a part of a batch, completely. A part whose account has signed the batch is authorized
  by its master key unless that is disabled. One whose account has not signed is authorized exactly if the account is its
  own regular key, whoever signed, or if somebody signed, the account has a list of signers, and its quorum is not
  negative and reached by the account's own master weight together with the weights of the entries whose accounts have
  signed. The master weight counts although the master key did not sign: an account whose master weight
  reaches its quorum can be used by any signer whatsoever. The entries seen in the set stay the same.
\<close>

theorem batch_part_quorum:
  assumes "les_ok s" "getSourceAccountID txn = Inr acc" "view s (getAccountRootIndex (sha E) acc) = Some e"
    and "signer_list_is (view s (getSignStateIndex (sha E) acc)) l"
  shows "\<exists>s'. precheckSig E signers txn params s = Inr (part_verdict acc signers e l params, s') \<and>
    les_ok s' \<and> view s' = view s"
proof -
  have e: "entry_ok e" using st_view [OF assms(1) [unfolded les_ok_st] assms(3)] by simp
  have own: "isFieldPresent sfRegularKey e \<Longrightarrow> \<exists>k. getFieldAccount160 sfRegularKey e = Inr k"
    by (rule regular_key_read [OF e]) auto
  have "runs (precheckSig E signers txn params) s (\<lambda>x s'. x = part_verdict acc signers e l params \<and> les_ok s' \<and> view s' = view s)"
    unfolding precheckSig_def runs_bind
    apply (simp add: assms(2) split del: if_split)
    apply (rule runs_cache, rule assms(1) [unfolded les_ok_st])
    apply (simp add: assms(3) split del: if_split)
    apply (rule runs_deref, assumption, simp, rule assms(3))
    subgoal premises st for s1
    proof -
      have keep: "les_ok s1 \<and> view s1 = view s" using st_les_ok [OF st] by simp
      consider (signed) "acc \<in> signers"
        | (own) "acc \<notin> signers" "isFieldPresent sfRegularKey e \<and> getFieldAccount160 sfRegularKey e = Inr acc"
        | (none) "acc \<notin> signers" "\<not> (isFieldPresent sfRegularKey e \<and> getFieldAccount160 sfRegularKey e = Inr acc)" "signers = {}"
        | (listed) "acc \<notin> signers" "\<not> (isFieldPresent sfRegularKey e \<and> getFieldAccount160 sfRegularKey e = Inr acc)" "signers \<noteq> {}"
        by blast
      then show ?thesis
      proof cases
        case listed
        have v: "part_verdict acc signers e l params = (if quorum_reached signers l then tesSUCCESS else tefBAD_AUTH, params)"
          using listed(1,2) by (auto simp: part_verdict_def)
        note run = signers_checked [OF st listed(3) assms(4), of params, unfolded runs_bind]
        show ?thesis
        proof (cases "isFieldPresent sfRegularKey e")
          case True
          then obtain k where "getFieldAccount160 sfRegularKey e = Inr k" "acc \<noteq> k" using own listed(2) by auto
          then show ?thesis using run listed(1,3) True unfolding v by (simp add: runs_bind split del: if_split)
        next
          case False
          then show ?thesis using run listed(1,3) unfolding v by (simp add: runs_bind split del: if_split)
        qed
      qed (use keep own in \<open>auto simp: runs_bind part_verdict_def quorum_reached_def split: option.split\<close>)
    qed
    done
  then show ?thesis by (auto elim!: runsE)
qed

lemma example_signer_list_simps:
  "entry_ok example_signer_list" "sleIndex example_signer_list = getSignStateIndex (app_sha512 example_app) 11"
  "getFieldU32 sfQuorum example_signer_list = Inr 5" "getFieldU16 sfMasterWeight example_signer_list = Inr 2"
  "getFieldArray sfSignerEntries example_signer_list = Inr example_signers"
proof -
  have "findByType ltSIGNER_LIST \<noteq> None" by (simp add: findByType_def)
  note n = new_entry_ok [OF this]
  have h: "hasField sfQuorum x" "hasField sfMasterWeight x" "hasField sfSignerEntries x" if "sleType x = ltSIGNER_LIST" for x
    using that by (simp_all add: template_defs)
  have ty: "fieldType sfQuorum = STI_UINT32" "fieldType sfMasterWeight = STI_UINT16" "fieldType sfSignerEntries = STI_ARRAY"
    "sfQuorum \<noteq> sfMasterWeight" "sfQuorum \<noteq> sfSignerEntries" "sfMasterWeight \<noteq> sfSignerEntries"
    by (simp_all add: sfields)
  show "entry_ok example_signer_list" unfolding example_signer_list_def
    by (intro entry_ok_put h) (simp_all add: n ty)
  show "sleIndex example_signer_list = getSignStateIndex (app_sha512 example_app) 11" by (simp add: example_signer_list_def n)
  have t: "sleType example_signer_list = ltSIGNER_LIST" by (simp add: example_signer_list_def n)
  show "getFieldU32 sfQuorum example_signer_list = Inr 5" "getFieldU16 sfMasterWeight example_signer_list = Inr 2"
    "getFieldArray sfSignerEntries example_signer_list = Inr example_signers"
    using h [OF t] ty by (simp_all add: getFieldU32_def getFieldU16_def getFieldArray_def getFieldBy_def)
      (simp_all add: example_signer_list_def put_def)
qed

lemma example_root_no_key: "\<not> isFieldPresent sfRegularKey (example_root acc n)"
  by (simp add: example_root_def isFieldPresent_def put_def new_entry_def STLedgerEntry_def findByType_def setFieldU16_def setField_def
      hasField_def addCommonFields_def set_template_def sfields)

theorem batch_part_quorum_witness:
  "\<exists>s'. precheckSig example_env {13} example_merge_tx tapNONE (set_with [example_root 11 100, example_signer_list]) =
     Inr ((tesSUCCESS, tapNONE), s')"
proof -
  let ?i = "getAccountRootIndex (app_sha512 example_app) 11" and ?k = "getSignStateIndex (app_sha512 example_app) 11"
  let ?s = "set_with [example_root 11 100, example_signer_list]"
  have k: "?i \<noteq> ?k" "?i \<noteq> 0" "?k \<noteq> 0" by (simp_all add: key_eval getSignStateIndex_def spaceSign_def)
  have s: "les_ok ?s" "view ?s (getAccountRootIndex (sha example_env) 11) = Some (example_root 11 100)"
    "view ?s (getSignStateIndex (sha example_env) 11) = Some example_signer_list"
    using set_with_ok [of "[example_root 11 100, example_signer_list]"] k
    by (auto simp: example_root_simps example_signer_list_simps)
  have tx: "getSourceAccountID example_merge_tx = Inr 11" by (simp add: example_merge_tx_def tx_eval)
  have en: "list_all2 (\<lambda>en (a, v). signer_entry en a v) example_signers [(13, 3), (14, 9)]"
    by (simp add: example_signers_def signer_entry_def obj_AccountID_def obj_get_def asAccount_def asU16_def sfields)
  have l: "signer_list_is (view ?s (getSignStateIndex (sha example_env) 11)) (Some (5, 2, [(13, 3), (14, 9)]))"
    unfolding s(3) using en by (simp add: signer_list_is_def example_signer_list_simps)
  show ?thesis
    using batch_part_quorum [OF s(1) tx s(2) l, of "{13}" tapNONE]
    by (auto simp: part_verdict_def quorum_reached_def example_root_no_key)
qed

end
