(* ===== verification/KeyLaws.thy ===== *)
theory KeyLaws
  imports Frames
begin

text \<open>
  The keys of an account: \<open>SetAccount\<close> and \<open>SetRegularKey\<close> never leave an account that could use
  its master key or a regular key with neither. The proof is a small Hoare logic for what a
  method does to one entry of the set.
\<close>

unbundle bit_operations_syntax

text \<open>An account that can still be used: the master key is enabled, or there is a regular key.\<close>

definition keyed :: "sle \<Rightarrow> bool" where
  "keyed e \<longleftrightarrow> \<not> isFlag lsfDisableMaster e \<or> isFieldPresent sfRegularKey e"

definition root_in :: "u256 \<Rightarrow> (sle \<Rightarrow> bool) \<Rightarrow> les \<Rightarrow> bool" where
  "root_in i P s \<longleftrightarrow> ledger_ok (mLedger s) \<and>
     (\<exists>e. map_of (mEntries s) i = Some e \<and> sleType (mEntry e) = ltACCOUNT_ROOT \<and> P (mEntry e))"

text \<open>What is known of the entry while the other fields change: its flags and whether it has a regular key.\<close>

definition with_keys :: "u32 \<Rightarrow> bool \<Rightarrow> sle \<Rightarrow> bool" where
  "with_keys fl b e \<longleftrightarrow> getFlags e = fl \<and> isFieldPresent sfRegularKey e = b"

definition hoare :: "(les \<Rightarrow> bool) \<Rightarrow> 'a lesM \<Rightarrow> ('a \<Rightarrow> les \<Rightarrow> bool) \<Rightarrow> bool" where
  "hoare I m Q \<longleftrightarrow> (\<forall>s x s'. I s \<longrightarrow> m s = Inr (x, s') \<longrightarrow> Q x s')"

definition example_key_tx :: sttx where
  "example_key_tx = \<lparr>txType = ttREGULAR_KEY_SET, txFields = [sfAccount \<mapsto> STAccount (Some 11)], sigState = None\<rparr>"

definition example_keyed_root :: les_entry where
  "example_keyed_root =
     \<lparr>mEntry = put sfRegularKey (STAccount (Some 12)) (example_root 11 100), mAction = taaMODIFY, entrySeq = 0\<rparr>"

named_theorems hoare_rules

subsection \<open>Rules\<close>

lemma map_of_smap_insert: "map_of (smap_insert k v m) = (map_of m)(k \<mapsto> v)"
  by (induction k v m rule: smap_insert.induct) (auto simp: fun_eq_iff)

lemma hoareD: "hoare I m Q \<Longrightarrow> I s \<Longrightarrow> m s = Inr (x, s') \<Longrightarrow> Q x s'"
  by (auto simp: hoare_def)

lemma hoare_ret: "(\<And>s. I s \<Longrightarrow> Q x s) \<Longrightarrow> hoare I (retM x) Q"
  by (auto simp: hoare_def retM_def)

lemma hoare_bind: "hoare I m R \<Longrightarrow> (\<And>x. hoare (R x) (f x) Q) \<Longrightarrow> hoare I (bindM m f) Q"
  by (fastforce simp: hoare_def bindM_def split: sum.splits)

lemma keep_ret [hoare_rules]: "hoare I (retM x) (\<lambda>_. I)"
  by (simp add: hoare_ret)

lemma keep_lift [hoare_rules]: "hoare I (liftM r) (\<lambda>_. I)"
  by (auto simp: hoare_def liftM_def split: sum.splits)

lemma keep_bind [hoare_rules]: "hoare I m (\<lambda>_. I) \<Longrightarrow> (\<And>x. hoare I (f x) (\<lambda>_. I)) \<Longrightarrow> hoare I (bindM m f) (\<lambda>_. I)"
  by (rule hoare_bind)

lemma keep_if [hoare_rules]: "(b \<Longrightarrow> hoare I m Q) \<Longrightarrow> (\<not> b \<Longrightarrow> hoare I m' Q) \<Longrightarrow> hoare I (if b then m else m') Q"
  by simp

lemma keep_when [hoare_rules]: "hoare I m (\<lambda>_. I) \<Longrightarrow> hoare I (whenM b m) (\<lambda>_. I)"
  by (simp add: whenM_def keep_ret)

lemma keep_deref [hoare_rules]: "hoare I (deref p) (\<lambda>_. I)"
  by (auto simp: hoare_def deref_def split: option.splits)

lemma keep_field [hoare_rules]: "hoare I (fieldM get p) (\<lambda>_. I)"
  unfolding fieldM_def by (intro hoare_rules)

lemma keep_cache [hoare_rules]: "hoare (root_in i P) (entryCache j) (\<lambda>_. root_in i P)"
proof -
  have set: "root_in i P s \<Longrightarrow> map_of (mEntries s) k = Some e \<Longrightarrow> root_in i P (set_entry k (e\<lparr>entrySeq := n\<rparr>) s)" for s k e n
    by (auto simp: root_in_def set_entry_def map_of_smap_insert)
  have new: "root_in i P s \<Longrightarrow> map_of (mEntries s) k = None \<Longrightarrow> root_in i P (set_entry k e s)" for s k e
    by (auto simp: root_in_def set_entry_def map_of_smap_insert)
  show ?thesis
    unfolding hoare_def entryCache_def
  proof (intro allI impI)
    fix s x s' assume I: "root_in i P s" and r: "(if j = 0 then retM None else bindM (getEntry j) (\<lambda>(p, action). case p of
          None \<Rightarrow> (\<lambda>s. case (if mImmutable s then getSLEi (mLedger s) j else getSLE (mLedger s) j) of None \<Rightarrow> Inr (None, s)
            | Some x \<Rightarrow> bindM (entryCache_sle x) (\<lambda>_. retM (Some (sleIndex x))) s)
        | Some i \<Rightarrow> retM (if action = taaDELETE then None else Some i))) s = Inr (x, s')"
    have idx: "getSLE (mLedger s) j = Some e \<Longrightarrow> sleIndex e = j" for e using I by (auto simp: root_in_def ledger_ok_def)
    show "root_in i P s'"
    proof (cases "map_of (mEntries s) j")
      case None
      then show ?thesis using r I idx new [OF I None]
        by (auto simp: bindM_def getEntry_def entryCache_sle_def retM_def getSLEi_def getSLE_def split: if_splits option.splits)
    next
      case (Some e)
      then show ?thesis using r I set [OF I Some] by (auto simp: bindM_def getEntry_def retM_def Let_def split: if_splits)
    qed
  qed
qed

lemma keep_update:
  assumes "\<And>e e'. P e \<Longrightarrow> sleType e = ltACCOUNT_ROOT \<Longrightarrow> upd e = Inr e' \<Longrightarrow> P e' \<and> sleType e' = ltACCOUNT_ROOT"
  shows "hoare (root_in i P) (updateM upd p) (\<lambda>_. root_in i P)"
  unfolding hoare_def
proof (intro allI impI)
  fix s x s' assume I: "root_in i P s" and r: "updateM upd p s = Inr (x, s')"
  then obtain k e y where k: "map_of (mEntries s) k = Some e" "upd (mEntry e) = Inr y"
    "s' = s\<lparr>mEntries := smap_insert k (e\<lparr>mEntry := y\<rparr>) (mEntries s)\<rparr>"
    by (auto simp: updateM_def split: option.splits sum.splits)
  then show "root_in i P s'" using I assms [of "mEntry e" y] by (auto simp: root_in_def map_of_smap_insert)
qed

lemma hoare_update:
  assumes "\<And>e e'. P e \<Longrightarrow> sleType e = ltACCOUNT_ROOT \<Longrightarrow> upd e = Inr e' \<Longrightarrow> R e' \<and> sleType e' = ltACCOUNT_ROOT"
  shows "hoare (root_in i P) (updateM upd (Some i)) (\<lambda>_. root_in i R)"
  unfolding hoare_def
proof (intro allI impI)
  fix s x s' assume I: "root_in i P s" and r: "updateM upd (Some i) s = Inr (x, s')"
  then obtain e y where k: "map_of (mEntries s) i = Some e" "upd (mEntry e) = Inr y"
    "s' = s\<lparr>mEntries := smap_insert i (e\<lparr>mEntry := y\<rparr>) (mEntries s)\<rparr>"
    by (auto simp: updateM_def split: option.splits sum.splits)
  then show "root_in i R s'" using I assms [of "mEntry e" y] by (auto simp: root_in_def map_of_smap_insert)
qed

lemma with_keys_other:
  assumes "f \<noteq> sfFlags" "f \<noteq> sfRegularKey"
  shows "with_keys fl b (e\<lparr>sleFields := (sleFields e)(f := v)\<rparr>) = with_keys fl b e"
  using assms by (simp add: with_keys_def getFlags_def isFieldPresent_def hasField_def)

lemma keep_setters:
  assumes "f \<noteq> sfFlags" "f \<noteq> sfRegularKey"
  shows "hoare (root_in i (with_keys fl b)) (updateM (setField f v) p) (\<lambda>_. root_in i (with_keys fl b))"
    "hoare (root_in i (with_keys fl b)) (updateM (makeFieldPresent f) p) (\<lambda>_. root_in i (with_keys fl b))"
    "hoare (root_in i (with_keys fl b)) (updateM (makeFieldAbsent f) p) (\<lambda>_. root_in i (with_keys fl b))"
  by (rule keep_update; auto simp: setField_def makeFieldPresent_def makeFieldAbsent_def Let_def with_keys_other [OF assms]
      split: if_splits option.splits)+

lemma other_fields:
  "sfAccountTxnID \<noteq> sfFlags" "sfAccountTxnID \<noteq> sfRegularKey" "sfEmailHash \<noteq> sfFlags" "sfEmailHash \<noteq> sfRegularKey"
  "sfWalletLocator \<noteq> sfFlags" "sfWalletLocator \<noteq> sfRegularKey" "sfMessageKey \<noteq> sfFlags" "sfMessageKey \<noteq> sfRegularKey"
  "sfDomain \<noteq> sfFlags" "sfDomain \<noteq> sfRegularKey" "sfTransferRate \<noteq> sfFlags" "sfTransferRate \<noteq> sfRegularKey"
  by (simp_all add: sfields)

lemma keep_update_if [hoare_rules]:
  "hoare I (updateM u p) Q \<Longrightarrow> hoare I (updateM v p) Q \<Longrightarrow> hoare I (updateM (if b then u else v) p) Q"
  by simp

lemma keep_SetAccount_fields:
  "hoare (root_in i (with_keys fl b)) (SetAccount_fields tx p uSet uClear) (\<lambda>_. root_in i (with_keys fl b))"
  unfolding SetAccount_fields_def copy_blob_def setFieldH128_def setFieldH256_def setFieldVL_def setFieldU32_def
  by (intro hoare_rules keep_setters other_fields)

subsection \<open>Flags\<close>

lemma and_single_bit:
  assumes "k < 32"
  shows "(x :: u32) AND push_bit k 1 = (if bit x k then push_bit k 1 else 0)" "push_bit k 1 \<noteq> (0 :: u32)"
  using assms by (auto intro!: bit_word_eqI simp: bit_and_iff bit_exp_iff push_bit_eq_0_iff)

lemma disable_bit: "(x AND lsfDisableMaster = lsfDisableMaster) = bit x 20" "has x lsfDisableMaster = bit x 20"
proof -
  have m: "lsfDisableMaster = push_bit 20 1" by (simp add: lsfDisableMaster_def)
  have a: "x AND push_bit 20 1 = (if bit x 20 then push_bit 20 1 else 0)" and z: "push_bit 20 1 \<noteq> (0 :: u32)"
    by (rule and_single_bit, simp)+
  show "(x AND lsfDisableMaster = lsfDisableMaster) = bit x 20" "has x lsfDisableMaster = bit x 20"
    unfolding m has_def a using z by auto
qed

lemma other_flags:
  "\<not> bit lsfRequireAuth 20" "\<not> bit lsfRequireDestTag 20" "\<not> bit lsfDisallowSWT 20" "\<not> bit lsfDefaultSkywell 20"
  "\<not> bit lsfNoFreeze 20" "\<not> bit lsfGlobalFreeze 20" "\<not> bit lsfPasswordSpent 20"
  by (simp_all add: tx_flags lsfRequireDestTag_def lsfDefaultSkywell_def lsfNoFreeze_def lsfGlobalFreeze_def)

lemma keep_flag: "\<not> bit f 20 \<Longrightarrow> bit (set_clear u v f x y) 20 = bit y 20" "bit (freeze_flags a c y) 20 = bit y 20"
  "bit (default_skywell_flags a c y) 20 = bit y 20"
  by (auto simp: set_clear_def freeze_flags_def default_skywell_flags_def Let_def bit_or_iff bit_and_iff bit_not_iff other_flags)

lemma keyed_bit: "keyed e \<longleftrightarrow> \<not> bit (getFlags e) 20 \<or> isFieldPresent sfRegularKey e"
  by (simp add: keyed_def isFlag_def disable_bit)

subsection \<open>The transactors\<close>

lemma flags_of_field: "getFieldU32 sfFlags e = Inr x \<Longrightarrow> getFlags e = x"
  by (auto simp: getFieldU32_def getFieldBy_def getFlags_def split: if_splits option.splits stvar.splits)

lemma hoare_flags:
  "hoare (root_in i (with_keys fl b)) (fieldM (getFieldU32 sfFlags) (Some i)) (\<lambda>x s. x = fl \<and> root_in i (with_keys fl b) s)"
  by (auto simp: hoare_def fieldM_def bindM_def deref_def liftM_def root_in_def with_keys_def flags_of_field split: sum.splits)

lemma hoare_entry:
  "hoare (root_in i (with_keys fl b)) (deref (Some i)) (\<lambda>e s. with_keys fl b e \<and> root_in i (with_keys fl b) s)"
  by (auto simp: hoare_def deref_def root_in_def)

lemma hoare_set_flags:
  assumes "bit fl' 20 \<longrightarrow> b"
  shows "hoare (root_in i (with_keys fl b)) (updateM (setFieldU32 sfFlags fl') (Some i)) (\<lambda>_. root_in i keyed)"
proof -
  have "keyed e' \<and> sleType e' = ltACCOUNT_ROOT"
    if "with_keys fl b e" "sleType e = ltACCOUNT_ROOT" "setFieldU32 sfFlags fl' e = Inr e'" for e e'
    using that assms hasField_account(5) [of e]
    by (auto simp: keyed_bit with_keys_def setFieldU32_def setField_def getFlags_def isFieldPresent_def hasField_def Let_def sfields
        split: if_splits)
  then show ?thesis by (intro hoare_update) blast
qed

lemma root_keyed: "root_in i (with_keys fl b) s \<Longrightarrow> bit fl 20 \<longrightarrow> b \<Longrightarrow> root_in i keyed s"
  by (auto simp: root_in_def with_keys_def keyed_bit)

lemma hoare_fact: "(P \<Longrightarrow> hoare I m Q) \<Longrightarrow> hoare (\<lambda>s. P \<and> I s) m Q"
  by (auto simp: hoare_def)

lemma hoare_when_flags:
  assumes "bit fl' 20 \<longrightarrow> b" "bit fl 20 \<longrightarrow> b"
  shows "hoare (root_in i (with_keys fl b)) (whenM c (updateM (setFieldU32 sfFlags fl') (Some i))) (\<lambda>_. root_in i keyed)"
  using hoare_set_flags [OF assms(1)] root_keyed [OF _ assms(2)] by (auto simp: whenM_def intro: hoare_ret)

lemma disable_flag: "bit (set_clear u v lsfDisableMaster x y) 20 \<Longrightarrow> bit y 20 \<or> u \<and> \<not> bit x 20"
  by (auto simp: set_clear_def Let_def bit_or_iff bit_and_iff disable_bit split: if_splits)

lemma SetAccount_keeps_keys:
  assumes p: "mTxnAccount t = Some i" and k: "bit fl 20 \<longrightarrow> b"
  shows "hoare (root_in i (with_keys fl b)) (SetAccount_doApply E t) (\<lambda>_. root_in i keyed)"
proof -
  let ?I = "root_in i (with_keys fl b)"
  have done_: "hoare ?I (retM ter) (\<lambda>_. root_in i keyed)" for ter :: TER
    by (rule hoare_ret) (rule root_keyed [OF _ k])
  show ?thesis
    unfolding SetAccount_doApply_def doneT_def p Let_def
    apply (rule hoare_bind [where R = "\<lambda>_. root_in i keyed"])
     prefer 2 apply (rule hoare_ret, assumption)
    apply (rule hoare_bind [OF hoare_flags], rule hoare_fact)
    apply (rule hoare_bind [OF keep_lift])
    apply (rule hoare_bind [OF keep_lift])
    apply (rule hoare_bind [where R = "\<lambda>_. ?I"])
    subgoal unfolding dirIsEmpty_def by (intro hoare_rules)
    apply (rule keep_if, rule done_)
    apply (rule hoare_bind [OF hoare_entry], rule hoare_fact)
    apply (rule keep_if, rule done_)
    apply (rule keep_if, rule done_)
    apply (rule keep_if, rule done_)
    apply (rule hoare_bind [OF keep_SetAccount_fields])
    apply (rule keep_if, rule done_)
    apply (rule hoare_bind [where R = "\<lambda>_. root_in i keyed"])
    subgoal
      using k
      by (intro hoare_when_flags)
        (auto simp: keep_flag other_flags bit_or_iff disable_bit with_keys_def split: if_splits dest!: disable_flag)
    apply (rule hoare_ret, assumption)
    done
qed

lemma keyed_setFlag: "\<not> bit f 20 \<Longrightarrow> keyed (setFlag f e) = keyed e" "sleType (setFlag f e) = sleType e"
  by (auto simp: keyed_bit setFlag_def update_flags_def getFlags_def isFieldPresent_def hasField_def bit_or_iff sfields
      split: option.splits stvar.splits)

lemma hoare_drop_key:
  "\<not> isFlag lsfDisableMaster e \<Longrightarrow> hoare (root_in i (\<lambda>x. keyed e \<and> x = e)) (updateM (makeFieldAbsent sfRegularKey) (Some i)) (\<lambda>_. root_in i keyed)"
  by (rule hoare_update) (auto simp: makeFieldAbsent_def keyed_def isFlag_def getFlags_def hasField_def sfields split: if_splits)

lemma SetRegularKey_keeps_keys:
  assumes p: "mTxnAccount t = Some i"
  shows "hoare (root_in i keyed) (SetRegularKey_doApply E t) (\<lambda>_. root_in i keyed)"
proof -
  have spent: "hoare (root_in i keyed) (updateM (\<lambda>e. Inr (setFlag lsfPasswordSpent e)) q) (\<lambda>_. root_in i keyed)" for q
    by (rule keep_update) (auto simp: keyed_setFlag other_flags)
  have key: "hoare (root_in i keyed) (updateM (setFieldAccount sfRegularKey key) q) (\<lambda>_. root_in i keyed)" for key q
    by (rule keep_update)
      (auto simp: setFieldAccount_def setField_def keyed_def isFieldPresent_def hasField_def Let_def split: if_splits)
  have entry: "hoare (root_in i keyed) (deref (Some i)) (\<lambda>e. root_in i (\<lambda>x. keyed e \<and> x = e))"
    by (auto simp: hoare_def deref_def root_in_def)
  have drop: "hoare (root_in i (\<lambda>x. keyed e \<and> x = e)) (if isFlag lsfDisableMaster e then retM tecMASTER_DISABLED
      else bindM (updateM (makeFieldAbsent sfRegularKey) (Some i)) (\<lambda>_. retM tesSUCCESS)) (\<lambda>_. root_in i keyed)" for e
    by (rule keep_if, rule hoare_ret, force simp: root_in_def, rule hoare_bind, erule hoare_drop_key, rule keep_ret)
  show ?thesis
    unfolding SetRegularKey_doApply_def doneT_def p Let_def
    by (rule hoare_bind, rule hoare_bind, rule keep_when, rule spent, rule keep_if, rule hoare_bind, rule keep_lift, rule hoare_bind,
        rule key, rule keep_ret, rule hoare_bind, rule entry, rule drop, rule keep_ret)
qed

text \<open>C9: An account never loses its last key. If an account root can be used by its master key or has a
  regular key, then after \<open>SetAccount\<close> or \<open>SetRegularKey\<close>, whatever the transaction asks for and
  whatever the result, it still can or has: the master key is disabled only where there is a
  regular key, and the regular key is removed only where the master key is enabled.
\<close>

theorem last_key_kept:
  assumes "ledger_ok (mLedger s)" "mTxnAccount t = Some i" "map_of (mEntries s) i = Some e"
    and "sleType (mEntry e) = ltACCOUNT_ROOT" "keyed (mEntry e)"
    and "SetAccount_doApply E t s = Inr (r, s') \<or> SetRegularKey_doApply E t s = Inr (r, s')"
  shows "\<exists>e'. map_of (mEntries s') i = Some e' \<and> sleType (mEntry e') = ltACCOUNT_ROOT \<and> keyed (mEntry e')"
proof -
  let ?fl = "getFlags (mEntry e)" and ?b = "isFieldPresent sfRegularKey (mEntry e)"
  have I: "root_in i keyed s" "root_in i (with_keys ?fl ?b) s" using assms(1-5) by (auto simp: root_in_def with_keys_def)
  have "bit ?fl 20 \<longrightarrow> ?b" using assms(5) by (simp add: keyed_bit)
  then have "root_in i keyed s'"
    using assms(6) hoareD [OF SetAccount_keeps_keys [OF assms(2)] I(2)] hoareD [OF SetRegularKey_keeps_keys [OF assms(2)] I(1)] by blast
  then show ?thesis by (auto simp: root_in_def)
qed

theorem last_key_kept_witness:
  "\<exists>r s' e'. SetRegularKey_doApply example_env
       ((new_transactor example_key_tx tapNONE)\<lparr>mTxnAccount := Some 5, mFeeDue := STAmount_u64 10 False\<rparr>)
       (set_with []\<lparr>mEntries := [(5, example_keyed_root)]\<rparr>) = Inr (r, s') \<and>
     map_of (mEntries s') 5 = Some e' \<and> keyed (mEntry e')"
proof -
  let ?t = "(new_transactor example_key_tx tapNONE)\<lparr>mTxnAccount := Some 5, mFeeDue := STAmount_u64 10 False\<rparr>"
  let ?s = "set_with []\<lparr>mEntries := [(5, example_keyed_root)]\<rparr>"
  have e: "sleType (mEntry example_keyed_root) = ltACCOUNT_ROOT" by (simp add: example_keyed_root_def example_root_simps)
  then have k: "hasField sfRegularKey (mEntry example_keyed_root)" by (simp add: template_defs)
  have fl: "getFlags (mEntry example_keyed_root) = 0"
    by (simp add: example_keyed_root_def example_root_def getFlags_def put_def new_entry_def STLedgerEntry_def findByType_def
        setFieldU16_def setField_def hasField_def addCommonFields_def set_template_def sfields)
  have "tx_isFieldPresent sfRegularKey example_key_tx = False" by (simp add: example_key_tx_def tx_eval)
  then obtain r s' where r: "SetRegularKey_doApply example_env ?t ?s = Inr (r, s')"
    using k fl
    by (simp add: SetRegularKey_doApply_def new_transactor_def lazy_eqs deref_def isFlag_def lsfDisableMaster_def makeFieldAbsent_def
        STAmount_u64_def Let_def cong: lazy_cong)
  have "ledger_ok (mLedger ?s)" using ledger_with_ok(1) [of "[]"] by (simp add: set_with_def LedgerEntrySet_def)
  moreover have "keyed (mEntry example_keyed_root)" using fl by (simp add: keyed_bit)
  ultimately show ?thesis using last_key_kept [of ?s ?t 5 example_keyed_root example_env r s'] e r by auto
qed

end
