(* ===== verification/ThreadLaws.thy ===== *)
theory ThreadLaws
  imports KeyLaws
begin

text \<open>
  What threading does to the entries: it links them to the transaction and leaves everything else
  as the transaction left it.
\<close>

text \<open>Two entries that differ at most in the fields of the thread.\<close>

definition rethreaded :: "sle \<Rightarrow> sle \<Rightarrow> bool" where
  "rethreaded e e' \<longleftrightarrow> sleIndex e' = sleIndex e \<and> sleType e' = sleType e \<and>
     (\<forall>f. f \<noteq> sfPreviousTxnID \<longrightarrow> f \<noteq> sfPreviousTxnLgrSeq \<longrightarrow> sleFields e' f = sleFields e f)"

definition entry_rethreaded :: "les_entry option \<Rightarrow> les_entry option \<Rightarrow> bool" where
  "entry_rethreaded x y \<longleftrightarrow>
     rel_option (\<lambda>e e'. rethreaded (mEntry e) (mEntry e') \<and> (mAction e' = taaDELETE) = (mAction e = taaDELETE)) x y"

definition view_rethreaded :: "(u256 \<rightharpoonup> sle) \<Rightarrow> (u256 \<rightharpoonup> sle) \<Rightarrow> bool" where
  "view_rethreaded V V' \<longleftrightarrow> (\<forall>k. rel_option rethreaded (V k) (V' k))"

text \<open>The invariant of the loop, relative to the set it started from.\<close>

definition thread_inv :: "les \<Rightarrow> thread_state \<Rightarrow> bool" where
  "thread_inv s t \<longleftrightarrow> mLedger (thSet t) = mLedger s \<and>
     (\<forall>k. entry_rethreaded (map_of (mEntries s) k) (map_of (mEntries (thSet t)) k)) \<and>
     (\<forall>k x. (k, x) \<in> set (newMods t) \<longrightarrow>
        map_of (mEntries s) k = None \<and> (\<exists>y. getSLE (mLedger s) k = Some y \<and> rethreaded y x))"

lemma rethreaded_refl [simp]: "rethreaded e e"
  by (simp add: rethreaded_def)

lemma rethreaded_trans: "rethreaded e e' \<Longrightarrow> rethreaded e' e'' \<Longrightarrow> rethreaded e e''"
  by (simp add: rethreaded_def)

lemma thread_sle_rethreads: "thread_sle h n e = Inr (Some (old, e')) \<Longrightarrow> rethreaded e e'"
  by (auto simp: thread_sle_def bindE_eq_Inr setFieldH256_def setFieldU32_def setField_def Let_def rethreaded_def split: if_splits)

lemma entry_rethreaded_trans:
  "entry_rethreaded x y \<Longrightarrow> entry_rethreaded y z \<Longrightarrow> entry_rethreaded x z"
  unfolding entry_rethreaded_def by (cases x; cases y; cases z) (auto intro: rethreaded_trans)

lemma entry_rethreaded_refl [simp]: "entry_rethreaded x x"
  by (cases x) (simp_all add: entry_rethreaded_def)

lemma inv_set_entry:
  assumes "thread_inv s t" "map_of (mEntries (thSet t)) k = Some e" "rethreaded (mEntry e) (mEntry e')"
    "(mAction e' = taaDELETE) = (mAction e = taaDELETE)"
  shows "thread_inv s (t\<lparr>thSet := set_entry k e' (thSet t)\<rparr>)"
proof -
  have "entry_rethreaded (Some e) (Some e')" using assms(3,4) by (simp add: entry_rethreaded_def)
  moreover have "entry_rethreaded (map_of (mEntries s) k) (Some e)" using assms(1,2) by (metis thread_inv_def)
  ultimately have "entry_rethreaded (map_of (mEntries s) k) (Some e')" by (rule entry_rethreaded_trans [rotated])
  then show ?thesis using assms(1) by (auto simp: thread_inv_def set_entry_def map_of_smap_insert)
qed

lemma inv_insert:
  assumes "thread_inv s t" "map_of (mEntries s) k = None" "getSLE (mLedger s) k = Some y" "rethreaded y x"
  shows "thread_inv s (t\<lparr>newMods := smap_insert k x (newMods t)\<rparr>)"
  using assms set_smap_insert [of k x "newMods t"] by (auto simp: thread_inv_def)

lemma inv_getForMod:
  assumes "thread_inv s t" "getForMod k t = (r, t')"
  shows "thread_inv s t'"
proof (cases "map_of (mEntries (thSet t)) k")
  case None
  then have "map_of (mEntries s) k = None"
    using assms(1) by (auto simp: thread_inv_def entry_rethreaded_def dest!: spec [of _ k])
  moreover have "mLedger (thSet t) = mLedger s" using assms(1) by (simp add: thread_inv_def)
  ultimately show ?thesis
    using assms None inv_insert [OF assms(1) _ _ rethreaded_refl] by (auto simp: getForMod_def split: option.splits)
next
  case (Some e)
  then show ?thesis
    using assms inv_set_entry [OF assms(1) Some] by (auto simp: getForMod_def split: if_splits)
qed

lemma inv_mod_put:
  assumes "thread_inv s t" "mod_get r t = Some e" "rethreaded e e'"
  shows "thread_inv s (mod_put r e' t)"
proof (cases r)
  case (InSet k)
  then obtain x where x: "map_of (mEntries (thSet t)) k = Some x" "mEntry x = e" using assms(2) by (auto simp: mod_get_def)
  then show ?thesis using inv_set_entry [OF assms(1) x(1), of "x\<lparr>mEntry := e'\<rparr>"] assms(3) InSet by (simp add: mod_put_def)
next
  case (InMods k)
  then have "(k, e) \<in> set (newMods t)" using assms(2) by (auto simp: mod_get_def dest: map_of_SomeD)
  then obtain y where "map_of (mEntries s) k = None" "getSLE (mLedger s) k = Some y" "rethreaded y e"
    using assms(1) unfolding thread_inv_def by metis
  then show ?thesis using inv_insert [OF assms(1)] rethreaded_trans [OF _ assms(3)] InMods by (simp add: mod_put_def)
qed

lemma inv_meta: "thread_inv s t \<Longrightarrow> thread_inv s (snd (meta_thread k t))"
  by (simp add: meta_thread_def thread_inv_def)

lemma inv_threadTx:
  assumes "thread_inv s t" "threadTx r t = Inr (b, t')"
  shows "thread_inv s t'"
proof -
  obtain e q where e: "mod_get r t = Some e" "thread_sle (setTxID (thSet t)) (setLgrSeq (thSet t)) e = Inr q"
    using assms(2) by (auto simp: threadTx_def bindE_eq_Inr split: option.splits)
  show ?thesis
  proof (cases q)
    case (Some p)
    obtain old e' where "p = (old, e')" by (cases p)
    with Some e have i: "thread_inv s (mod_put r e' t)" using inv_mod_put [OF assms(1) e(1)] thread_sle_rethreads by blast
    show ?thesis using assms(2) e Some \<open>p = (old, e')\<close> i inv_meta [OF i, of "sleIndex e"]
      by (auto simp: threadTx_def Let_def split: if_splits dest!: arg_cong [where f = snd])
  qed (use assms e in \<open>auto simp: threadTx_def\<close>)
qed

lemma inv_account: "thread_inv s t \<Longrightarrow> threadTx_account A a t = Inr (b, t') \<Longrightarrow> thread_inv s t'"
  by (auto simp: threadTx_account_def split: prod.splits option.splits dest: inv_getForMod inv_threadTx)

lemma inv_owners: "thread_inv s t \<Longrightarrow> threadOwners A x t = Inr (b, t') \<Longrightarrow> thread_inv s t'"
  by (auto simp: threadOwners_def bindE_eq_Inr split: if_splits dest: inv_account)

lemma inv_entry: "thread_inv s t \<Longrightarrow> thread_entry A k t = Inr t' \<Longrightarrow> thread_inv s t'"
  by (auto simp: thread_entry_def bindE_eq_Inr split: option.splits LedgerEntryAction.splits if_splits
      dest: inv_threadTx inv_owners)

lemma inv_entries: "thread_inv s t \<Longrightarrow> thread_entries A ks t = Inr t' \<Longrightarrow> thread_inv s t'"
  by (induction ks arbitrary: t) (auto simp: bindE_eq_Inr dest: inv_entry)

lemma modify_all_entries:
  assumes "modify_all xs s = Inr (u, s')"
    and "\<forall>x\<in>set xs. case map_of (mEntries s) (sleIndex x) of None \<Rightarrow> True | Some e \<Rightarrow> mAction e = taaMODIFY"
  shows "mLedger s' = mLedger s \<and> (\<forall>k. if k \<in> sleIndex ` set xs
     then \<exists>e. map_of (mEntries s') k = Some e \<and> mAction e = taaMODIFY \<and> mEntry e \<in> set xs \<and> sleIndex (mEntry e) = k
     else map_of (mEntries s') k = map_of (mEntries s) k)"
  using assms
proof (induction xs arbitrary: s)
  case (Cons x xs)
  then obtain e where s1: "modify_all xs (set_entry (sleIndex x) e s) = Inr (u, s')" "mEntry e = x" "mAction e = taaMODIFY"
    by (auto simp: bindM_def entryModify_sle_def split: option.splits)
  let ?s1 = "set_entry (sleIndex x) e s"
  have at: "map_of (mEntries ?s1) k = (if k = sleIndex x then Some e else map_of (mEntries s) k)" for k
    by (simp add: set_entry_def map_of_smap_insert)
  have "\<forall>y\<in>set xs. case map_of (mEntries ?s1) (sleIndex y) of None \<Rightarrow> True | Some e \<Rightarrow> mAction e = taaMODIFY"
    using Cons.prems(2) s1(3) by (simp add: at)
  note ih = Cons.IH [OF s1(1) this]
  show ?case
  proof (intro conjI allI)
    show "mLedger s' = mLedger s" using ih by (simp add: set_entry_def)
  next
    fix k
    show "if k \<in> sleIndex ` set (x # xs)
       then \<exists>e. map_of (mEntries s') k = Some e \<and> mAction e = taaMODIFY \<and> mEntry e \<in> set (x # xs) \<and> sleIndex (mEntry e) = k
       else map_of (mEntries s') k = map_of (mEntries s) k"
      using conjunct2 [OF ih, THEN spec, of k] s1(2,3) by (auto simp: at split: if_splits)
  qed
qed (simp add: retM_def)

text \<open>C10: Threading changes nothing but threads. Whatever entries the set holds, after \<open>calcRawMeta\<close> has
  linked them to the transaction, the view of the ledger has the same keys, and each entry has
  the same type and the same value in every field, but for the identifier and the ledger of the
  previous transaction. So the balances written back are those the transaction computed.
\<close>

theorem threading_only_links:
  assumes "ledger_ok (mLedger s)" "calcRawMeta A s = Inr (u, s')"
  shows "mLedger s' = mLedger s \<and> view_rethreaded (view s) (view s')"
proof -
  let ?t0 = "\<lparr>thSet = s, newMods = [], metaThreaded = []\<rparr>"
  obtain t where t: "thread_entries A (map fst (mEntries s)) ?t0 = Inr t" "modify_all (map snd (newMods t)) (thSet t) = Inr (u, s')"
    using assms(2) by (auto simp: calcRawMeta_def bindE_eq_Inr)
  have inv: "thread_inv s t" by (rule inv_entries [OF _ t(1)]) (simp add: thread_inv_def)
  have mods: "map_of (mEntries s) k = None \<and> (\<exists>y. getSLE (mLedger s) k = Some y \<and> rethreaded y x \<and> sleIndex x = k)"
    if "(k, x) \<in> set (newMods t)" for k x
    using inv that assms(1) by (fastforce simp: thread_inv_def ledger_ok_def rethreaded_def)
  have set_rel: "entry_rethreaded (map_of (mEntries s) k) (map_of (mEntries (thSet t)) k)" for k using inv by (simp add: thread_inv_def)
  have none: "map_of (mEntries s) k = None \<longleftrightarrow> map_of (mEntries (thSet t)) k = None" for k
    using set_rel [of k] by (auto simp: entry_rethreaded_def)
  have pre: "\<forall>x\<in>set (map snd (newMods t)). case map_of (mEntries (thSet t)) (sleIndex x) of None \<Rightarrow> True | Some e \<Rightarrow> mAction e = taaMODIFY"
    using mods none by (fastforce split: option.splits)
  note m = modify_all_entries [OF t(2) pre]
  have "rel_option rethreaded (view s k) (view s' k)" for k
  proof (cases "k \<in> sleIndex ` set (map snd (newMods t))")
    case True
    then obtain e where e: "map_of (mEntries s') k = Some e" "mAction e = taaMODIFY" "mEntry e \<in> set (map snd (newMods t))"
        "sleIndex (mEntry e) = k"
      using conjunct2 [OF m, THEN spec, of k] by auto
    then obtain k' where "(k', mEntry e) \<in> set (newMods t)" by auto
    with mods e(4) show ?thesis using e by (fastforce simp: view_def)
  next
    case False
    then have "map_of (mEntries s') k = map_of (mEntries (thSet t)) k"
      using conjunct2 [OF m, THEN spec, of k] by simp
    then show ?thesis using set_rel [of k] m inv
      by (auto simp: view_def entry_rethreaded_def thread_inv_def option.rel_sel split: option.splits)
  qed
  then show ?thesis using m inv by (simp add: view_rethreaded_def thread_inv_def)
qed

text \<open>A set with an account it has made; its entry gets the identifier of the transaction.\<close>

definition example_made :: les where
  "example_made = set_with []\<lparr>mEntries := [(getAccountRootIndex (app_sha512 example_app) 11,
     \<lparr>mEntry = example_root 11 100, mAction = taaCREATE, entrySeq = 0\<rparr>)], setTxID := 77\<rparr>"

lemma example_made_threads:
  "\<exists>s'. calcRawMeta example_app example_made = Inr ((), s') \<and> view s' \<noteq> view example_made"
proof -
  have prev: "getFieldH256 sfPreviousTxnID (example_root 11 100) = Inr 0"
    by (simp add: example_root_def getFieldH256_put previous_distinct new_root_previous)
  have old: "sleFields (example_root 11 100) sfPreviousTxnID \<noteq> Some (STHash256 77)"
    using prev by (auto simp: getFieldH256_def getFieldBy_def example_root_simps thread_fields split: option.splits)
  define e where "e v = put sfPreviousTxnLgrSeq v (put sfPreviousTxnID (STHash256 77) (example_root 11 100))" for v
  have "sleFields (e v) sfPreviousTxnID = Some (STHash256 77)" for v by (simp add: e_def put_def sfields)
  then have "e v \<noteq> example_root 11 100" for v using old by metis
  then have "view s \<noteq> view s'" if "view s k = Some (e v)" "view s' k = Some (example_root 11 100)" for s s' k v
    using that by (metis option.inject)
  note differ = this [of _ "getAccountRootIndex (app_sha512 example_app) 11"]
  show ?thesis
    by (simp add: example_made_def set_eval thread_eval example_root_simps thread_fields prev entry_eval more_field_types
        get_val(1) cong: lazy_cong) (rule differ; simp add: view_def e_def)
qed

theorem threading_only_links_witness:
  "\<exists>s'. calcRawMeta example_app example_made = Inr ((), s') \<and> view s' \<noteq> view example_made \<and>
     view_rethreaded (view example_made) (view s')"
proof -
  have ok: "ledger_ok (mLedger example_made)"
    using ledger_with_ok(1) [of "[]"] by (simp add: example_made_def set_with_def LedgerEntrySet_def)
  then show ?thesis using example_made_threads threading_only_links [OF ok] by blast
qed

end
