(* ===== verification/Spec2Isabelle.thy ===== *)
theory Spec2Isabelle
  imports ObjectWire LineDeletion PaymentLaws TransactorLaws ThreadLaws
begin

text \<open>
  Verification of the ledger core of skywelld, the server in \<open>src/src\<close>: from the bytes and amounts of
  the protocol up to the engine that applies a transaction to a ledger.

  \<^bold>\<open>The program.\<close> A ledger is a map from 256-bit keys to typed entries: account roots, trust lines,
  offers, directories and settings. The protocol layer (\<open>protocol\<close>) has the field-indexed objects
  entries and transactions are made of, the amounts they hold, their binary form and the keys of
  entries. The ledger layer (\<open>ledger\<close>) has the ledger itself and the \<open>LedgerEntrySet\<close>, a cache of
  entries over a ledger in which a transaction makes its changes. The transaction layer
  (\<open>transaction\<close>) has a class for each kind of transaction, which checks it and works on the set, and the
  \<open>TransactionEngine\<close>, which runs it, claims the fee of a failed one, writes the set back and records
  the transaction.

  \<^bold>\<open>How the model is written.\<close> Exceptions are values: a computation that may throw returns
  \<open>cxx_error + 'a\<close>, and null pointers, dangling pointers and division by zero are errors as well.
  Operations on the set are of type \<open>'a lesM\<close>, functions from a set to a result with a new set, composed with
  \<open>bindM\<close> in the order of the statements. A pointer to an entry is the key under which
  the set holds it, so two pointers to one entry share its changes as in the program. Machine
  integers are words, and wrap around as they do. Objects of the classes are records; the
  virtual methods of a transactor are a record of functions. What lies outside the model is a
  parameter: the hash, the signatures and the configuration are fields of \<open>app\<close> and \<open>txenv\<close>, and
  theorems that rely on one of them say so in a hypothesis.

  \<^bold>\<open>The theories.\<close>

  \<^descr> \<open>Prelude\<close>, \<open>StdMap\<close>: errors, words, decimal scaling; ordered maps, with the locale
    \<open>ordered_map\<close> interpreted on the sorted association lists the model uses for \<open>std::map\<close>.

  \<^descr> \<open>Serialization\<close>: \<open>Serializer\<close> and \<open>SerialIter\<close> (\<open>protocol/Serializer.h\<close>,
    \<open>protocol/impl/Serializer.cpp\<close>). The locale \<open>wire_codec\<close> is the contract of a writer with a reader; it is
    interpreted on every encoder: integers, bit strings, field identifiers, blobs, and
    amounts. Blobs and identifiers are read back, and bytes that are accepted are the unique encoding.

  \<^descr> \<open>BaseUint\<close>, \<open>Types\<close>: \<open>base_uint\<close> word by word (\<open>common/base/base_uint.h\<close>, \<open>strHex\<close>), accounts, currencies and
    issues. The word loops implement arithmetic modulo the width.

  \<^descr> \<open>Amount\<close>, \<open>AmountArith\<close>, \<open>AmountText\<close>: \<open>STAmount\<close>. \<open>canonicalize\<close> truncates and fails exactly at the
    bounds; the wire and the text form are read back; comparison is the order of values; error bounds
    of sums, products and quotients; rates encode prices; where rounding up falls short. \<open>canonical\<close> is what
    \<open>canonicalize\<close> returns; native amounts are canonical up to 10^17 units (\<open>cMaxNativeN\<close>), so the theorems on canonical
    native amounts leave out an account that holds more, as the one that receives the 6 * 10^17 units of genesis does.

  \<^descr> \<open>LedgerFormat\<close>, \<open>TxFormat\<close>: fields, templates and typed access (\<open>SField\<close>, \<open>STObject\<close>, \<open>LedgerFormats\<close>,
    \<open>TxFormats\<close>, \<open>STTx\<close>). In a well-typed entry access throws exactly on a field outside the template
    or of another type, and setters keep it well-typed.

  \<^descr> \<open>ObjectWire\<close>: the binary form of whole objects (\<open>STObject::add\<close> and \<open>set\<close>, \<open>STArray\<close>, \<open>STPathSet\<close>, \<open>STVar\<close>).
    Objects are read back in canonical order, and reading ends on every input.

  \<^descr> \<open>Indexes\<close>: the keys (\<open>protocol/impl/Indexes.cpp\<close>). The hashed bytes determine the kind of a key and what it identifies,
    across all kinds, and the pages of a book are ordered by quality.

  \<^descr> \<open>Ledgers\<close>, \<open>Deferred\<close>, \<open>EntrySet\<close>, \<open>LoadFee\<close>: \<open>Ledger\<close>, \<open>DeferredCredits\<close>, the cache of
    \<open>LedgerEntrySet\<close>, \<open>LoadFeeTrackImp\<close>. The abstract state of a set is its \<open>view\<close>, the ledger as the transaction
    sees it; writing a set back leaves exactly the view. The calculus \<open>runs\<close> states total
    correctness of operations on the set.

  \<^descr> \<open>Directory\<close>, \<open>DirectoryOps\<close>: the directories. Adding appends and keeps the chain of pages, for every
    describer of pages (the locale \<open>page_describer\<close>, interpreted for owners and books); removing takes out
    one occurrence; a walk ends and yields every key in order.

  \<^descr> \<open>Credit\<close>, \<open>CreditLaws\<close>, \<open>EntrySafety\<close>, \<open>LineDeletion\<close>: balances and trust lines. Native currency is
    conserved, the three routines for credits along a line agree, and a line is deleted from both
    directories.

  \<^descr> \<open>Transactor\<close>, \<open>Transactors\<close>, \<open>TrustTransactors\<close>, \<open>Payments\<close>: the base class and the kinds of
    transactions (\<open>transaction/transactors\<close>). \<open>Threading\<close> and \<open>Engine\<close>: \<open>calcRawMeta\<close> and
    \<open>applyTransaction\<close>.

  \<^descr> \<open>Evaluation\<close>: running whole transactions with the simplifier, for examples.

  \<^descr> \<open>Frames\<close>: what a run cannot change. The locale \<open>framed_transactor\<close> is the contract of a kind of
    transaction, interpreted for each of them; the engine is all or nothing and applies a transaction at most
    once.

  \<^descr> \<open>KeyLaws\<close>, \<open>FeeLaws\<close>, \<open>PaymentLaws\<close>, \<open>ThreadLaws\<close>, \<open>TransactorLaws\<close>: an account keeps a key; where
    fees go; what a direct payment of native currency moves; threading only links; who authorizes a part of
    a batch, the end of nesting, and why accounts are never merged.

  \<^bold>\<open>Loops.\<close> The loops of the amounts have termination proofs. Loops that follow links in the ledger
  (\<open>dirNext\<close>, \<open>dirCount_loop\<close>, \<open>visit_pages\<close>, \<open>skip_deleted\<close>) are partial functions into \<open>option\<close>, where
  \<open>None\<close> is not returning; that they return is proved for well-formed directories, and for the
  successor search always. Batches nest, and \<open>transact_fuel\<close> counts the levels; \<open>batch_depth\<close>, the
  depth of arrays in the transaction, is proved to be enough. The readers of \<open>ObjectWire\<close> call each other and count
  their calls; twice the number of bytes and one more is proved to be enough.

  \<^bold>\<open>Not modelled.\<close> The calculation of payments along paths (\<open>transaction/paths\<close>) and the crossing of offers
  (\<open>transaction/book\<close>): \<open>Payment\<close> takes the former as a parameter, of which only is assumed that it works on
  the set and leaves the ledger beneath. The contents of metadata, which clients read: their bytes
  are a parameter, their effect on entries is modelled. Hashing, signatures and big numbers
  (\<open>crypto\<close>), boost's regular expressions and the hash tree and storage behind the maps
  (\<open>common/shamap\<close>, \<open>data\<close>). JSON and printing. Tickets, which are disabled at compile time. Consensus, the
  network, the services and the application object, which run on timers, threads and sockets.
  Logging, locks and counters of objects have no state here. If a transaction throws, the program leaves a half-changed
  set behind, which the next one resets; the model drops it.
\<close>

end
